(* ===== verification/Prelude.thy ===== *)
theory Prelude
  imports Main "HOL-Library.Word"
begin

text \<open>
  Shared vocabulary of the development: the machine types of the sources
  (\<^verbatim>\<open>U8\<close>, \<^verbatim>\<open>U16\<close>, \<^verbatim>\<open>U32\<close>, \<^verbatim>\<open>U64\<close>), the program type of the stateful
  components (a state transformer that may end in a fault), its total-correctness
  triples, and the little-endian layout of integers in memory.
\<close>

unbundle bit_operations_syntax

named_theorems prog_simps \<open>evaluation of program combinators\<close>
named_theorems wp \<open>triples and triple composition\<close>
named_theorems codec_simps \<open>layout of integers and structs in memory\<close>

subsection \<open>Machine types\<close>

type_synonym u8 = "8 word"
type_synonym u16 = "16 word"
type_synonym u32 = "32 word"
type_synonym u64 = "64 word"
type_synonym byte = u8
type_synonym bytes = "u8 list"

text \<open>Addresses of heap objects; address 0 is the null pointer.\<close>

type_synonym ptr = nat

text \<open>\<^verbatim>\<open>struct timeval\<close>: seconds and microseconds, both \<^verbatim>\<open>long\<close>.\<close>

type_synonym timeval = "u64 \<times> u64"

subsection \<open>Programs with faults\<close>

text \<open>
  A run of a C++ function either ends in a result and a new state or in a fault:
  a null or dangling pointer is dereferenced, an object is read or written outside
  its bounds, an element of an empty container is taken, or the process is aborted.
\<close>

datatype fault = NullDeref | Dangling | OutOfBounds | EmptyContainer | Aborted

type_synonym ('s, 'a) prog = "'s \<Rightarrow> fault + ('a \<times> 's)"

definition ret :: "'a \<Rightarrow> ('s, 'a) prog" where
  "ret x = (\<lambda>s. Inr (x, s))"

definition fail :: "fault \<Rightarrow> ('s, 'a) prog" where
  "fail f = (\<lambda>s. Inl f)"

definition andThen :: "('s, 'a) prog \<Rightarrow> ('a \<Rightarrow> ('s, 'b) prog) \<Rightarrow> ('s, 'b) prog" where
  "andThen m k = (\<lambda>s. case m s of Inl f \<Rightarrow> Inl f | Inr (x, s') \<Rightarrow> k x s')"

definition gets :: "('s \<Rightarrow> 'a) \<Rightarrow> ('s, 'a) prog" where
  "gets f = (\<lambda>s. Inr (f s, s))"

definition modify :: "('s \<Rightarrow> 's) \<Rightarrow> ('s, unit) prog" where
  "modify f = (\<lambda>s. Inr ((), f s))"

definition require :: "fault \<Rightarrow> bool \<Rightarrow> ('s, unit) prog" where
  "require f b = (if b then ret () else fail f)"

primrec foreach :: "'a list \<Rightarrow> ('a \<Rightarrow> ('s, unit) prog) \<Rightarrow> ('s, unit) prog" where
  "foreach [] f = ret ()"
| "foreach (x # xs) f = andThen (f x) (\<lambda>_. foreach xs f)"

lemma ret_apply [simp, prog_simps]: "ret x s = Inr (x, s)"
  by (simp add: ret_def)

lemma fail_apply [simp, prog_simps]: "fail f s = Inl f"
  by (simp add: fail_def)

lemma gets_apply [simp, prog_simps]: "gets f s = Inr (f s, s)"
  by (simp add: gets_def)

lemma modify_apply [simp, prog_simps]: "modify f s = Inr ((), f s)"
  by (simp add: modify_def)

lemma require_apply [simp, prog_simps]: "require f b s = (if b then Inr ((), s) else Inl f)"
  by (simp add: require_def)

lemma andThen_apply [prog_simps]:
  "andThen m k s = (case m s of Inl f \<Rightarrow> Inl f | Inr (x, s') \<Rightarrow> k x s')"
  by (simp add: andThen_def)

lemma andThen_Inr [simp]: "m s = Inr (x, s') \<Longrightarrow> andThen m k s = k x s'"
  by (simp add: andThen_def)

lemma andThen_Inl [simp]: "m s = Inl f \<Longrightarrow> andThen m k s = Inl f"
  by (simp add: andThen_def)

lemma if_prog_apply [simp]: "(if b then m else n) s = (if b then m s else n s)"
  for m n :: "('s, 'a) prog"
  by simp

lemma if_Inr_same [simp]: "(if b then Inr (x, s) else Inr (y, s)) = Inr (if b then x else y, s)"
  by simp

lemma andThen_eq_InrE:
  assumes "andThen m k s = Inr (y, t)"
  obtains x s' where "m s = Inr (x, s')" and "k x s' = Inr (y, t)"
  using assms by (auto simp: andThen_def split: sum.splits prod.splits)

lemma andThen_eq_Inr_iff:
  "andThen m k s = Inr r \<longleftrightarrow> (\<exists>x s'. m s = Inr (x, s') \<and> k x s' = Inr r)"
  by (auto simp: andThen_def split: sum.splits prod.splits)

lemma andThen_assoc: "andThen (andThen m k) l = andThen m (\<lambda>x. andThen (k x) l)"
  by (auto simp: andThen_def fun_eq_iff split: sum.splits)

subsection \<open>Total-correctness triples\<close>

text \<open>
  \<open>total P m Q\<close>: from every state that satisfies \<open>P\<close>, the program ends without a
  fault, in a result and a state that satisfy \<open>Q\<close>.
\<close>

definition total :: "('s \<Rightarrow> bool) \<Rightarrow> ('s, 'a) prog \<Rightarrow> ('a \<Rightarrow> 's \<Rightarrow> bool) \<Rightarrow> bool" where
  "total P m Q \<longleftrightarrow> (\<forall>s. P s \<longrightarrow> (\<exists>x s'. m s = Inr (x, s') \<and> Q x s'))"

lemma totalI: "(\<And>s. P s \<Longrightarrow> \<exists>x s'. m s = Inr (x, s') \<and> Q x s') \<Longrightarrow> total P m Q"
  by (simp add: total_def)

lemma totalD: "total P m Q \<Longrightarrow> P s \<Longrightarrow> \<exists>x s'. m s = Inr (x, s') \<and> Q x s'"
  by (simp add: total_def)

lemma totalE:
  assumes "total P m Q" and "P s"
  obtains x s' where "m s = Inr (x, s')" and "Q x s'"
  using assms by (auto simp: total_def)

lemma total_ret [wp]: "total (Q x) (ret x) Q"
  by (simp add: total_def)

lemma total_gets [wp]: "total (\<lambda>s. Q (f s) s) (gets f) Q"
  by (simp add: total_def)

lemma total_modify [wp]: "total (\<lambda>s. Q () (f s)) (modify f) Q"
  by (simp add: total_def)

lemma total_require [wp]: "total (\<lambda>s. b \<and> Q () s) (require f b) Q"
  by (simp add: total_def)

lemma total_andThen:
  assumes "total P m R" and "\<And>x. total (R x) (k x) Q"
  shows "total P (andThen m k) Q"
  using assms by (fastforce simp: total_def andThen_def)

lemma total_weaken:
  assumes "total P m Q" and "\<And>s. P' s \<Longrightarrow> P s" and "\<And>x s. Q x s \<Longrightarrow> Q' x s"
  shows "total P' m Q'"
  using assms unfolding total_def by blast

lemma total_pre:
  assumes "total P m Q" and "\<And>s. P' s \<Longrightarrow> P s"
  shows "total P' m Q"
  using assms by (rule total_weaken)

lemma total_if [wp]:
  assumes "b \<Longrightarrow> total P m Q" and "\<not> b \<Longrightarrow> total P' n Q"
  shows "total (\<lambda>s. if b then P s else P' s) (if b then m else n) Q"
  using assms by (cases b) auto

lemma total_foreach:
  assumes "\<And>x. x \<in> set xs \<Longrightarrow> total I (f x) (\<lambda>_. I)"
  shows "total I (foreach xs f) (\<lambda>_. I)"
  using assms
proof (induction xs)
  case Nil
  show ?case by (simp add: total_def)
next
  case (Cons a xs)
  have "total I (f a) (\<lambda>_. I)"
    by (simp add: Cons.prems)
  moreover have "total I (foreach xs f) (\<lambda>_. I)"
    by (rule Cons.IH) (simp add: Cons.prems)
  ultimately show ?case
    by (auto intro: total_andThen)
qed

text \<open>\<open>faultless m s\<close>: the run of \<open>m\<close> from \<open>s\<close> ends in a result.\<close>

definition faultless :: "('s, 'a) prog \<Rightarrow> 's \<Rightarrow> bool" where
  "faultless m s \<longleftrightarrow> (\<exists>x s'. m s = Inr (x, s'))"

lemma faultlessE:
  assumes "faultless m s"
  obtains x s' where "m s = Inr (x, s')"
  using assms by (auto simp: faultless_def)

lemma faultless_run: "m s = Inr (x, s') \<Longrightarrow> faultless m s"
  by (auto simp: faultless_def)

lemma faultless_prim [simp]:
  "faultless (ret x) s" "faultless (gets f) s" "faultless (modify g) s" "faultless (require e b) s \<longleftrightarrow> b"
  by (simp_all add: faultless_def)

lemma faultless_andThen:
  assumes "faultless m s" and "\<And>x s'. m s = Inr (x, s') \<Longrightarrow> faultless (k x) s'"
  shows "faultless (andThen m k) s"
  using assms by (auto simp: faultless_def)

lemma faultless_if: "(b \<Longrightarrow> faultless m s) \<Longrightarrow> (\<not> b \<Longrightarrow> faultless n s) \<Longrightarrow> faultless (if b then m else n) s"
  by simp

text \<open>\<open>yields P m\<close>: whatever a faultless run of \<open>m\<close> returns satisfies \<open>P\<close>.\<close>

definition yields :: "('a \<Rightarrow> bool) \<Rightarrow> ('s, 'a) prog \<Rightarrow> bool" where
  "yields P m \<longleftrightarrow> (\<forall>s x s'. m s = Inr (x, s') \<longrightarrow> P x)"

lemma yieldsD: "yields P m \<Longrightarrow> m s = Inr (x, s') \<Longrightarrow> P x"
  unfolding yields_def by blast

lemma yields_ret [simp]: "yields P (ret x) \<longleftrightarrow> P x"
  by (simp add: yields_def)

lemma yields_fail [simp]: "yields P (fail f)"
  by (simp add: yields_def)

lemma yields_andThen: "(\<And>x. yields P (k x)) \<Longrightarrow> yields P (andThen m k)"
  by (auto simp: yields_def andThen_eq_Inr_iff)

lemma yields_andThen2: "yields Q m \<Longrightarrow> (\<And>x. Q x \<Longrightarrow> yields P (k x)) \<Longrightarrow> yields P (andThen m k)"
  by (fastforce simp: yields_def andThen_eq_Inr_iff)

lemma yields_if: "(b \<Longrightarrow> yields P m) \<Longrightarrow> (\<not> b \<Longrightarrow> yields P n) \<Longrightarrow> yields P (if b then m else n)"
  by simp

text \<open>
  \<open>keeps I m\<close>: whatever a faultless run of \<open>m\<close> started from, the observation \<open>I\<close>
  of the state is the same afterwards.
\<close>

definition keeps :: "('s \<Rightarrow> 'o) \<Rightarrow> ('s, 'a) prog \<Rightarrow> bool" where
  "keeps obs m \<longleftrightarrow> (\<forall>s x s'. m s = Inr (x, s') \<longrightarrow> obs s' = obs s)"

lemma keepsI: "(\<And>s x s'. m s = Inr (x, s') \<Longrightarrow> obs s' = obs s) \<Longrightarrow> keeps obs m"
  by (auto simp: keeps_def)

lemma keepsD: "keeps obs m \<Longrightarrow> m s = Inr (x, s') \<Longrightarrow> obs s' = obs s"
  by (simp add: keeps_def)

lemma keeps_ret [intro, simp]: "keeps obs (ret x)"
  by (simp add: keeps_def)

lemma keeps_fail [intro, simp]: "keeps obs (fail f)"
  by (simp add: keeps_def)

lemma keeps_gets [intro, simp]: "keeps obs (gets f)"
  by (simp add: keeps_def)

lemma keeps_require [intro, simp]: "keeps obs (require f b)"
  by (simp add: keeps_def)

lemma keeps_modify [intro]: "(\<And>s. obs (f s) = obs s) \<Longrightarrow> keeps obs (modify f)"
  by (simp add: keeps_def)

lemma keeps_andThen [intro]:
  assumes "keeps obs m" and "\<And>x. keeps obs (k x)"
  shows "keeps obs (andThen m k)"
  using assms by (fastforce simp: keeps_def elim!: andThen_eq_InrE)

lemma keeps_if [intro]:
  "keeps obs m \<Longrightarrow> keeps obs n \<Longrightarrow> keeps obs (if b then m else n)"
  by simp

lemma keeps_foreach [intro]:
  "(\<And>x. keeps obs (f x)) \<Longrightarrow> keeps obs (foreach xs f)"
  by (induction xs) auto

subsection \<open>Objects behind pointers\<close>

text \<open>An object of the heap \<open>h\<close> is read through its address.\<close>

definition heap_get :: "('s \<Rightarrow> ptr \<rightharpoonup> 'o) \<Rightarrow> ptr \<Rightarrow> ('s, 'o) prog" where
  "heap_get h p = (\<lambda>s. if p = 0 then Inl NullDeref
     else case h s p of None \<Rightarrow> Inl Dangling | Some x \<Rightarrow> Inr (x, s))"

text \<open>\<^verbatim>\<open>v[0]\<close> of a vector.\<close>

definition front_of :: "('s \<Rightarrow> 'a list) \<Rightarrow> ('s, 'a) prog" where
  "front_of f = (\<lambda>s. case f s of [] \<Rightarrow> Inl EmptyContainer | p # _ \<Rightarrow> Inr (p, s))"

lemma heap_get_eq_Inr [simp]: "heap_get h p s = Inr (x, s') \<longleftrightarrow> p \<noteq> 0 \<and> h s p = Some x \<and> s' = s"
  by (auto simp: heap_get_def split: option.splits)

lemma heap_get_run [simp]: "p \<noteq> 0 \<Longrightarrow> h s p = Some x \<Longrightarrow> heap_get h p s = Inr (x, s)"
  by simp

lemma heap_get_null [simp]: "heap_get h 0 s = Inl NullDeref"
  by (simp add: heap_get_def)

lemma heap_get_dangling [simp]: "p \<noteq> 0 \<Longrightarrow> h s p = None \<Longrightarrow> heap_get h p s = Inl Dangling"
  by (simp add: heap_get_def)

lemma front_of_eq_Inr [simp]: "front_of f s = Inr (p, s') \<longleftrightarrow> (\<exists>r. f s = p # r) \<and> s' = s"
  by (auto simp: front_of_def split: list.splits)

lemma front_of_run [simp]: "f s = p # r \<Longrightarrow> front_of f s = Inr (p, s)"
  by simp

lemma keeps_heap_get [intro, simp]: "keeps obs (heap_get h p)"
  by (auto simp: keeps_def)

lemma keeps_front_of [intro, simp]: "keeps obs (front_of f)"
  by (auto simp: keeps_def)

text \<open>\<open>zoom get put m\<close> runs a program on a part of the state.\<close>

definition zoom :: "('t \<Rightarrow> 's) \<Rightarrow> ('s \<Rightarrow> 't \<Rightarrow> 't) \<Rightarrow> ('s, 'a) prog \<Rightarrow> ('t, 'a) prog" where
  "zoom get put m = (\<lambda>t. case m (get t) of Inl f \<Rightarrow> Inl f | Inr (x, s) \<Rightarrow> Inr (x, put s t))"

lemma zoom_run [simp]: "m (get t) = Inr (x, s) \<Longrightarrow> zoom get put m t = Inr (x, put s t)"
  by (simp add: zoom_def)

lemma zoom_eq_Inr: "zoom get put m t = Inr (x, t') \<longleftrightarrow> (\<exists>s. m (get t) = Inr (x, s) \<and> t' = put s t)"
  by (auto simp: zoom_def split: sum.splits)

subsection \<open>Steps that keep an invariant\<close>

text \<open>
  The interface between a component's primitive operations and its handlers: an invariant
  \<open>I\<close> of the state and a preorder \<open>G\<close> of what a step may only let grow (objects that are
  never freed, counters). \<open>ok m s\<close> says that a faultless run of \<open>m\<close> from \<open>s\<close> keeps \<open>I\<close> and
  respects \<open>G\<close>; it composes along the program combinators.
\<close>

locale safe_steps =
  fixes I :: "'s \<Rightarrow> bool" and G :: "'s \<Rightarrow> 's \<Rightarrow> bool"
  assumes G_refl: "G s s"
    and G_trans: "G s t \<Longrightarrow> G t u \<Longrightarrow> G s u"
begin

definition ok :: "('s, 'a) prog \<Rightarrow> 's \<Rightarrow> bool" where
  "ok m s \<longleftrightarrow> (I s \<longrightarrow> (\<forall>x s'. m s = Inr (x, s') \<longrightarrow> I s' \<and> G s s'))"

lemma okI: "(\<And>x s'. I s \<Longrightarrow> m s = Inr (x, s') \<Longrightarrow> I s' \<and> G s s') \<Longrightarrow> ok m s"
  by (simp add: ok_def)

lemma okD: "ok m s \<Longrightarrow> I s \<Longrightarrow> m s = Inr (x, s') \<Longrightarrow> I s' \<and> G s s'"
  by (simp add: ok_def)

lemma ok_run: "m s = Inr (x, t) \<Longrightarrow> (I s \<Longrightarrow> I t \<and> G s t) \<Longrightarrow> ok m s"
  by (simp add: ok_def)

lemma ok_ret: "ok (ret x) s"
  by (simp add: ok_def G_refl)

lemma ok_fail: "ok (fail f) s"
  by (simp add: ok_def)

lemma ok_gets: "ok (gets f) s"
  by (simp add: ok_def G_refl)

lemma ok_require: "ok (require f b) s"
  by (simp add: ok_def G_refl)

lemma ok_modify: "(I s \<Longrightarrow> I (f s) \<and> G s (f s)) \<Longrightarrow> ok (modify f) s"
  by (simp add: ok_def)

lemma ok_andThen:
  assumes "ok m s"
    and "\<And>x s'. I s \<Longrightarrow> m s = Inr (x, s') \<Longrightarrow> I s' \<Longrightarrow> G s s' \<Longrightarrow> ok (k x) s'"
  shows "ok (andThen m k) s"
proof (rule okI)
  fix y t
  assume "I s" and "andThen m k s = Inr (y, t)"
  then obtain x s' where m: "m s = Inr (x, s')" and k: "k x s' = Inr (y, t)"
    by (elim andThen_eq_InrE)
  from okD [OF assms(1) \<open>I s\<close> m] have s': "I s'" "G s s'"
    by auto
  from okD [OF assms(2) [OF \<open>I s\<close> m s'] s'(1) k] s'(2) show "I t \<and> G s t"
    by (blast intro: G_trans)
qed

lemma faultless_then:
  assumes "I s" "faultless m s" "ok m s"
    and "\<And>x s'. m s = Inr (x, s') \<Longrightarrow> I s' \<Longrightarrow> G s s' \<Longrightarrow> faultless (k x) s'"
  shows "faultless (andThen m k) s"
  using assms(1,2,4) okD [OF assms(3,1)] by (blast intro: faultless_andThen)

lemma ok_if: "(b \<Longrightarrow> ok m s) \<Longrightarrow> (\<not> b \<Longrightarrow> ok n s) \<Longrightarrow> ok (if b then m else n) s"
  by simp

lemma ok_foreach:
  assumes "\<And>x s. x \<in> set xs \<Longrightarrow> ok (f x) s"
  shows "ok (foreach xs f) s"
  using assms
proof (induction xs arbitrary: s)
  case Nil
  show ?case by (simp add: ok_def G_refl)
next
  case (Cons a xs)
  then show ?case by (auto intro!: ok_andThen)
qed

lemmas ok_intros = ok_ret ok_fail ok_gets ok_require ok_if

end

subsection \<open>Integers in memory\<close>

text \<open>
  The sources run on x86-64 and read and write integers through casts, that is in
  little-endian order. \<open>to_le n x\<close> is the \<open>n\<close>-byte image of \<open>x\<close>.
\<close>

fun to_le :: "nat \<Rightarrow> nat \<Rightarrow> bytes" where
  "to_le 0 x = []"
| "to_le (Suc n) x = word_of_nat (x mod 256) # to_le n (x div 256)"

fun from_le :: "bytes \<Rightarrow> nat" where
  "from_le [] = 0"
| "from_le (b # bs) = unat b + 256 * from_le bs"

lemma length_to_le [simp]: "length (to_le n x) = n"
  by (induction n arbitrary: x) auto

lemma unat_word_of_nat_mod8 [simp]: "unat (word_of_nat (x mod 256) :: u8) = x mod 256"
  by (simp add: unat_of_nat)

lemma from_le_to_le: "from_le (to_le n x) = x mod 256 ^ n"
proof (induction n arbitrary: x)
  case 0
  show ?case by simp
next
  case (Suc n)
  have "x mod (256 * 256 ^ n) = 256 * (x div 256 mod 256 ^ n) + x mod 256"
    by (rule mod_mult2_eq)
  with Suc show ?case by simp
qed

lemma unat_byte_less [simp]: "unat (b :: u8) < 256"
  using unsigned_less [of b, where ?'a = nat] by simp

lemma from_le_less: "from_le bs < 256 ^ length bs"
proof (induction bs)
  case Nil
  show ?case by simp
next
  case (Cons b bs)
  then have "from_le bs + 1 \<le> 256 ^ length bs"
    by simp
  then have "256 * (from_le bs + 1) \<le> 256 * 256 ^ length bs"
    by (rule mult_le_mono2)
  with unat_byte_less [of b] show ?case by (simp del: unat_byte_less)
qed

lemma to_le_from_le: "to_le (length bs) (from_le bs) = bs"
proof (induction bs)
  case Nil
  show ?case by simp
next
  case (Cons b bs)
  have "(unat b + 256 * from_le bs) mod 256 = unat b"
    and "(unat b + 256 * from_le bs) div 256 = from_le bs"
    using unat_byte_less [of b] by auto
  with Cons show ?case by simp
qed

lemma to_le_eval: "to_le (numeral k) n = word_of_nat (n mod 256) # to_le (pred_numeral k) (n div 256)"
  by (simp add: numeral_eq_Suc [of k])

text \<open>Fields of the four unsigned widths, as they are stored and loaded.\<close>

definition st16 :: "u16 \<Rightarrow> bytes" where "st16 w = to_le 2 (unat w)"
definition st32 :: "u32 \<Rightarrow> bytes" where "st32 w = to_le 4 (unat w)"
definition st64 :: "u64 \<Rightarrow> bytes" where "st64 w = to_le 8 (unat w)"

definition ld8 :: "bytes \<Rightarrow> nat \<Rightarrow> u8" where "ld8 m i = m ! i"
definition ld16 :: "bytes \<Rightarrow> nat \<Rightarrow> u16" where "ld16 m i = word_of_nat (from_le (take 2 (drop i m)))"
definition ld32 :: "bytes \<Rightarrow> nat \<Rightarrow> u32" where "ld32 m i = word_of_nat (from_le (take 4 (drop i m)))"
definition ld64 :: "bytes \<Rightarrow> nat \<Rightarrow> u64" where "ld64 m i = word_of_nat (from_le (take 8 (drop i m)))"
definition ldn :: "bytes \<Rightarrow> nat \<Rightarrow> nat \<Rightarrow> bytes" where "ldn m i n = take n (drop i m)"

lemma length_st [simp]:
  "length (st16 a) = 2" "length (st32 b) = 4" "length (st64 c) = 8"
  by (simp_all add: st16_def st32_def st64_def)

lemma unat_mod_len [simp]:
  "unat (a :: u16) mod 65536 = unat a"
  "unat (b :: u32) mod 4294967296 = unat b"
  "unat (c :: u64) mod 18446744073709551616 = unat c"
  using unsigned_less [of a, where ?'a = nat] unsigned_less [of b, where ?'a = nat]
    unsigned_less [of c, where ?'a = nat] by simp_all

lemma ld_st [codec_simps]:
  "length p = i \<Longrightarrow> ld16 (p @ st16 a @ q) i = a"
  "length p = i \<Longrightarrow> ld32 (p @ st32 b @ q) i = b"
  "length p = i \<Longrightarrow> ld64 (p @ st64 c @ q) i = c"
  "length p = i \<Longrightarrow> length v = n \<Longrightarrow> ldn (p @ v @ q) i n = v"
  by (simp_all add: ld16_def ld32_def ld64_def ldn_def st16_def st32_def st64_def from_le_to_le)

lemma mod_shift_inj:
  assumes "i < P" "j < P" "(a + i) mod P = (a + j) mod (P :: nat)"
  shows "i = j"
  using assms
proof (induction i j rule: linorder_wlog)
  case (le i j)
  then have "P dvd (a + j) - (a + i)"
    using mod_eq_dvd_iff_nat [of "a + i" "a + j" P] by simp
  moreover have "j - i < P" using le by simp
  ultimately have "j - i = 0" using nat_dvd_not_less [of "j - i" P] by auto
  with le show ?case by simp
qed simp

lemma unat_add_one: "x \<noteq> - 1 \<Longrightarrow> unat (x + 1) = unat x + 1"
  for x :: "'a::len word"
  using unatSuc [of x] by (metis Suc_eq_plus1 add.commute add_eq_0_iff)

lemma less_add_one_word: "x \<noteq> - 1 \<Longrightarrow> i \<le> x \<Longrightarrow> i < x + 1"
  for x :: "'a::len word"
  by (simp add: word_less_nat_alt word_le_nat_alt unat_add_one)

text \<open>\<^verbatim>\<open>htons\<close> and \<^verbatim>\<open>ntohs\<close> swap the two bytes; \<^verbatim>\<open>htonl\<close> and \<^verbatim>\<open>ntohl\<close> reverse the four.\<close>

definition htons :: "u16 \<Rightarrow> u16" where
  "htons w = word_of_nat (from_le (rev (to_le 2 (unat w))))"

definition htonl :: "u32 \<Rightarrow> u32" where
  "htonl w = word_of_nat (from_le (rev (to_le 4 (unat w))))"

lemma from_le_less_len:
  "length bs = 2 \<Longrightarrow> from_le bs < 65536" "length bs = 4 \<Longrightarrow> from_le bs < 4294967296"
  using from_le_less [of bs] by auto

lemma to_le_unat_from_le:
  "length bs = 2 \<Longrightarrow> to_le 2 (unat (word_of_nat (from_le bs) :: u16)) = bs"
  "length bs = 4 \<Longrightarrow> to_le 4 (unat (word_of_nat (from_le bs) :: u32)) = bs"
  using from_le_less_len [of bs] to_le_from_le [of bs]
  by (auto simp: unat_of_nat)

lemma htons_htons [simp]: "htons (htons w) = w"
  by (simp add: htons_def to_le_unat_from_le from_le_to_le)

lemma htonl_htonl [simp]: "htonl (htonl w) = w"
  by (simp add: htonl_def to_le_unat_from_le from_le_to_le)

lemma andThen_cong [fundef_cong]:
  assumes "m s = m' s'" and "\<And>x t. m' s' = Inr (x, t) \<Longrightarrow> k x t = k' x t"
  shows "andThen m k s = andThen m' k' s'"
  using assms by (auto simp: andThen_def split: sum.splits)

subsection \<open>Byte strings\<close>

text \<open>
  \<^verbatim>\<open>strlen\<close> counts up to the first NUL; the program reads past the object when there
  is none, which the callers turn into a fault.
\<close>

definition c_strlen :: "bytes \<Rightarrow> nat" where
  "c_strlen m = length (takeWhile (\<lambda>b. b \<noteq> 0) m)"

definition c_str :: "bytes \<Rightarrow> bytes" where
  "c_str m = takeWhile (\<lambda>b. b \<noteq> 0) m"

text \<open>Characters of the sources' string literals as bytes.\<close>

definition ascii :: "string \<Rightarrow> bytes" where
  "ascii cs = map (\<lambda>c. word_of_nat (of_char c)) cs"

lemma length_ascii [simp]: "length (ascii cs) = length cs"
  by (simp add: ascii_def)

text \<open>Overwriting a stretch of an array in place (\<^verbatim>\<open>memcpy\<close> into an array).\<close>

definition blit :: "bytes \<Rightarrow> nat \<Rightarrow> bytes \<Rightarrow> bytes" where
  "blit m i bs = take i m @ bs @ drop (i + length bs) m"

lemma length_blit [simp]: "i + length bs \<le> length m \<Longrightarrow> length (blit m i bs) = length m"
  by (simp add: blit_def)

lemma take_blit [simp]: "i + length bs \<le> length m \<Longrightarrow> take (i + length bs) (blit m i bs) = take i m @ bs"
  by (simp add: blit_def)

lemma blit_Nil [simp]: "blit m i [] = m"
  by (simp add: blit_def)

lemma blit_append: "blit (blit m i as) (i + length as) bs = blit m i (as @ bs)"
  by (cases "i \<le> length m") (simp_all add: blit_def ac_simps)

lemma blit_0: "blit m 0 bs = bs @ drop (length bs) m"
  by (simp add: blit_def)

end
