(* ===== verification/Os.thy ===== *)
theory Os
  imports Prelude
begin

text \<open>
  The operating system as the programs see it. The answers of system calls are not part
  of the sources: the state carries streams of answers (\<open>os_ret\<close>, \<open>os_errno\<close>, \<open>os_clock\<close>
  and so on), the \<open>n\<close>-th call takes the \<open>n\<close>-th answer, and nothing is assumed of an
  answer beyond the range its documentation gives. What the program does to the outside
  is appended to \<open>os_log\<close>. The state of each program extends \<open>os\<close>.
\<close>

datatype report_kind = PlainReport | LocalReport | TrReport

datatype event =
    Send u64 bytes int
  | CloseFd u64
  | ShutdownFd u64
  | EpollAdd u64 u64
  | EpollDel u64
  | EpollMod u64 u64
  | ConnectTo u64 u32 u16
  | ReportLine report_kind u64 u64 u64 timeval timeval bytes

record os =
  os_ret :: "nat \<Rightarrow> int"
  os_errno :: "nat \<Rightarrow> int"
  os_clock :: "nat \<Rightarrow> timeval"
  os_peer :: "nat \<Rightarrow> (u32 \<times> u16) option"
  os_junk :: "nat \<Rightarrow> bytes"
  os_inet_addr :: "bytes \<Rightarrow> u32"
  os_tick :: nat
  os_log :: "event list"

definition tick :: "('a os_scheme, nat) prog" where
  "tick = (\<lambda>s. Inr (os_tick s, s\<lparr>os_tick := Suc (os_tick s)\<rparr>))"

definition emit :: "event \<Rightarrow> ('a os_scheme, unit) prog" where
  "emit e = modify (os_log_update (\<lambda>l. l @ [e]))"

text \<open>The next answer, clipped to the documented range of the call.\<close>

definition answer :: "int \<Rightarrow> int \<Rightarrow> ('a os_scheme, int) prog" where
  "answer lo hi = andThen tick (\<lambda>n. gets (\<lambda>s. max lo (min hi (os_ret s n))))"

text \<open>\<^verbatim>\<open>send\<close> returns -1 or the number of bytes taken.\<close>

definition sys_send :: "u64 \<Rightarrow> bytes \<Rightarrow> ('a os_scheme, int) prog" where
  "sys_send fd bs =
     andThen (answer (- 1) (int (length bs))) (\<lambda>r.
     andThen (emit (Send fd bs r)) (\<lambda>_. ret r))"

definition sys_close :: "u64 \<Rightarrow> ('a os_scheme, unit) prog" where
  "sys_close fd = emit (CloseFd fd)"

definition sys_shutdown :: "u64 \<Rightarrow> ('a os_scheme, unit) prog" where
  "sys_shutdown fd = emit (ShutdownFd fd)"

text \<open>\<^verbatim>\<open>socket\<close> and \<^verbatim>\<open>accept\<close> return -1 or a descriptor; \<^verbatim>\<open>connect\<close> and \<^verbatim>\<open>epoll_ctl\<close> return
  0 or -1.\<close>

definition sys_fd :: "('a os_scheme, int) prog" where
  "sys_fd = answer (- 1) (2 ^ 31 - 1)"

definition sys_connect :: "u64 \<Rightarrow> u32 \<Rightarrow> u16 \<Rightarrow> ('a os_scheme, int) prog" where
  "sys_connect fd ip port = andThen (emit (ConnectTo fd ip port)) (\<lambda>_. answer (- 1) 0)"

definition sys_epoll :: "event \<Rightarrow> ('a os_scheme, int) prog" where
  "sys_epoll e = andThen (emit e) (\<lambda>_. answer (- 1) 0)"

definition gettimeofday :: "('a os_scheme, timeval) prog" where
  "gettimeofday = andThen tick (\<lambda>n. gets (\<lambda>s. os_clock s n))"

definition getpeername :: "('a os_scheme, (u32 \<times> u16) option) prog" where
  "getpeername = andThen tick (\<lambda>n. gets (\<lambda>s. os_peer s n))"

definition get_errno :: "('a os_scheme, int) prog" where
  "get_errno = gets (\<lambda>s. os_errno s (os_tick s))"

definition sys_random :: "('a os_scheme, u32) prog" where
  "sys_random = andThen (answer 0 (2 ^ 31 - 1)) (\<lambda>r. ret (word_of_int r))"

abbreviation (input) EINTR :: int where "EINTR \<equiv> 4"
abbreviation (input) EAGAIN :: int where "EAGAIN \<equiv> 11"
abbreviation (input) EINPROGRESS :: int where "EINPROGRESS \<equiv> 115"
abbreviation (input) EPOLLIN :: u64 where "EPOLLIN \<equiv> 0x001"
abbreviation (input) EPOLLOUT :: u64 where "EPOLLOUT \<equiv> 0x004"
abbreviation (input) EPOLLERR :: u64 where "EPOLLERR \<equiv> 0x008"
abbreviation (input) EPOLLET :: u64 where "EPOLLET \<equiv> 0x80000000"

lemmas sys_defs = tick_def emit_def answer_def sys_send_def sys_close_def sys_shutdown_def
  sys_fd_def sys_connect_def sys_epoll_def gettimeofday_def getpeername_def get_errno_def
  sys_random_def

text \<open>A system call changes nothing but the call counter and the log.\<close>

definition same_but_os :: "'a os_scheme \<Rightarrow> 'a os_scheme \<Rightarrow> bool" where
  "same_but_os s t \<longleftrightarrow> (\<exists>n l. t = s\<lparr>os_tick := n, os_log := os_log s @ l\<rparr>)"

lemma same_but_os_refl [simp]: "same_but_os s s"
  unfolding same_but_os_def by (rule exI [of _ "os_tick s"], rule exI [of _ "[]"]) simp

lemma tick_run [simp]: "tick s = Inr (os_tick s, s\<lparr>os_tick := Suc (os_tick s)\<rparr>)"
  by (simp add: tick_def)

lemma emit_run [simp]: "emit e s = Inr ((), s\<lparr>os_log := os_log s @ [e]\<rparr>)"
  by (simp add: emit_def)

lemma answer_run [simp]:
  "answer lo hi s = Inr (max lo (min hi (os_ret s (os_tick s))), s\<lparr>os_tick := Suc (os_tick s)\<rparr>)"
  by (simp add: answer_def)

lemma gettimeofday_run [simp]:
  "gettimeofday s = Inr (os_clock s (os_tick s), s\<lparr>os_tick := Suc (os_tick s)\<rparr>)"
  by (simp add: gettimeofday_def)

lemma getpeername_run [simp]:
  "getpeername s = Inr (os_peer s (os_tick s), s\<lparr>os_tick := Suc (os_tick s)\<rparr>)"
  by (simp add: getpeername_def)

text \<open>How many bytes the next \<^verbatim>\<open>send\<close> takes.\<close>

definition send_result :: "'a os_scheme \<Rightarrow> bytes \<Rightarrow> int" where
  "send_result s bs = max (- 1) (min (int (length bs)) (os_ret s (os_tick s)))"

lemma send_result_bounds: "- 1 \<le> send_result s bs" "send_result s bs \<le> int (length bs)"
  by (auto simp: send_result_def)

lemma sys_send_run [simp]:
  "sys_send fd bs s =
     Inr (send_result s bs, s\<lparr>os_tick := Suc (os_tick s), os_log := os_log s @ [Send fd bs (send_result s bs)]\<rparr>)"
  by (simp add: sys_send_def send_result_def)

lemma sys_close_run [simp]: "sys_close fd s = Inr ((), s\<lparr>os_log := os_log s @ [CloseFd fd]\<rparr>)"
  by (simp add: sys_close_def)

lemma sys_shutdown_run [simp]: "sys_shutdown fd s = Inr ((), s\<lparr>os_log := os_log s @ [ShutdownFd fd]\<rparr>)"
  by (simp add: sys_shutdown_def)

definition next_ret :: "'a os_scheme \<Rightarrow> int \<Rightarrow> int \<Rightarrow> int" where
  "next_ret s lo hi = max lo (min hi (os_ret s (os_tick s)))"

lemma sys_fd_run [simp]:
  "sys_fd s = Inr (next_ret s (- 1) (2 ^ 31 - 1), s\<lparr>os_tick := Suc (os_tick s)\<rparr>)"
  by (simp add: sys_fd_def next_ret_def)

lemma sys_connect_run [simp]:
  "sys_connect fd ip port s =
     Inr (next_ret s (- 1) 0, s\<lparr>os_tick := Suc (os_tick s), os_log := os_log s @ [ConnectTo fd ip port]\<rparr>)"
  by (simp add: sys_connect_def next_ret_def)

lemma sys_epoll_run [simp]:
  "sys_epoll e s =
     Inr (next_ret s (- 1) 0, s\<lparr>os_tick := Suc (os_tick s), os_log := os_log s @ [e]\<rparr>)"
  by (simp add: sys_epoll_def next_ret_def)

lemma get_errno_run [simp]: "get_errno s = Inr (os_errno s (os_tick s), s)"
  by (simp add: get_errno_def)

lemma sys_random_run [simp]:
  "sys_random s = Inr (word_of_int (next_ret s 0 (2 ^ 31 - 1)), s\<lparr>os_tick := Suc (os_tick s)\<rparr>)"
  by (simp add: sys_random_def next_ret_def)

text \<open>What does not read the call counter and the log is the same after a system call.\<close>

lemma keeps_sys:
  assumes "\<And>s n. obs (s\<lparr>os_tick := n\<rparr>) = obs s" "\<And>s l. obs (s\<lparr>os_log := l\<rparr>) = obs s"
  shows "keeps obs tick" "keeps obs (emit e)" "keeps obs (answer lo hi)" "keeps obs (sys_send fd bs)"
    "keeps obs (sys_close fd)" "keeps obs (sys_shutdown fd)" "keeps obs sys_fd"
    "keeps obs (sys_connect fd ip port)" "keeps obs (sys_epoll e)" "keeps obs gettimeofday"
    "keeps obs getpeername" "keeps obs get_errno" "keeps obs sys_random"
  using assms by (auto simp: keeps_def)

text \<open>
  Input of a socket: a list of chunks. \<open>read_chunk n cs\<close> is \<^verbatim>\<open>read(fd, p, n)\<close>: up to \<open>n\<close>
  bytes of the first chunk; an empty first chunk is the end of the stream and an empty list
  is a read that would block (or another error), so the value of the call is the number of
  bytes, 0 or -1. A read of zero bytes returns 0.
\<close>

definition read_chunk :: "nat \<Rightarrow> bytes list \<Rightarrow> bytes \<times> bytes list" where
  "read_chunk n cs =
     (case cs of
        [] \<Rightarrow> ([], [])
      | c # cs' \<Rightarrow> (take n c, if length c \<le> n \<and> 0 < n then cs' else drop n c # cs'))"

definition read_ret :: "nat \<Rightarrow> bytes list \<Rightarrow> int" where
  "read_ret n cs =
     (if n = 0 then 0 else case cs of [] \<Rightarrow> - 1 | c # _ \<Rightarrow> int (length (take n c)))"

definition unread :: "bytes list \<Rightarrow> nat" where
  "unread cs = length cs + sum_list (map length cs)"

lemma read_chunk_decreases:
  "fst (read_chunk n cs) \<noteq> [] \<Longrightarrow> unread (snd (read_chunk n cs)) < unread cs"
  by (auto simp: read_chunk_def unread_def split: list.splits)

lemma read_chunk_length: "length (fst (read_chunk n cs)) \<le> n"
  by (auto simp: read_chunk_def split: list.splits)

lemma read_chunk_concat: "fst (read_chunk n cs) @ concat (snd (read_chunk n cs)) = concat cs"
  by (auto simp: read_chunk_def split: list.splits)

lemma read_ret_pos: "0 < read_ret n cs \<longleftrightarrow> fst (read_chunk n cs) \<noteq> []"
  by (auto simp: read_ret_def read_chunk_def split: list.splits)

end
