(* ===== verification/Wire.thy ===== *)
theory Wire
  imports Prelude
begin

text \<open>
  The messages of the tunnel protocol (\<^verbatim>\<open>TMSMessage.h\<close>, repeated in the SDK's
  \<^verbatim>\<open>YMEMessage.h\<close>): the packet header, the message and response codes, and the packed
  structs. The programs send the memory image of a struct and cast received bytes back to
  the struct, so a message is modelled as a record together with its image (\<open>enc_\<close>) and
  the reading of its fields at their packed offsets (\<open>dec_\<close>).
\<close>

subsection \<open>Codes\<close>

abbreviation (input) VALIDATER0 :: u8 where "VALIDATER0 \<equiv> 0x86"
abbreviation (input) VALIDATER1 :: u8 where "VALIDATER1 \<equiv> 0x68"

abbreviation (input) LOGIN_REQ :: u16 where "LOGIN_REQ \<equiv> 1"
abbreviation (input) LOGIN_RSP :: u16 where "LOGIN_RSP \<equiv> 2"
abbreviation (input) CONNECT_HOST_REQ :: u16 where "CONNECT_HOST_REQ \<equiv> 3"
abbreviation (input) CONNECT_HOST_RSP :: u16 where "CONNECT_HOST_RSP \<equiv> 4"
abbreviation (input) BEGIN_TRANSMIT :: u16 where "BEGIN_TRANSMIT \<equiv> 5"
abbreviation (input) READ_TOKEN_REQ :: u16 where "READ_TOKEN_REQ \<equiv> 7"
abbreviation (input) READ_TOKEN_RSP :: u16 where "READ_TOKEN_RSP \<equiv> 8"
abbreviation (input) TRAFFIC_REPORT :: u16 where "TRAFFIC_REPORT \<equiv> 9"
abbreviation (input) TRAFFIC_REPORT_RSP :: u16 where "TRAFFIC_REPORT_RSP \<equiv> 10"
abbreviation (input) KEEP_ALIVE_TOKEN :: u16 where "KEEP_ALIVE_TOKEN \<equiv> 11"
abbreviation (input) SYN_USER_TUPLE :: u16 where "SYN_USER_TUPLE \<equiv> 12"

abbreviation (input) RC_SUCC :: u16 where "RC_SUCC \<equiv> 0"
abbreviation (input) RC_READY :: u16 where "RC_READY \<equiv> 0"
abbreviation (input) RC_PROG :: u16 where "RC_PROG \<equiv> 1"
abbreviation (input) USER_NOT_EXIST :: u16 where "USER_NOT_EXIST \<equiv> 2"
abbreviation (input) NO_BALANCE :: u16 where "NO_BALANCE \<equiv> 3"
abbreviation (input) PARAMET_ERR :: u16 where "PARAMET_ERR \<equiv> 4"
abbreviation (input) TOKEN_VERIFIED :: u16 where "TOKEN_VERIFIED \<equiv> 5"
abbreviation (input) INCORRECT_TOKEN :: u16 where "INCORRECT_TOKEN \<equiv> 6"
abbreviation (input) AGENT_ESTASBLISHED :: u16 where "AGENT_ESTASBLISHED \<equiv> 7"
abbreviation (input) AGENT_NOT_CONNECTED :: u16 where "AGENT_NOT_CONNECTED \<equiv> 8"
abbreviation (input) HOST_NOT_EXIST :: u16 where "HOST_NOT_EXIST \<equiv> 9"
abbreviation (input) RC_FAIL :: u16 where "RC_FAIL \<equiv> 0xFFFF"

subsection \<open>Header\<close>

record hdr_t =
  delim0 :: u8
  delim1 :: u8
  hlen :: u16
  hcid :: u16

definition hdr_init :: hdr_t where
  "hdr_init = \<lparr>delim0 = VALIDATER0, delim1 = VALIDATER1, hlen = 0, hcid = 0\<rparr>"

abbreviation (input) sizeof_hdr :: nat where "sizeof_hdr \<equiv> 6"

definition enc_hdr :: "hdr_t \<Rightarrow> bytes" where
  "enc_hdr h = [delim0 h, delim1 h] @ st16 (hlen h) @ st16 (hcid h)"

definition dec_hdr :: "bytes \<Rightarrow> hdr_t" where
  "dec_hdr m = \<lparr>delim0 = ld8 m 0, delim1 = ld8 m 1, hlen = ld16 m 2, hcid = ld16 m 4\<rparr>"

text \<open>\<open>frame msg\<close> is what \<^verbatim>\<open>SendTmsMsg\<close> puts on the wire: a header whose length field is
  in network order, then the message. The length is truncated to 16 bits.\<close>

definition frame :: "bytes \<Rightarrow> bytes" where
  "frame msg = enc_hdr (hdr_init\<lparr>hlen := htons (word_of_nat (length msg))\<rparr>) @ msg"

subsection \<open>Messages\<close>

record LoginReq =
  lq_app :: u64
  lq_mobile :: u64
  lq_token :: bytes
  lq_port :: u16
  lq_host_len :: u16

text \<open>The fixed part of the message; \<^verbatim>\<open>host\<close> is a flexible array at offset 54.\<close>

abbreviation (input) LoginReq_host :: nat where "LoginReq_host \<equiv> 54"

definition enc_LoginReq :: "LoginReq \<Rightarrow> bytes \<Rightarrow> bytes" where
  "enc_LoginReq r host = st16 LOGIN_REQ @ st64 (lq_app r) @ st64 (lq_mobile r) @ lq_token r
     @ st16 (lq_port r) @ st16 (lq_host_len r) @ host"

definition dec_LoginReq :: "bytes \<Rightarrow> LoginReq" where
  "dec_LoginReq m = \<lparr>lq_app = ld64 m 2, lq_mobile = ld64 m 10, lq_token = ldn m 18 32,
     lq_port = ld16 m 50, lq_host_len = ld16 m 52\<rparr>"

record LoginRsp =
  lp_rsp_code :: u16
  lp_avalable_traffic :: u64
  lp_forward_id :: u64

definition LoginRsp_init :: LoginRsp where
  "LoginRsp_init = \<lparr>lp_rsp_code = 0, lp_avalable_traffic = 0, lp_forward_id = 0\<rparr>"

definition enc_LoginRsp :: "LoginRsp \<Rightarrow> bytes" where
  "enc_LoginRsp r = st16 LOGIN_RSP @ st16 (lp_rsp_code r) @ st64 (lp_avalable_traffic r)
     @ st64 (lp_forward_id r)"

definition dec_LoginRsp :: "bytes \<Rightarrow> LoginRsp" where
  "dec_LoginRsp m = \<lparr>lp_rsp_code = ld16 m 2, lp_avalable_traffic = ld64 m 4, lp_forward_id = ld64 m 12\<rparr>"

record ConnectHostRsp =
  hp_rsp_code :: u16
  hp_forward_id :: u32

definition enc_ConnectHostRsp :: "ConnectHostRsp \<Rightarrow> bytes" where
  "enc_ConnectHostRsp r = st16 CONNECT_HOST_RSP @ st16 (hp_rsp_code r) @ st32 (hp_forward_id r)"

definition dec_ConnectHostRsp :: "bytes \<Rightarrow> ConnectHostRsp" where
  "dec_ConnectHostRsp m = \<lparr>hp_rsp_code = ld16 m 2, hp_forward_id = ld32 m 4\<rparr>"

record BeginTransmit =
  bt_forward_id :: u32

definition enc_BeginTransmit :: "BeginTransmit \<Rightarrow> bytes" where
  "enc_BeginTransmit r = st16 BEGIN_TRANSMIT @ st32 (bt_forward_id r)"

definition dec_BeginTransmit :: "bytes \<Rightarrow> BeginTransmit" where
  "dec_BeginTransmit m = \<lparr>bt_forward_id = ld32 m 2\<rparr>"

record ReadTokenReq =
  tq_cid :: u64
  tq_app :: u64
  tq_mobile :: u64
  tq_token :: bytes

definition enc_ReadTokenReq :: "ReadTokenReq \<Rightarrow> bytes" where
  "enc_ReadTokenReq r = st16 READ_TOKEN_REQ @ st64 (tq_cid r) @ st64 (tq_app r) @ st64 (tq_mobile r)
     @ tq_token r"

definition dec_ReadTokenReq :: "bytes \<Rightarrow> ReadTokenReq" where
  "dec_ReadTokenReq m = \<lparr>tq_cid = ld64 m 2, tq_app = ld64 m 10, tq_mobile = ld64 m 18,
     tq_token = ldn m 26 32\<rparr>"

record ReadTokenRsp =
  tp_rsp_code :: u16
  tp_cid :: u64
  tp_app :: u64
  tp_mobile :: u64
  tp_balance :: u64
  tp_token :: bytes

definition enc_ReadTokenRsp :: "ReadTokenRsp \<Rightarrow> bytes" where
  "enc_ReadTokenRsp r = st16 READ_TOKEN_RSP @ st16 (tp_rsp_code r) @ st64 (tp_cid r) @ st64 (tp_app r)
     @ st64 (tp_mobile r) @ st64 (tp_balance r) @ tp_token r"

definition dec_ReadTokenRsp :: "bytes \<Rightarrow> ReadTokenRsp" where
  "dec_ReadTokenRsp m = \<lparr>tp_rsp_code = ld16 m 2, tp_cid = ld64 m 4, tp_app = ld64 m 12,
     tp_mobile = ld64 m 20, tp_balance = ld64 m 28, tp_token = ldn m 36 32\<rparr>"

record SynUserTuple =
  su_app :: u64
  su_mobile :: u64
  su_src_ip_be :: u32
  su_src_port_be :: u16

definition enc_SynUserTuple :: "SynUserTuple \<Rightarrow> bytes" where
  "enc_SynUserTuple r = st16 SYN_USER_TUPLE @ st64 (su_app r) @ st64 (su_mobile r)
     @ st32 (su_src_ip_be r) @ st16 (su_src_port_be r)"

definition dec_SynUserTuple :: "bytes \<Rightarrow> SynUserTuple" where
  "dec_SynUserTuple m = \<lparr>su_app = ld64 m 2, su_mobile = ld64 m 10, su_src_ip_be = ld32 m 18,
     su_src_port_be = ld16 m 22\<rparr>"

record TrafficReport =
  tr_app :: u64
  tr_mobile :: u64
  tr_traffic :: u64
  tr_btime :: timeval
  tr_etime :: timeval
  tr_ip :: u32
  tr_hlen :: u8
  tr_host :: bytes

definition st_timeval :: "timeval \<Rightarrow> bytes" where
  "st_timeval t = st64 (fst t) @ st64 (snd t)"

definition ld_timeval :: "bytes \<Rightarrow> nat \<Rightarrow> timeval" where
  "ld_timeval m i = (ld64 m i, ld64 m (i + 8))"

definition TrafficReport_init :: TrafficReport where
  "TrafficReport_init = \<lparr>tr_app = 0, tr_mobile = 0, tr_traffic = 0, tr_btime = (0, 0), tr_etime = (0, 0),
     tr_ip = 0, tr_hlen = 0, tr_host = replicate 256 0\<rparr>"

definition enc_TrafficReport :: "TrafficReport \<Rightarrow> bytes" where
  "enc_TrafficReport r = st16 TRAFFIC_REPORT @ st64 (tr_app r) @ st64 (tr_mobile r) @ st64 (tr_traffic r)
     @ st_timeval (tr_btime r) @ st_timeval (tr_etime r) @ st32 (tr_ip r) @ [tr_hlen r] @ tr_host r"

definition dec_TrafficReport :: "bytes \<Rightarrow> TrafficReport" where
  "dec_TrafficReport m = \<lparr>tr_app = ld64 m 2, tr_mobile = ld64 m 10, tr_traffic = ld64 m 18,
     tr_btime = ld_timeval m 26, tr_etime = ld_timeval m 42, tr_ip = ld32 m 58, tr_hlen = ld8 m 62,
     tr_host = ldn m 63 256\<rparr>"

record TrafficReportRsp =
  tx_app :: u64
  tx_mobile :: u64
  tx_traffic :: u64
  tx_ip :: u32
  tx_rsp_code :: u8

definition enc_TrafficReportRsp :: "TrafficReportRsp \<Rightarrow> bytes" where
  "enc_TrafficReportRsp r = st16 TRAFFIC_REPORT_RSP @ st64 (tx_app r) @ st64 (tx_mobile r)
     @ st64 (tx_traffic r) @ st32 (tx_ip r) @ [tx_rsp_code r]"

definition dec_TrafficReportRsp :: "bytes \<Rightarrow> TrafficReportRsp" where
  "dec_TrafficReportRsp m = \<lparr>tx_app = ld64 m 2, tx_mobile = ld64 m 10, tx_traffic = ld64 m 18,
     tx_ip = ld32 m 26, tx_rsp_code = ld8 m 30\<rparr>"

record KeepAliveToken =
  ka_app :: "u64 list"
  ka_mobile :: "u64 list"

definition enc_KeepAliveToken :: "KeepAliveToken \<Rightarrow> bytes" where
  "enc_KeepAliveToken r = st16 KEEP_ALIVE_TOKEN @ concat (map st64 (ka_app r)) @ concat (map st64 (ka_mobile r))"

definition dec_KeepAliveToken :: "bytes \<Rightarrow> KeepAliveToken" where
  "dec_KeepAliveToken m = \<lparr>ka_app = map (\<lambda>i. ld64 m (2 + 8 * i)) [0..<16],
     ka_mobile = map (\<lambda>i. ld64 m (130 + 8 * i)) [0..<16]\<rparr>"

definition msg_id :: "bytes \<Rightarrow> u16" where
  "msg_id m = ld16 m 0"

subsection \<open>Layout lemmas\<close>

lemma from_le_st [simp]:
  "from_le (st16 a) = unat a" "from_le (st32 b) = unat b" "from_le (st64 c) = unat c"
  by (simp_all add: st16_def st32_def st64_def from_le_to_le)

lemmas ld_defs = ld8_def ld16_def ld32_def ld64_def ldn_def

lemma frame_length: "length (frame msg) = sizeof_hdr + length msg"
  by (simp add: frame_def enc_hdr_def)

lemma dec_enc_hdr [simp]: "dec_hdr (enc_hdr h @ r) = h"
  by (cases h) (simp add: dec_hdr_def enc_hdr_def ld_defs)

lemma dec_enc_LoginReq [simp]:
  "length (lq_token r) = 32 \<Longrightarrow> dec_LoginReq (enc_LoginReq r host @ z) = r"
  by (cases r) (simp add: dec_LoginReq_def enc_LoginReq_def ld_defs)

lemma dec_enc_LoginRsp [simp]: "dec_LoginRsp (enc_LoginRsp r @ z) = r"
  by (cases r) (simp add: dec_LoginRsp_def enc_LoginRsp_def ld_defs)

lemma dec_enc_ConnectHostRsp [simp]: "dec_ConnectHostRsp (enc_ConnectHostRsp r @ z) = r"
  by (cases r) (simp add: dec_ConnectHostRsp_def enc_ConnectHostRsp_def ld_defs)

lemma dec_enc_BeginTransmit [simp]: "dec_BeginTransmit (enc_BeginTransmit r @ z) = r"
  by (cases r) (simp add: dec_BeginTransmit_def enc_BeginTransmit_def ld_defs)

lemma dec_enc_ReadTokenReq [simp]:
  "length (tq_token r) = 32 \<Longrightarrow> dec_ReadTokenReq (enc_ReadTokenReq r @ z) = r"
  by (cases r) (simp add: dec_ReadTokenReq_def enc_ReadTokenReq_def ld_defs)

lemma dec_enc_ReadTokenRsp [simp]:
  "length (tp_token r) = 32 \<Longrightarrow> dec_ReadTokenRsp (enc_ReadTokenRsp r @ z) = r"
  by (cases r) (simp add: dec_ReadTokenRsp_def enc_ReadTokenRsp_def ld_defs)

lemma dec_enc_SynUserTuple [simp]: "dec_SynUserTuple (enc_SynUserTuple r @ z) = r"
  by (cases r) (simp add: dec_SynUserTuple_def enc_SynUserTuple_def ld_defs)

lemma dec_enc_TrafficReport [simp]:
  "length (tr_host r) = 256 \<Longrightarrow> dec_TrafficReport (enc_TrafficReport r @ z) = r"
  by (cases r) (simp add: dec_TrafficReport_def enc_TrafficReport_def ld_timeval_def st_timeval_def ld_defs nth_append)

lemma dec_enc_TrafficReportRsp [simp]: "dec_TrafficReportRsp (enc_TrafficReportRsp r @ z) = r"
  by (cases r) (simp add: dec_TrafficReportRsp_def enc_TrafficReportRsp_def ld_defs nth_append)

lemma length_concat_st64 [simp]: "length (concat (map st64 ws)) = 8 * length ws"
  by (induction ws) auto

lemma ld64_concat_st64: "i < length ws \<Longrightarrow> ld64 (concat (map st64 ws) @ z) (8 * i) = ws ! i"
proof (induction ws arbitrary: i)
  case Nil
  then show ?case by simp
next
  case (Cons w ws)
  then show ?case
    by (cases i) (simp_all add: ld64_def)
qed

lemma ld64_skip: "ld64 (p @ m) (length p + i) = ld64 m i"
  by (simp add: ld64_def)

lemma dec_enc_KeepAliveToken [simp]:
  assumes "length (ka_app r) = 16" and "length (ka_mobile r) = 16"
  shows "dec_KeepAliveToken (enc_KeepAliveToken r @ z) = r"
proof -
  let ?a = "concat (map st64 (ka_app r))" and ?m = "concat (map st64 (ka_mobile r))"
  let ?w = "st16 KEEP_ALIVE_TOKEN @ ?a @ ?m @ z"
  have "ld64 ?w (2 + 8 * i) = ka_app r ! i" if "i < 16" for i
    using ld64_skip [of "st16 KEEP_ALIVE_TOKEN" "?a @ ?m @ z" "8 * i"]
      ld64_concat_st64 [of i "ka_app r" "?m @ z"] that assms by simp
  moreover have "ld64 ?w (130 + 8 * i) = ka_mobile r ! i" if "i < 16" for i
    using ld64_skip [of "st16 KEEP_ALIVE_TOKEN @ ?a" "?m @ z" "8 * i"]
      ld64_concat_st64 [of i "ka_mobile r" z] that assms by simp
  ultimately show ?thesis
    using assms by (cases r) (auto simp: dec_KeepAliveToken_def enc_KeepAliveToken_def intro!: nth_equalityI)
qed

lemma ids [simp]: "msg_id (st16 w @ z) = w"
  by (simp add: msg_id_def ld_defs)

text \<open>The layouts of the structs: the fields are read back from the image of a struct, with its number and whatever follows it in
  the receive buffer, and a record whose arrays have the sizes of the C struct fills exactly the bytes of the packed struct.\<close>

lemma wire_layouts:
  assumes "length (lq_token lq) = 32" "length (tq_token tq) = 32" "length (tp_token tp) = 32" "length (tr_host tr) = 256"
    and "length (ka_app ka) = 16" "length (ka_mobile ka) = 16"
  shows "(msg_id (enc_LoginReq lq h @ z) = LOGIN_REQ \<and> dec_LoginReq (enc_LoginReq lq h @ z) = lq \<and> drop LoginReq_host (enc_LoginReq lq h @ z) = h @ z)
    \<and> (msg_id (enc_LoginRsp lp @ z) = LOGIN_RSP \<and> dec_LoginRsp (enc_LoginRsp lp @ z) = lp \<and> length (enc_LoginRsp lp) = 20)
    \<and> (msg_id (enc_ConnectHostRsp hp @ z) = CONNECT_HOST_RSP \<and> dec_ConnectHostRsp (enc_ConnectHostRsp hp @ z) = hp \<and> length (enc_ConnectHostRsp hp) = 8)
    \<and> (msg_id (enc_BeginTransmit bt @ z) = BEGIN_TRANSMIT \<and> dec_BeginTransmit (enc_BeginTransmit bt @ z) = bt \<and> length (enc_BeginTransmit bt) = 6)
    \<and> (msg_id (enc_ReadTokenReq tq @ z) = READ_TOKEN_REQ \<and> dec_ReadTokenReq (enc_ReadTokenReq tq @ z) = tq \<and> length (enc_ReadTokenReq tq) = 58)
    \<and> (msg_id (enc_ReadTokenRsp tp @ z) = READ_TOKEN_RSP \<and> dec_ReadTokenRsp (enc_ReadTokenRsp tp @ z) = tp \<and> length (enc_ReadTokenRsp tp) = 68)
    \<and> (msg_id (enc_SynUserTuple su @ z) = SYN_USER_TUPLE \<and> dec_SynUserTuple (enc_SynUserTuple su @ z) = su \<and> length (enc_SynUserTuple su) = 24)
    \<and> (msg_id (enc_TrafficReport tr @ z) = TRAFFIC_REPORT \<and> dec_TrafficReport (enc_TrafficReport tr @ z) = tr \<and> length (enc_TrafficReport tr) = 319)
    \<and> (msg_id (enc_TrafficReportRsp tx @ z) = TRAFFIC_REPORT_RSP \<and> dec_TrafficReportRsp (enc_TrafficReportRsp tx @ z) = tx \<and> length (enc_TrafficReportRsp tx) = 31)
    \<and> (msg_id (enc_KeepAliveToken ka @ z) = KEEP_ALIVE_TOKEN \<and> dec_KeepAliveToken (enc_KeepAliveToken ka @ z) = ka \<and> length (enc_KeepAliveToken ka) = 258)"
  using assms by (simp, simp add: enc_LoginReq_def enc_LoginRsp_def enc_ConnectHostRsp_def enc_BeginTransmit_def
      enc_ReadTokenReq_def enc_ReadTokenRsp_def enc_SynUserTuple_def enc_TrafficReport_def enc_TrafficReportRsp_def
      enc_KeepAliveToken_def st_timeval_def)

end
