(* ===== verification/Framing.thy ===== *)
theory Framing
  imports Os Wire
begin

text \<open>
  Packet framing, shared by the stream connections of tms, ic-dpi and the SDK. A receiver
  asks for \<open>need\<close> bytes, takes what a read returned and either waits for more, has a header,
  has a message, or gives up. The interface \<open>stream_receiver\<close> states what such a receiver
  promises about a message that arrives in pieces; from it the delivered messages do not
  depend on how the network cut the stream. The reference \<open>parse_frames\<close> reads the messages
  off the whole stream.
\<close>

datatype rx_event = More | BadPacket | GotHeader | Message bytes | Overflow

text \<open>How a run of the receive loop over the available input ends.\<close>

datatype rx_end = Waiting | ZeroRead | Rejected | Overrun

subsection \<open>The receive loop over a receiver\<close>

function stream_recv ::
  "('c \<Rightarrow> nat) \<Rightarrow> (bytes \<Rightarrow> 'c \<Rightarrow> rx_event \<times> 'c) \<Rightarrow> bytes list \<Rightarrow> 'c \<Rightarrow> bytes list \<times> rx_end" where
  "stream_recv need input cs c =
     (if need c = 0 then ([], ZeroRead)
      else if fst (read_chunk (need c) cs) = [] then ([], Waiting)
      else case input (fst (read_chunk (need c) cs)) c of
          (BadPacket, c') \<Rightarrow> ([], Rejected)
        | (Overflow, c') \<Rightarrow> ([], Overrun)
        | (Message m, c') \<Rightarrow>
            (let (ms, e) = stream_recv need input (snd (read_chunk (need c) cs)) c' in (m # ms, e))
        | (_, c') \<Rightarrow> stream_recv need input (snd (read_chunk (need c) cs)) c')"
  by pat_completeness auto
termination
  by (relation "measure (\<lambda>(need, input, cs, c). unread cs)") (auto simp: read_chunk_decreases)

declare stream_recv.simps [simp del]

locale stream_receiver =
  fixes need :: "'c \<Rightarrow> nat"
    and input :: "bytes \<Rightarrow> 'c \<Rightarrow> rx_event \<times> 'c"
    and inv :: "'c \<Rightarrow> bool"
  assumes keep: "inv c \<Longrightarrow> inv (snd (input d c))"
    and part: "\<lbrakk>inv c; d \<noteq> []; length d < need c\<rbrakk>
      \<Longrightarrow> (\<exists>c'. input d c = (More, c') \<and> need c' = need c - length d) \<or> (\<exists>c'. input d c = (Overflow, c'))"
    and join: "\<lbrakk>inv c; d \<noteq> []; e \<noteq> []; length d + length e \<le> need c; input d c = (More, c')\<rbrakk>
      \<Longrightarrow> input (d @ e) c = input e c' \<or> fst (input (d @ e) c) = fst (input e c') \<and> fst (input e c') \<in> {Overflow, BadPacket}"
    and over: "\<lbrakk>inv c; d \<noteq> []; e \<noteq> []; length d + length e \<le> need c; input d c = (Overflow, c')\<rbrakk>
      \<Longrightarrow> fst (input (d @ e) c) = Overflow"
begin

abbreviation "recv \<equiv> stream_recv need input"

lemma recv_Nil: "recv [] c = ([], if need c = 0 then ZeroRead else Waiting)"
  by (simp add: stream_recv.simps [of _ _ "[]"] read_chunk_def)

lemma recv_short:
  assumes "inv c" "d \<noteq> []" "length d < need c"
  shows "recv (d # cs) c =
    (case input d c of (Overflow, c') \<Rightarrow> ([], Overrun) | (_, c') \<Rightarrow> recv cs c')"
  using part [OF assms] assms
  by (auto simp: stream_recv.simps [of _ _ "d # cs"] read_chunk_def)

lemma recv_long:
  assumes "inv c" "length (d @ e) \<ge> need c" "d \<noteq> []" "length d < need c" "e \<noteq> []" "input d c = (More, c')"
  shows "recv (e # cs) c' = recv ((d @ e) # cs) c"
proof -
  have need: "need c' = need c - length d"
    using part [OF assms(1,3,4)] assms(6) by auto
  let ?f = "take (need c - length d) e"
  have "input (d @ ?f) c = input ?f c' \<or> fst (input (d @ ?f) c) = fst (input ?f c') \<and> fst (input ?f c') \<in> {Overflow, BadPacket}"
    using assms by (intro join) auto
  moreover have "take (need c) (d @ e) = d @ ?f" "drop (need c) (d @ e) = drop (need c - length d) e"
    using assms by auto
  moreover have "snd (read_chunk (need c') (e # cs)) = snd (read_chunk (need c) ((d @ e) # cs))"
    using assms need by (auto simp: read_chunk_def)
  moreover have "fst (read_chunk (need c') (e # cs)) = ?f"
    and "fst (read_chunk (need c) ((d @ e) # cs)) = take (need c) (d @ e)"
    using need by (auto simp: read_chunk_def)
  ultimately show ?thesis
    using assms need
    by (auto simp: stream_recv.simps [of _ _ "e # cs"] stream_recv.simps [of _ _ "(d @ e) # cs"]
        split: prod.split rx_event.split)
qed

lemma recv_over:
  assumes "inv c" "d \<noteq> []" "e \<noteq> []" "length d < need c" "input d c = (Overflow, c')"
  shows "recv ((d @ e) # cs) c = ([], Overrun)"
proof -
  let ?f = "take (need c - length d) e"
  have "fst (input (d @ ?f) c) = Overflow"
    using assms by (intro over) auto
  moreover have "take (need c) (d @ e) = d @ ?f"
    using assms by auto
  ultimately show ?thesis
    using assms by (auto simp: stream_recv.simps [of _ _ "(d @ e) # cs"] read_chunk_def
        split: prod.splits)
qed

lemma recv_step_long:
  assumes "need c \<noteq> 0" "need c \<le> length d"
  shows "recv (d # cs) c =
    (let rest = (if length d \<le> need c then cs else drop (need c) d # cs) in
     case input (take (need c) d) c of
       (BadPacket, c') \<Rightarrow> ([], Rejected)
     | (Overflow, c') \<Rightarrow> ([], Overrun)
     | (Message m, c') \<Rightarrow> (let (ms, e) = recv rest c' in (m # ms, e))
     | (_, c') \<Rightarrow> recv rest c')"
proof -
  have r: "fst (read_chunk (need c) (d # cs)) = take (need c) d"
    "snd (read_chunk (need c) (d # cs)) = (if length d \<le> need c then cs else drop (need c) d # cs)"
    using assms by (simp_all add: read_chunk_def)
  show ?thesis
    using assms unfolding stream_recv.simps [of _ _ "d # cs"] Let_def r by auto
qed

text \<open>Two neighbouring chunks may be joined.\<close>

lemma recv_join:
  "inv c \<Longrightarrow> d \<noteq> [] \<Longrightarrow> e \<noteq> [] \<Longrightarrow> recv (d # e # cs) c = recv ((d @ e) # cs) c"
proof (induction "length d" arbitrary: d c rule: less_induct)
  case less
  consider "need c = 0" | "need c \<noteq> 0" "length d < need c" | "need c \<noteq> 0" "need c \<le> length d"
    by linarith
  then show ?case
  proof cases
    case 1
    then show ?thesis by (simp add: stream_recv.simps [of _ _ _ c])
  next
    case 2
    note short = recv_short [OF less.prems(1,2) 2(2)]
    from part [OF less.prems(1,2) 2(2)] show ?thesis
    proof (elim disjE exE conjE)
      fix c' assume i: "input d c = (More, c')" "need c' = need c - length d"
      have inv': "inv c'" using keep [OF less.prems(1), of d] i by simp
      show ?thesis
      proof (cases "length (d @ e) < need c")
        case True
        then have "length e < need c'" using i by simp
        with True have "recv (e # cs) c' = recv ((d @ e) # cs) c"
          using i less.prems inv' recv_short [of c' e cs] recv_short [of c "d @ e" cs]
            join [of c d e c'] part [of c' e] by (auto split: prod.splits)
        with i short show ?thesis by simp
      next
        case False
        with i short recv_long [of c d e c' cs] 2 less.prems show ?thesis by simp
      qed
    next
      fix c' assume "input d c = (Overflow, c')"
      with short recv_over [OF less.prems 2(2)] show ?thesis by simp
    qed
  next
    case 3
    have rest: "recv (drop (need c) d # e # cs) c' = recv ((drop (need c) d @ e) # cs) c'"
      if "need c < length d" "inv c'" for c'
      using less.hyps [of "drop (need c) d"] that 3 less.prems by simp
    have take: "take (need c) (d @ e) = take (need c) d"
      and drop: "drop (need c) (d @ e) = drop (need c) d @ e"
      using 3 by auto
    note inv' = keep [OF less.prems(1), of "take (need c) d"]
    show ?thesis
    proof (cases "length d = need c")
      case True
      with 3 less.prems show ?thesis
        by (simp add: recv_step_long Let_def split: prod.splits rx_event.splits)
    next
      case False
      with 3 less.prems rest take drop inv' show ?thesis
        by (auto simp: recv_step_long Let_def split: prod.splits rx_event.splits)
    qed
  qed
qed

lemma recv_chunking:
  assumes "inv c" and "\<forall>d \<in> set cs. d \<noteq> []" and "cs \<noteq> []"
  shows "recv cs c = recv [concat cs] c"
  using assms(2,3)
proof (induction "length cs" arbitrary: cs)
  case 0
  then show ?case by simp
next
  case (Suc n)
  show ?case
  proof (cases cs)
    case (Cons d ds)
    show ?thesis
    proof (cases ds)
      case Nil
      with Cons show ?thesis by simp
    next
      case (Cons e es)
      with \<open>cs = d # ds\<close> Suc.hyps Suc.prems show ?thesis
        using Suc.hyps(1) [of "(d @ e) # es"] recv_join [OF assms(1), of d e es] by simp
    qed
  qed (use Suc in simp)
qed

end

subsection \<open>The messages of a stream\<close>

text \<open>
  The reference reading of a byte stream: packets of a 6-byte header and a body, given the
  room of the receive buffer. A packet of length zero makes the next read return 0, which
  the event loops take for the end of the stream.
\<close>

function parse_frames :: "nat \<Rightarrow> bytes \<Rightarrow> bytes list \<times> rx_end" where
  "parse_frames room bs =
     (if length bs < sizeof_hdr then ([], Waiting)
      else if bs ! 0 \<noteq> VALIDATER0 \<or> bs ! 1 \<noteq> VALIDATER1 then ([], Rejected)
      else let n = unat (htons (ld16 bs 2)); body = drop sizeof_hdr bs in
        if n = 0 then ([], ZeroRead)
        else if room < n then ([], if room < length body then Overrun else Waiting)
        else if length body < n then ([], Waiting)
        else let (ms, e) = parse_frames room (drop n body) in (take n body # ms, e))"
  by pat_completeness auto
termination
  by (relation "measure (\<lambda>(room, bs). length bs)") auto

declare parse_frames.simps [simp del]

locale frame_receiver = stream_receiver +
  fixes room :: nat
    and at_header :: "'a \<Rightarrow> bool"
    and in_body :: "'a \<Rightarrow> nat \<Rightarrow> bool"
  assumes header_inv: "at_header c \<Longrightarrow> inv c"
    and body_inv: "in_body c n \<Longrightarrow> inv c"
    and header_need: "at_header c \<Longrightarrow> need c = sizeof_hdr"
    and header_in: "\<lbrakk>at_header c; length d = sizeof_hdr\<rbrakk> \<Longrightarrow>
      if d ! 0 = VALIDATER0 \<and> d ! 1 = VALIDATER1
      then \<exists>c'. input d c = (GotHeader, c') \<and> in_body c' (unat (htons (ld16 d 2)))
      else fst (input d c) = BadPacket"
    and header_part: "\<lbrakk>at_header c; d \<noteq> []; length d < sizeof_hdr\<rbrakk> \<Longrightarrow> fst (input d c) = More"
    and body_need: "in_body c n \<Longrightarrow> need c = n"
    and body_in: "\<lbrakk>in_body c n; length d = n; d \<noteq> []\<rbrakk> \<Longrightarrow>
      if n \<le> room then \<exists>c'. input d c = (Message d, c') \<and> at_header c'
      else fst (input d c) = Overflow"
    and body_part: "\<lbrakk>in_body c n; d \<noteq> []; length d < n\<rbrakk> \<Longrightarrow>
      fst (input d c) = (if length d \<le> room then More else Overflow)"
begin

lemma recv_more: "inv c \<Longrightarrow> fst (input d c) = More \<Longrightarrow> d \<noteq> [] \<Longrightarrow> length d < need c \<Longrightarrow> recv [d] c = ([], Waiting)"
  using part [of c d] by (auto simp: recv_short recv_Nil)

lemma recv_body:
  assumes "in_body c n" "0 < n"
    and IH: "\<And>c' bs'. at_header c' \<Longrightarrow> bs' = drop n bs \<Longrightarrow> n \<le> length bs \<Longrightarrow> n \<le> room \<Longrightarrow>
      recv (if bs' = [] then [] else [bs']) c' = parse_frames room bs'"
  shows "recv (if bs = [] then [] else [bs]) c =
    (if room < n then ([], if room < length bs then Overrun else Waiting)
     else if length bs < n then ([], Waiting)
     else let (ms, e) = parse_frames room (drop n bs) in (take n bs # ms, e))"
proof (cases "length bs < n")
  case True
  then show ?thesis
    using assms(1,2) body_need [OF assms(1)] body_part [OF assms(1), of bs] body_inv [OF assms(1)] recv_more [of c bs]
      recv_short [of c bs "[]"]
    by (auto simp: recv_Nil split: if_splits prod.splits)
next
  case False
  then have ne: "bs \<noteq> []" and need: "need c = n"
    using assms body_need by auto
  let ?cs = "if drop n bs = [] then [] else [drop n bs]"
  have long: "(if length bs \<le> n then [] else [drop n bs]) = ?cs"
    by simp
  note in' = body_in [OF assms(1), of "take n bs"]
  show ?thesis
  proof (cases "n \<le> room")
    case True
    then obtain c' where c': "input (take n bs) c = (Message (take n bs), c')" "at_header c'"
      using in' False ne assms(2) by auto
    have "recv ?cs c' = parse_frames room (drop n bs)"
      using IH [OF c'(2) refl] False True by simp
    then show ?thesis
      using False True ne need c' assms(2)
      by (auto simp: recv_step_long long split: if_splits)
  next
    case nofit: False
    then obtain c' where "input (take n bs) c = (Overflow, c')"
      using False in' ne assms(2) by (cases "input (take n bs) c") auto
    then show ?thesis
      using False nofit ne need assms(2) by (simp add: recv_step_long Let_def)
  qed
qed

lemma recv_parse: "at_header c \<Longrightarrow> recv (if bs = [] then [] else [bs]) c = parse_frames room bs"
proof (induction bs arbitrary: c rule: length_induct)
  case (1 bs)
  note need = header_need [OF "1.prems"]
  show ?case
  proof (cases "length bs < sizeof_hdr")
    case True
    then show ?thesis
      using header_inv [OF "1.prems"] recv_more [of c bs] header_part [OF "1.prems", of bs] need
      by (auto simp: recv_Nil parse_frames.simps [of room bs])
  next
    case False
    let ?h = "take sizeof_hdr bs" and ?b = "drop sizeof_hdr bs"
    have hd: "length ?h = sizeof_hdr" "?h ! 0 = bs ! 0" "?h ! 1 = bs ! 1" "ld16 ?h 2 = ld16 bs 2"
      using False by (auto simp: ld16_def take_drop min_def)
    have run: "recv (if bs = [] then [] else [bs]) c = (let rest = (if ?b = [] then [] else [?b]) in
       case input ?h c of (BadPacket, c') \<Rightarrow> ([], Rejected) | (Overflow, c') \<Rightarrow> ([], Overrun)
         | (Message m, c') \<Rightarrow> (let (ms, e) = recv rest c' in (m # ms, e)) | (_, c') \<Rightarrow> recv rest c')"
      using False need recv_step_long [of c bs "[]"] by auto
    note in' = header_in [OF "1.prems" hd(1), unfolded hd(2-4)]
    show ?thesis
    proof (cases "bs ! 0 = VALIDATER0 \<and> bs ! 1 = VALIDATER1")
      case True
      then obtain c' where c': "input ?h c = (GotHeader, c')" "in_body c' (unat (htons (ld16 bs 2)))"
        using in' by auto
      show ?thesis
      proof (cases "unat (htons (ld16 bs 2)) = 0")
        case zero: True
        then have "recv (if ?b = [] then [] else [?b]) c' = ([], ZeroRead)"
          using body_need [OF c'(2)] by (simp add: stream_recv.simps)
        with zero True False run c' show ?thesis
          by (simp add: parse_frames.simps [of room bs])
      next
        case pos: False
        have "recv (if ?b = [] then [] else [?b]) c' = (let n = unat (htons (ld16 bs 2)) in
            if room < n then ([], if room < length ?b then Overrun else Waiting)
            else if length ?b < n then ([], Waiting)
            else let (ms, e) = parse_frames room (drop n ?b) in (take n ?b # ms, e))"
          unfolding Let_def
        proof (rule recv_body [OF c'(2), unfolded Let_def])
          fix d bs'
          assume "at_header d" and bs': "bs' = drop (unat (htons (ld16 bs 2))) ?b"
          moreover from bs' False have "length bs' < length bs" by simp
          ultimately show "recv (if bs' = [] then [] else [bs']) d = parse_frames room bs'"
            using "1.IH" by blast
        qed (use pos in simp)
        with pos True False run c' show ?thesis
          by (simp add: parse_frames.simps [of room bs] Let_def)
      qed
    next
      case False
      with in' obtain c' where "input ?h c = (BadPacket, c')"
        by (cases "input ?h c") auto
      with False run \<open>\<not> length bs < sizeof_hdr\<close> show ?thesis
        by (auto simp: parse_frames.simps [of room bs] Let_def)
    qed
  qed
qed

text \<open>The messages delivered are those of the whole stream, however it was cut.\<close>

theorem recv_stream:
  assumes "at_header c" and "\<forall>d \<in> set cs. d \<noteq> []"
  shows "recv cs c = parse_frames room (concat cs)"
proof (cases "cs = []")
  case True
  with recv_parse [OF assms(1), of "[]"] show ?thesis by simp
next
  case False
  with recv_chunking [OF header_inv [OF assms(1)] assms(2) False] recv_parse [OF assms(1), of "concat cs"] assms(2)
  show ?thesis by (cases cs) auto
qed

end

text \<open>What \<^verbatim>\<open>SendTmsMsg\<close> frames, the receivers unframe.\<close>

lemma frame_header:
  assumes "length m < 65536"
  shows "take sizeof_hdr (frame m @ r) ! 0 = VALIDATER0" "(frame m @ r) ! 0 = VALIDATER0"
    "(frame m @ r) ! 1 = VALIDATER1" "unat (htons (ld16 (frame m @ r) 2)) = length m"
    "drop sizeof_hdr (frame m @ r) = m @ r"
  using assms by (simp_all add: frame_def enc_hdr_def hdr_init_def ld16_def unat_of_nat)

lemma parse_frame:
  assumes "m \<noteq> []" "length m \<le> room" "length m < 65536"
  shows "parse_frames room (frame m @ r) = (let (ms, e) = parse_frames room r in (m # ms, e))"
  using assms frame_header [OF assms(3), of r]
  by (simp add: parse_frames.simps [of room "frame m @ r"] frame_length)

lemma parse_frames_Nil: "parse_frames room [] = ([], Waiting)"
  by (simp add: parse_frames.simps)

lemma parse_concat_frames:
  assumes "\<forall>m \<in> set ms. m \<noteq> [] \<and> length m \<le> room \<and> length m < 65536"
  shows "parse_frames room (concat (map frame ms)) = (ms, Waiting)"
  using assms by (induction ms) (auto simp: parse_frame parse_frames_Nil)

end
