(* ===== verification/RxConn.thy ===== *)
theory RxConn
  imports Framing
begin

text \<open>
  The packet reader of a \<^verbatim>\<open>Connect\<close>, which tms, ic-dpi and the SDK each have a copy of: its fields, and
  what it does with the bytes of one read. The buffer has a size of its own in each program. The
  locale \<open>rx_part\<close> gives the framing laws to every connection object that has such a reader.
\<close>

datatype Trans_stat = s_header | s_body | s_forward | s_wait

record rx =
  rx_cstate :: Trans_stat
  rx_h :: hdr_t
  rx_stillneedtoread :: u16
  rx_offset :: u16
  rx_datalen :: u16
  rx_buff :: bytes

text \<open>What \<^verbatim>\<open>StreamRecvEvent\<close> does to the reader with the bytes of one read in a state other than
  forwarding, up to the call of \<^verbatim>\<open>HandleRecvMsg\<close>.\<close>

definition rx_input :: "bytes \<Rightarrow> rx \<Rightarrow> rx_event \<times> rx" where
  "rx_input d c =
     (let c1 = c\<lparr>rx_buff := blit (rx_buff c) (unat (rx_offset c)) d\<rparr> in
      if length (rx_buff c) < unat (rx_offset c) + length d then (Overflow, c)
      else if length d < unat (rx_stillneedtoread c) then
        (More, c1\<lparr>rx_offset := rx_offset c + of_nat (length d),
                   rx_stillneedtoread := rx_stillneedtoread c - of_nat (length d)\<rparr>)
      else case rx_cstate c of
        s_header \<Rightarrow>
          let h = dec_hdr (rx_buff c1) in
          if delim0 h \<noteq> VALIDATER0 \<or> delim1 h \<noteq> VALIDATER1 then (BadPacket, c1\<lparr>rx_h := h\<rparr>)
          else (GotHeader, c1\<lparr>rx_h := h\<lparr>hlen := htons (hlen h)\<rparr>, rx_cstate := s_body, rx_offset := 0,
                              rx_stillneedtoread := htons (hlen h)\<rparr>)
      | s_body \<Rightarrow>
          (Message (take (unat (hlen (rx_h c))) (rx_buff c1)),
           c1\<lparr>rx_cstate := s_header, rx_stillneedtoread := of_nat sizeof_hdr, rx_offset := 0\<rparr>)
      | _ \<Rightarrow> (GotHeader, c1))"

subsection \<open>Packets arrive whole\<close>

abbreviation rx_need :: "rx \<Rightarrow> nat" where "rx_need c \<equiv> unat (rx_stillneedtoread c)"

definition rx_at_header :: "nat \<Rightarrow> rx \<Rightarrow> bool" where
  "rx_at_header room c \<longleftrightarrow> rx_cstate c = s_header \<and> rx_offset c = 0 \<and> rx_stillneedtoread c = 6
     \<and> length (rx_buff c) = room \<and> 6 \<le> room \<and> room < 65536"

definition rx_in_body :: "nat \<Rightarrow> rx \<Rightarrow> nat \<Rightarrow> bool" where
  "rx_in_body room c n \<longleftrightarrow> rx_cstate c = s_body \<and> rx_offset c = 0 \<and> unat (rx_stillneedtoread c) = n
     \<and> unat (hlen (rx_h c)) = n \<and> length (rx_buff c) = room \<and> 6 \<le> room \<and> room < 65536"

lemma rx_input_more:
  assumes "length d < rx_need c" "unat (rx_offset c) + length d \<le> length (rx_buff c)"
  shows "rx_input d c = (More, c\<lparr>rx_buff := blit (rx_buff c) (unat (rx_offset c)) d,
    rx_offset := rx_offset c + of_nat (length d), rx_stillneedtoread := rx_stillneedtoread c - of_nat (length d)\<rparr>)"
  using assms by (simp add: rx_input_def Let_def)

lemma rx_input_over: "length (rx_buff c) < unat (rx_offset c) + length d \<Longrightarrow> rx_input d c = (Overflow, c)"
  by (simp add: rx_input_def Let_def)

lemma unat_sub_of_nat: "n \<le> unat w \<Longrightarrow> unat (w - of_nat n) = unat w - n" for w :: u16
  using unsigned_less [of w, where ?'a = nat]
  by (simp add: unat_sub word_le_nat_alt unat_of_nat)

lemma unat_add_of_nat: "unat w + n < 65536 \<Longrightarrow> unat (w + of_nat n) = unat w + n" for w :: u16
  by (simp add: unat_word_ariths(1) unat_of_nat)

lemma rx_input_part:
  assumes "d \<noteq> []" "length d < rx_need c"
  shows "(\<exists>c'. rx_input d c = (More, c') \<and> rx_need c' = rx_need c - length d) \<or> (\<exists>c'. rx_input d c = (Overflow, c'))"
proof (cases "unat (rx_offset c) + length d \<le> length (rx_buff c)")
  case True
  show ?thesis
    by (rule disjI1, rule exI, rule conjI, rule rx_input_more [OF assms(2) True])
      (use assms(2) in \<open>simp add: unat_sub_of_nat\<close>)
next
  case False
  then have "rx_input d c = (Overflow, c)" by (intro rx_input_over) simp
  then show ?thesis by blast
qed

definition rx_framed :: "nat \<Rightarrow> rx \<Rightarrow> bool" where
  "rx_framed room c \<longleftrightarrow> rx_cstate c \<in> {s_header, s_body} \<and> length (rx_buff c) = room \<and> 6 \<le> room \<and> room < 65536"

lemma rx_input_framed: "rx_framed room c \<Longrightarrow> rx_framed room (snd (rx_input d c))"
  by (auto simp: rx_framed_def rx_input_def Let_def)

text \<open>What a chunk does to a connection depends on the connection only through these fields.\<close>

lemma rx_input_join:
  assumes inv: "rx_framed room c" and "d \<noteq> []" "e \<noteq> []" "length d + length e \<le> rx_need c"
    "rx_input d c = (More, c')"
  shows "rx_input (d @ e) c = rx_input e c' \<or>
    fst (rx_input (d @ e) c) = fst (rx_input e c') \<and> fst (rx_input e c') \<in> {Overflow, BadPacket}"
proof -
  have lt: "length d < rx_need c" using assms(3,4) by (cases e) auto
  have fit: "unat (rx_offset c) + length d \<le> length (rx_buff c)"
    using assms(5) rx_input_over [of c d] by (cases "length (rx_buff c) < unat (rx_offset c) + length d") auto
  have c': "c' = c\<lparr>rx_buff := blit (rx_buff c) (unat (rx_offset c)) d,
    rx_offset := rx_offset c + of_nat (length d), rx_stillneedtoread := rx_stillneedtoread c - of_nat (length d)\<rparr>"
    using assms(5) rx_input_more [OF lt fit] by simp
  have off: "unat (rx_offset c + of_nat (length d)) = unat (rx_offset c) + length d"
    using fit inv unat_add_of_nat [of "rx_offset c" "length d"] by (simp add: rx_framed_def)
  have need: "unat (rx_stillneedtoread c - of_nat (length d)) = rx_need c - length d"
    using lt unat_sub_of_nat [of "length d" "rx_stillneedtoread c"] by simp
  have fits: "length (rx_buff c) < unat (rx_offset c) + length d + length e \<longleftrightarrow> length (rx_buff c) < unat (rx_offset c) + length (d @ e)"
    by (simp add: add.assoc)
  have full: "length e < rx_need c - length d \<longleftrightarrow> length (d @ e) < rx_need c"
    using lt by auto
  have len: "length (blit (rx_buff c) (unat (rx_offset c)) d) = length (rx_buff c)" using fit by simp
  note e_in = rx_input_def [of e] and de_in = rx_input_def [of "d @ e"]
  note facts = Let_def len off need full fits blit_append [of "rx_buff c" "unat (rx_offset c)" d e]
  let ?h = "dec_hdr (blit (rx_buff c) (unat (rx_offset c)) (d @ e))"
  consider "length (rx_buff c) < unat (rx_offset c) + length (d @ e)"
    | "\<not> length (rx_buff c) < unat (rx_offset c) + length (d @ e)" "length (d @ e) < rx_need c"
    | "\<not> length (rx_buff c) < unat (rx_offset c) + length (d @ e)" "\<not> length (d @ e) < rx_need c"
    by blast
  then show ?thesis
  proof cases
    case 1
    then show ?thesis by (simp add: c' e_in de_in facts del: length_append)
  next
    case 2
    then have "rx_input e c' = (More, c\<lparr>rx_buff := blit (rx_buff c) (unat (rx_offset c)) (d @ e),
        rx_offset := rx_offset c + of_nat (length d) + of_nat (length e),
        rx_stillneedtoread := rx_stillneedtoread c - of_nat (length d) - of_nat (length e)\<rparr>)"
      by (simp add: c' e_in facts del: length_append)
    moreover have "rx_input (d @ e) c = (More, c\<lparr>rx_buff := blit (rx_buff c) (unat (rx_offset c)) (d @ e),
        rx_offset := rx_offset c + of_nat (length d) + of_nat (length e),
        rx_stillneedtoread := rx_stillneedtoread c - of_nat (length d) - of_nat (length e)\<rparr>)"
      using 2 by (simp add: de_in Let_def add.assoc diff_diff_eq del: length_append)
        (simp add: add.assoc)
    ultimately show ?thesis by simp
  next
    case 3
    then show ?thesis
      using inv by (cases "delim0 ?h \<noteq> VALIDATER0 \<or> delim1 ?h \<noteq> VALIDATER1")
        (auto simp: c' e_in de_in facts rx_framed_def simp del: length_append)
  qed
qed

lemma rx_input_overflow:
  assumes "e \<noteq> []" "length d + length e \<le> rx_need c" "rx_input d c = (Overflow, c')"
  shows "fst (rx_input (d @ e) c) = Overflow"
proof -
  have "length d < rx_need c" using assms(1,2) by (cases e) auto
  then
  have "length (rx_buff c) < unat (rx_offset c) + length d"
    using assms rx_input_more [of d c] by (cases "length (rx_buff c) < unat (rx_offset c) + length d") auto
  then show ?thesis by (simp add: rx_input_over)
qed

lemma dec_hdr_blit:
  assumes "length d = sizeof_hdr"
  shows "delim0 (dec_hdr (blit m 0 d)) = d ! 0" "delim1 (dec_hdr (blit m 0 d)) = d ! 1"
    "hlen (dec_hdr (blit m 0 d)) = ld16 d 2"
  using assms by (simp_all add: dec_hdr_def blit_0 ld8_def ld16_def nth_append)

lemma rx_input_header:
  assumes "rx_at_header room c" "length d = sizeof_hdr"
  shows "if d ! 0 = VALIDATER0 \<and> d ! 1 = VALIDATER1
    then \<exists>c'. rx_input d c = (GotHeader, c') \<and> rx_in_body room c' (unat (htons (ld16 d 2)))
    else fst (rx_input d c) = BadPacket"
  using assms dec_hdr_blit [OF assms(2), of "rx_buff c"]
  by (auto simp: rx_at_header_def rx_in_body_def rx_input_def Let_def)

lemma rx_input_body:
  assumes "rx_in_body room c n" "length d = n" "d \<noteq> []"
  shows "if n \<le> room then \<exists>c'. rx_input d c = (Message d, c') \<and> rx_at_header room c'
    else fst (rx_input d c) = Overflow"
  using assms by (auto simp: rx_at_header_def rx_in_body_def rx_input_def Let_def blit_0)

interpretation rx: frame_receiver rx_need rx_input "rx_framed room" room "rx_at_header room" "rx_in_body room" for room
proof (unfold_locales, goal_cases keep part join over hinv binv hneed hin hpart bneed bin bpart)
  case (join c d e c')
  then show ?case by (rule rx_input_join)
next
  case (hin c d)
  then show ?case by (rule rx_input_header)
next
  case (bin c n d)
  then show ?case by (rule rx_input_body)
next
  case keep
  then show ?case by (rule rx_input_framed)
next
  case part
  then show ?case by (intro rx_input_part)
next
  case over
  then show ?case by (intro rx_input_overflow)
next
  case hpart
  then show ?case by (simp add: rx_at_header_def rx_input_more)
next
  case bpart
  then show ?case by (simp add: rx_in_body_def rx_input_more rx_input_over)
qed (auto simp: rx_at_header_def rx_in_body_def rx_framed_def)

subsection \<open>Receivers of the programs\<close>

text \<open>A connection object that has a packet reader in it: \<open>get\<close> and \<open>put\<close> are its reader's fields.\<close>

locale rx_part =
  fixes get :: "'c \<Rightarrow> rx" and put :: "rx \<Rightarrow> 'c \<Rightarrow> 'c" and room :: nat
  assumes get_put: "get (put r c) = r" and put_put: "put r (put r' c) = put r c"
begin

definition part_input :: "bytes \<Rightarrow> 'c \<Rightarrow> rx_event \<times> 'c" where
  "part_input d c = (let (e, r) = rx_input d (get c) in (e, put r c))"

lemma part_input_fst: "fst (part_input d c) = fst (rx_input d (get c))"
  by (simp add: part_input_def split: prod.splits)

lemma part_input_get: "get (snd (part_input d c)) = snd (rx_input d (get c))"
  by (simp add: part_input_def get_put split: prod.splits)

lemma part_input_eq: "part_input d c = (fst (rx_input d (get c)), put (snd (rx_input d (get c))) c)"
  by (simp add: part_input_def split: prod.splits)

lemma part_frames:
  "frame_receiver (\<lambda>c. rx_need (get c)) part_input (\<lambda>c. rx_framed room (get c)) room
     (\<lambda>c. rx_at_header room (get c)) (\<lambda>c. rx_in_body room (get c))"
proof (unfold_locales, goal_cases keep part join over hinv binv hneed hin hpart bneed bin bpart)
  case (keep c d)
  then show ?case using rx.keep [of room "get c" d] by (simp add: part_input_get)
next
  case (part c d)
  from rx.part [OF this] show ?case by (auto simp: part_input_eq get_put)
next
  case (join c d e c')
  then have "rx_input d (get c) = (More, get c')" and c': "c' = put (get c') c"
    by (auto simp: part_input_eq get_put prod_eq_iff)
  from rx.join [OF join(1-4) this(1)] c' show ?case by (auto simp: part_input_eq) (metis put_put)
next
  case (over c d e c')
  then have "rx_input d (get c) = (Overflow, get c')" by (auto simp: part_input_eq get_put prod_eq_iff)
  from rx.over [OF over(1-4) this] show ?case by (simp add: part_input_fst)
next
  case (hin c d)
  from rx.header_in [OF this] show ?case by (auto simp: part_input_eq get_put split: if_splits)
next
  case (bin c n d)
  from rx.body_in [OF this] show ?case by (auto simp: part_input_eq get_put split: if_splits)
next
  case (hpart c d)
  from rx.header_part [OF this] show ?case by (simp add: part_input_fst)
next
  case (bpart c n d)
  from rx.body_part [OF this] show ?case by (simp add: part_input_fst)
qed (auto intro: rx.header_inv rx.body_inv rx.header_need rx.body_need)

end

sublocale rx_part \<subseteq> frames: frame_receiver "\<lambda>c. rx_need (get c)" part_input "\<lambda>c. rx_framed room (get c)" room
    "\<lambda>c. rx_at_header room (get c)" "\<lambda>c. rx_in_body room (get c)"
  by (rule part_frames)

end
