(* ===== verification/Containers.thy ===== *)
theory Containers
  imports Prelude "HOL-Library.List_Lexorder"
begin

text \<open>
  The ordered containers of the C++ standard library that the programs use:
  \<^verbatim>\<open>std::map\<close> and \<^verbatim>\<open>std::multimap\<close> as key-sorted association lists, with the operations
  the sources call. \<^verbatim>\<open>std::string\<close> keys are byte lists in lexicographic order.
\<close>

subsection \<open>Maps\<close>

type_synonym ('k, 'v) std_map = "('k \<times> 'v) list"

text \<open>\<^verbatim>\<open>m[k] = v\<close>\<close>

fun map_set :: "'k::linorder \<Rightarrow> 'v \<Rightarrow> ('k, 'v) std_map \<Rightarrow> ('k, 'v) std_map" where
  "map_set k v [] = [(k, v)]"
| "map_set k v ((k', v') # m) =
     (if k = k' then (k, v) # m
      else if k < k' then (k, v) # (k', v') # m
      else (k', v') # map_set k v m)"

text \<open>\<^verbatim>\<open>m.insert({k, v})\<close> leaves an existing entry alone; \<^verbatim>\<open>m.find(k)\<close>; \<^verbatim>\<open>m.erase(k)\<close>.\<close>

definition map_find :: "'k \<Rightarrow> ('k, 'v) std_map \<Rightarrow> 'v option" where
  "map_find k m = map_of m k"

definition map_insert :: "'k::linorder \<Rightarrow> 'v \<Rightarrow> ('k, 'v) std_map \<Rightarrow> ('k, 'v) std_map" where
  "map_insert k v m = (case map_find k m of None \<Rightarrow> map_set k v m | Some _ \<Rightarrow> m)"

definition map_erase :: "'k \<Rightarrow> ('k, 'v) std_map \<Rightarrow> ('k, 'v) std_map" where
  "map_erase k m = filter (\<lambda>kv. fst kv \<noteq> k) m"

definition map_wf :: "('k::linorder, 'v) std_map \<Rightarrow> bool" where
  "map_wf m \<longleftrightarrow> sorted_wrt (<) (map fst m)"

lemma map_find_set [simp]: "map_find k (map_set k' v m) = (if k = k' then Some v else map_find k m)"
  unfolding map_find_def by (induction k' v m rule: map_set.induct) auto

lemma map_find_Nil [simp]: "map_find k [] = None"
  by (simp add: map_find_def)

lemma map_find_Cons [simp]: "map_find k ((k', v) # m) = (if k = k' then Some v else map_find k m)"
  by (simp add: map_find_def)

lemma map_find_insert [simp]:
  "map_find k (map_insert k' v m) =
     (if k = k' \<and> map_find k m = None then Some v else map_find k m)"
  by (auto simp: map_insert_def split: option.splits)

lemma map_find_erase [simp]: "map_find k (map_erase k' m) = (if k = k' then None else map_find k m)"
  unfolding map_find_def map_erase_def by (induction m) auto

lemma set_map_set: "set (map_set k v m) \<subseteq> insert (k, v) (set m)"
  by (induction k v m rule: map_set.induct) auto

lemma fst_set_map_set: "fst ` set (map_set k v m) = insert k (fst ` set m)"
  by (induction k v m rule: map_set.induct) auto

lemma set_map_insert: "set (map_insert k v m) \<subseteq> insert (k, v) (set m)"
  using set_map_set [of k v m] by (auto simp: map_insert_def split: option.splits)

lemma set_map_erase: "set (map_erase k m) = {kv \<in> set m. fst kv \<noteq> k}"
  by (auto simp: map_erase_def)

lemma map_find_SomeD: "map_find k m = Some v \<Longrightarrow> (k, v) \<in> set m"
  by (simp add: map_find_def map_of_SomeD)

lemma map_wf_set: "map_wf m \<Longrightarrow> map_wf (map_set k v m)"
proof (induction k v m rule: map_set.induct)
  case (1 k v)
  show ?case by (simp add: map_wf_def)
next
  case (2 k v k' v' m)
  have "\<forall>x \<in> fst ` set (map_set k v m). k' < x" if "k' < k"
    using that "2.prems" by (auto simp: fst_set_map_set map_wf_def)
  with 2 show ?case
    by (auto simp: map_wf_def dest: order.strict_trans)
qed

lemma map_wf_insert: "map_wf m \<Longrightarrow> map_wf (map_insert k v m)"
  by (auto simp: map_insert_def map_wf_set split: option.splits)

lemma map_wf_erase: "map_wf m \<Longrightarrow> map_wf (map_erase k m)"
  unfolding map_wf_def map_erase_def
  by (induction m) auto

lemma map_find_iff: "map_wf m \<Longrightarrow> map_find k m = Some v \<longleftrightarrow> (k, v) \<in> set m"
proof -
  assume "map_wf m"
  then have "distinct (map fst m)"
    by (simp add: map_wf_def strict_sorted_iff)
  then show ?thesis
    by (simp add: map_find_def)
qed

subsection \<open>Multimaps\<close>

text \<open>\<^verbatim>\<open>insert\<close> puts an element behind the elements with an equal key.\<close>

fun mm_insert :: "'k::linorder \<Rightarrow> 'v \<Rightarrow> ('k \<times> 'v) list \<Rightarrow> ('k \<times> 'v) list" where
  "mm_insert k v [] = [(k, v)]"
| "mm_insert k v ((k', v') # m) =
     (if k < k' then (k, v) # (k', v') # m else (k', v') # mm_insert k v m)"

text \<open>The elements from \<^verbatim>\<open>lower_bound(k)\<close> up to \<^verbatim>\<open>upper_bound(k)\<close>.\<close>

definition mm_range :: "'k::linorder \<Rightarrow> ('k \<times> 'v) list \<Rightarrow> 'v list" where
  "mm_range k m = map snd (takeWhile (\<lambda>kv. \<not> k < fst kv) (dropWhile (\<lambda>kv. fst kv < k) m))"

definition mm_erase :: "'k \<Rightarrow> ('k \<times> 'v) list \<Rightarrow> ('k \<times> 'v) list" where
  "mm_erase k m = filter (\<lambda>kv. fst kv \<noteq> k) m"

definition mm_wf :: "('k::linorder \<times> 'v) list \<Rightarrow> bool" where
  "mm_wf m \<longleftrightarrow> sorted (map fst m)"

lemma set_mm_insert [simp]: "set (mm_insert k v m) = insert (k, v) (set m)"
  by (induction k v m rule: mm_insert.induct) auto

lemma mm_wf_insert: "mm_wf m \<Longrightarrow> mm_wf (mm_insert k v m)"
  unfolding mm_wf_def
  by (induction k v m rule: mm_insert.induct) (auto simp: not_less)

lemma mm_wf_erase: "mm_wf m \<Longrightarrow> mm_wf (mm_erase k m)"
  unfolding mm_wf_def mm_erase_def by (induction m) auto

lemma mm_range_filter:
  assumes "mm_wf m"
  shows "mm_range k m = map snd (filter (\<lambda>kv. fst kv = k) m)"
  using assms unfolding mm_wf_def
proof (induction m)
  case Nil
  show ?case by (simp add: mm_range_def)
next
  case (Cons a m)
  have "takeWhile (\<lambda>kv. \<not> k < fst kv) m = filter (\<lambda>kv. fst kv = k) m" if "\<not> fst a < k"
    using Cons.prems that
  proof (induction m arbitrary: a)
    case Nil
    show ?case by simp
  next
    case (Cons b m)
    then have "k \<le> fst b" by force
    moreover from Cons.prems have "filter (\<lambda>kv. fst kv = k) m = []" if "k < fst b"
      using that by (auto simp: filter_empty_conv)
    ultimately show ?case
      using Cons.IH [of b] Cons.prems by (auto simp: not_less)
  qed
  moreover have "filter (\<lambda>kv. fst kv = k) m = []" if "k < fst a"
    using Cons.prems that by (auto simp: filter_empty_conv)
  ultimately show ?case
    using Cons by (auto simp: mm_range_def)
qed

lemma filter_key_none:
  "\<forall>x \<in> set m. k' \<le> fst x \<Longrightarrow> (k :: 'k::linorder) < k' \<Longrightarrow> filter (\<lambda>kv. fst kv = k) m = []"
  by (induction m) auto

lemma filter_mm_insert:
  "mm_wf m \<Longrightarrow> map snd (filter (\<lambda>kv. fst kv = k) (mm_insert j v m)) =
     map snd (filter (\<lambda>kv. fst kv = k) m) @ (if j = k then [v] else [])"
  unfolding mm_wf_def
  by (induction j v m rule: mm_insert.induct) (auto simp: filter_key_none)

lemma mm_range_insert:
  "mm_wf m \<Longrightarrow> mm_range k (mm_insert j v m) = mm_range k m @ (if j = k then [v] else [])"
  by (simp add: mm_range_filter mm_wf_insert filter_mm_insert)

lemma mm_range_erase:
  "mm_wf m \<Longrightarrow> mm_range k (mm_erase j m) = (if j = k then [] else mm_range k m)"
proof -
  assume "mm_wf m"
  moreover have "filter (\<lambda>kv. fst kv = k) (mm_erase j m) = (if j = k then [] else filter (\<lambda>kv. fst kv = k) m)"
    unfolding mm_erase_def by (induction m) auto
  ultimately show ?thesis
    by (simp add: mm_range_filter mm_wf_erase)
qed

end
