(* ===== verification/Traffic.thy ===== *)
theory Traffic
  imports Containers
begin

text \<open>
  \<^verbatim>\<open>TMSDataTypes.h\<close>: the identity of a user with the order that keys the user maps, and
  the estimates of the traffic a payload costs on the wire. The debug build defines
  \<^verbatim>\<open>ACCURATE_TRAFFIC\<close> and the release build does not, so the estimates take the build
  flag as an argument.
\<close>

subsection \<open>User identity\<close>

datatype UserId = UserId (mobile: u64) (app: u64)

text \<open>\<^verbatim>\<open>UserId::operator<\<close>, by which the maps of users are ordered.\<close>

definition UserId_lt :: "UserId \<Rightarrow> UserId \<Rightarrow> bool" where
  "UserId_lt t u =
     (if mobile t < mobile u then True
      else if mobile t = mobile u \<and> app t < app u then True else False)"

instantiation UserId :: linorder
begin

definition less_UserId :: "UserId \<Rightarrow> UserId \<Rightarrow> bool" where
  "less_UserId = UserId_lt"

definition less_eq_UserId :: "UserId \<Rightarrow> UserId \<Rightarrow> bool" where
  "less_eq_UserId t u \<longleftrightarrow> t < u \<or> t = u"

instance
proof
  fix t u v :: UserId
  show "t < u \<longleftrightarrow> t \<le> u \<and> \<not> u \<le> t"
    by (auto simp: less_UserId_def UserId_lt_def less_eq_UserId_def)
  show "t \<le> t"
    by (simp add: less_eq_UserId_def)
  show "t \<le> u \<Longrightarrow> u \<le> v \<Longrightarrow> t \<le> v"
    by (auto simp: less_UserId_def UserId_lt_def less_eq_UserId_def split: if_splits)
  show "t \<le> u \<Longrightarrow> u \<le> t \<Longrightarrow> t = u"
    by (auto simp: less_UserId_def UserId_lt_def less_eq_UserId_def split: if_splits)
  show "t \<le> u \<or> u \<le> t"
    by (cases t; cases u) (auto simp: less_UserId_def UserId_lt_def less_eq_UserId_def)
qed

end

subsection \<open>Traffic estimates\<close>

definition Tcp_Ack_Len :: int where "Tcp_Ack_Len = 32 + 20"

definition TrafficEst :: "bool \<Rightarrow> int \<Rightarrow> int" where
  "TrafficEst accurate x =
     (if accurate then x + Tcp_Ack_Len * 2 + (sgn x * (\<bar>x\<bar> div 1394)) * Tcp_Ack_Len else x)"

definition Traffic_TCP_hss :: "bool \<Rightarrow> int" where
  "Traffic_TCP_hss accurate = (if accurate then 5 * Tcp_Ack_Len + 2 * 60 else 0)"

text \<open>On the \<^verbatim>\<open>int\<close> of the source, here a word: sums and products wrap. The quotient is the C quotient of a
  non-negative number.\<close>

definition TelecomTrafficPredict :: "u32 \<Rightarrow> u32" where
  "TelecomTrafficPredict tcplen =
     (let ack = word_of_int Tcp_Ack_Len in
      if sint tcplen \<le> 0 then tcplen + ack
      else tcplen + ack + word_of_int ((sint tcplen - 1) div 1388) * ack)"

text \<open>The segments a payload takes with 1388 bytes of room in each.\<close>

fun segments :: "nat \<Rightarrow> nat" where
  "segments n = (if n \<le> 1388 then 1 else 1 + segments (n - 1388))"

declare segments.simps [simp del]

lemma segments_div: "0 < n \<Longrightarrow> int (segments n) = 1 + (int n - 1) div 1388"
proof (induction n rule: segments.induct)
  case (1 n)
  show ?case
  proof (cases "n \<le> 1388")
    case True
    with 1 have "(int n - 1) div 1388 = 0" by simp
    with True show ?thesis by (simp add: segments.simps [of n])
  next
    case False
    then have "int (segments (n - 1388)) = 1 + (int n - 1 - 1388) div 1388"
      using 1 by (simp add: algebra_simps)
    also have "\<dots> = (int n - 1) div 1388"
      by simp
    finally show ?thesis
      using False by (simp add: segments.simps [of n])
  qed
qed

lemma sint_small: "0 \<le> k \<Longrightarrow> k < 2 ^ 31 \<Longrightarrow> sint (word_of_int k :: u32) = k"
  by (simp add: signed_of_int signed_take_bit_int_eq_self)

text \<open>C28: the billed size of a packet is its payload plus one 52-byte TCP/IP header for
  every segment of at most 1388 bytes that carries it (an empty packet is one segment), as long as that size
  fits the \<^verbatim>\<open>int\<close> it is computed in.\<close>

theorem predict_segments:
  assumes "n + 52 * segments n < 2 ^ 31"
  shows "sint (TelecomTrafficPredict (word_of_nat n)) = int n + 52 * int (segments n)"
proof -
  let ?w = "word_of_nat n :: u32" and ?k = "int n + 52 * int (segments n)"
  have w: "?w = word_of_int (int n)" by simp
  have n: "sint ?w = int n" unfolding w by (rule sint_small) (use assms in simp_all)
  have "TelecomTrafficPredict ?w = word_of_int ?k"
  proof (cases "n = 0")
    case True
    then show ?thesis by (simp add: TelecomTrafficPredict_def Tcp_Ack_Len_def segments.simps)
  next
    case False
    then have "?k = int n + 52 + (int n - 1) div 1388 * 52" using segments_div [of n] by simp
    then have "(word_of_int ?k :: u32) = word_of_int (int n) + 52 + word_of_int ((int n - 1) div 1388) * 52"
      by (simp only: wi_hom_syms) simp
    with False show ?thesis by (simp add: TelecomTrafficPredict_def Tcp_Ack_Len_def Let_def n)
  qed
  moreover have "?k < 2 ^ 31" using assms by simp
  ultimately show ?thesis using sint_small [of ?k] by simp
qed

theorem predict_segments_witness: "sint (TelecomTrafficPredict 3000) = 3000 + 52 * 3"
proof -
  have "segments 3000 = 3" by (simp add: segments.simps)
  then show ?thesis using predict_segments [of 3000] by simp
qed

end
