(* ===== verification/TmsState.thy ===== *)
theory TmsState
  imports RxConn Traffic
begin

text \<open>
  The state of the tms process: the objects on its heap (\<^verbatim>\<open>Connect\<close>, \<^verbatim>\<open>SCB\<close>, \<^verbatim>\<open>User\<close>) and the
  singletons \<^verbatim>\<open>ConnectMgr\<close>, \<^verbatim>\<open>SCBMgr\<close>, \<^verbatim>\<open>UserMgr\<close> and \<^verbatim>\<open>DnsCache\<close>. A pointer is an address;
  addresses are not reused, so a use after \<^verbatim>\<open>delete\<close> is always visible as a fault.
\<close>

subsection \<open>Objects\<close>

abbreviation (input) t_tunnel :: u8 where "t_tunnel \<equiv> 0"
abbreviation (input) t_agent :: u8 where "t_agent \<equiv> 1"
abbreviation (input) t_dns :: u8 where "t_dns \<equiv> 2"
abbreviation (input) t_center :: u8 where "t_center \<equiv> 3"
abbreviation (input) t_dpi :: u8 where "t_dpi \<equiv> 5"

abbreviation (input) sta_offline :: u8 where "sta_offline \<equiv> 0"
abbreviation (input) sta_online :: u8 where "sta_online \<equiv> 1"
abbreviation (input) sta_inprogress :: u8 where "sta_inprogress \<equiv> 2"
abbreviation (input) sta_hangup :: u8 where "sta_hangup \<equiv> 3"

abbreviation (input) u_invalid :: u8 where "u_invalid \<equiv> 0"
abbreviation (input) u_validated :: u8 where "u_validated \<equiv> 1"

abbreviation (input) sizeof_buff :: nat where "sizeof_buff \<equiv> 8192"
abbreviation (input) sizeof_token :: nat where "sizeof_token \<equiv> 32"

record Connect =
  c_sock_fd :: u64
  c_status :: u8
  c_type :: u8
  c_sdk_verified :: u8
  c_agent_status :: u8
  c_exit :: u8
  c_app :: u64
  c_mobile :: u64
  c_token :: bytes
  c_dest_port :: u16
  c_user :: ptr
  c_scb :: ptr
  c_curr_host :: bytes
  c_traffic_tmp :: u64
  c_begin_time :: timeval
  c_cstate :: Trans_stat
  c_h :: hdr_t
  c_stillneedtoread :: u16
  c_offset :: u16
  c_datalen :: u16
  c_buff :: bytes

text \<open>\<^verbatim>\<open>new Connect\<close>: the receive buffer is not initialised.\<close>

definition Connect_init :: "bytes \<Rightarrow> Connect" where
  "Connect_init junk =
     \<lparr>c_sock_fd = 0, c_status = 0, c_type = 0, c_sdk_verified = 0, c_agent_status = 0, c_exit = 0,
      c_app = 0, c_mobile = 0, c_token = replicate sizeof_token 0, c_dest_port = 80, c_user = 0,
      c_scb = 0, c_curr_host = [], c_traffic_tmp = 0, c_begin_time = (0, 0), c_cstate = s_header,
      c_h = hdr_init, c_stillneedtoread = 0, c_offset = 0, c_datalen = 0, c_buff = junk\<rparr>"

record SCB =
  s_scbid :: u64
  s_user :: ptr
  s_forward_id :: u64
  s_agent_fd :: u64
  s_tunn_fd :: u64
  s_traffic :: u64
  s_agent_conn :: ptr
  s_tunnel_conn :: ptr
  s_last_active_time :: timeval
  s_dest_port :: u16
  s_status :: u8
  s_recycled :: u8
  s_waiting_dns :: u8
  s_connected :: u8

definition SCB_init :: "u64 \<Rightarrow> SCB" where
  "SCB_init i =
     \<lparr>s_scbid = i, s_user = 0, s_forward_id = 0, s_agent_fd = 0, s_tunn_fd = 0, s_traffic = 0,
      s_agent_conn = 0, s_tunnel_conn = 0, s_last_active_time = (0, 0), s_dest_port = 80,
      s_status = 0, s_recycled = 0, s_waiting_dns = 0, s_connected = 0\<rparr>"

text \<open>\<^verbatim>\<open>SCB::Reset\<close>\<close>

definition SCB_Reset :: "SCB \<Rightarrow> SCB" where
  "SCB_Reset b = b
     \<lparr>s_scbid := 0, s_user := 0, s_agent_fd := 0, s_tunn_fd := 0, s_agent_conn := 0,
      s_tunnel_conn := 0, s_last_active_time := (0, 0), s_status := 0, s_recycled := 0,
      s_forward_id := 0, s_traffic := 0, s_dest_port := 0, s_connected := 0\<rparr>"

record User =
  u_mobile :: u64
  u_app :: u64
  u_forward_id :: u64
  u_traffic :: u64
  u_balance :: u64
  u_accu_start_time :: timeval
  u_host :: bytes
  u_status :: u8
  u_reporting :: u8
  u_con_report :: u16
  u_scb_tree :: "(u64, ptr) std_map"

definition User_init :: User where
  "User_init =
     \<lparr>u_mobile = 0, u_app = 0, u_forward_id = 0, u_traffic = 0, u_balance = 0,
      u_accu_start_time = (0x7FFFFFFFFFFFFFFF, 0x7FFFFFFFFFFFFFFF), u_host = replicate 256 0,
      u_status = 0, u_reporting = 0, u_con_report = 0, u_scb_tree = []\<rparr>"

record SCBWatchNode =
  w_scbid :: u64
  w_traffic :: u64
  w_scb :: ptr

subsection \<open>The process\<close>

type_synonym USCBId = "UserId \<times> u64"

record tms = os +
  build_accurate :: bool
  h_conns :: "ptr \<rightharpoonup> Connect"
  h_scbs :: "ptr \<rightharpoonup> SCB"
  h_users :: "ptr \<rightharpoonup> User"
  h_next :: ptr
  Epoll_FD :: u64
  ConnMap :: "(u64, ptr) std_map"
  DnsConnPool :: "ptr list"
  CenterConnPool :: "ptr list"
  DpiConnPool :: "ptr list"
  aval_pcb_id :: u64
  scb_free_list :: "ptr list"
  scb_watch_list :: "SCBWatchNode list"
  scb_expire_list :: "SCBWatchNode list"
  UserMap :: "(UserId, ptr) std_map"
  aval_forward_id :: u64
  ExpireList :: "ptr list list"
  Cache :: "(bytes, u32) std_map"
  waiting_scb :: "(bytes \<times> USCBId) list"
  expiring_scb :: "(u64 \<times> USCBId) list"

type_synonym 'a tmsprog = "(tms, 'a) prog"

subsection \<open>Access through pointers\<close>

abbreviation conn_at :: "ptr \<Rightarrow> Connect tmsprog" where "conn_at \<equiv> heap_get h_conns"
abbreviation scb_at :: "ptr \<Rightarrow> SCB tmsprog" where "scb_at \<equiv> heap_get h_scbs"
abbreviation user_at :: "ptr \<Rightarrow> User tmsprog" where "user_at \<equiv> heap_get h_users"

definition upd_conn :: "ptr \<Rightarrow> (Connect \<Rightarrow> Connect) \<Rightarrow> unit tmsprog" where
  "upd_conn p f = andThen (conn_at p) (\<lambda>c. modify (\<lambda>s. s\<lparr>h_conns := (h_conns s)(p \<mapsto> f c)\<rparr>))"

definition upd_scb :: "ptr \<Rightarrow> (SCB \<Rightarrow> SCB) \<Rightarrow> unit tmsprog" where
  "upd_scb p f = andThen (scb_at p) (\<lambda>b. modify (\<lambda>s. s\<lparr>h_scbs := (h_scbs s)(p \<mapsto> f b)\<rparr>))"

definition upd_user :: "ptr \<Rightarrow> (User \<Rightarrow> User) \<Rightarrow> unit tmsprog" where
  "upd_user p f = andThen (user_at p) (\<lambda>u. modify (\<lambda>s. s\<lparr>h_users := (h_users s)(p \<mapsto> f u)\<rparr>))"

text \<open>\<^verbatim>\<open>new\<close> takes the next address; the \<^verbatim>\<open>do ... while (p == nullptr)\<close> loops around it run once.\<close>

definition fresh :: "ptr tmsprog" where
  "fresh = (\<lambda>s. Inr (h_next s, s\<lparr>h_next := Suc (h_next s)\<rparr>))"

definition new_conn :: "ptr tmsprog" where
  "new_conn = andThen tick (\<lambda>n. andThen fresh (\<lambda>p.
     andThen (modify (\<lambda>s. s\<lparr>h_conns := (h_conns s)(p \<mapsto> Connect_init (os_junk s n))\<rparr>)) (\<lambda>_. ret p)))"

definition new_scb :: "u64 \<Rightarrow> ptr tmsprog" where
  "new_scb i = andThen fresh (\<lambda>p.
     andThen (modify (\<lambda>s. s\<lparr>h_scbs := (h_scbs s)(p \<mapsto> SCB_init i)\<rparr>)) (\<lambda>_. ret p))"

definition new_user :: "ptr tmsprog" where
  "new_user = andThen fresh (\<lambda>p.
     andThen (modify (\<lambda>s. s\<lparr>h_users := (h_users s)(p \<mapsto> User_init)\<rparr>)) (\<lambda>_. ret p))"

definition free_conn :: "ptr \<Rightarrow> unit tmsprog" where
  "free_conn p = modify (\<lambda>s. s\<lparr>h_conns := (h_conns s)(p := None)\<rparr>)"

abbreviation GetDnsConn :: "ptr tmsprog" where "GetDnsConn \<equiv> front_of DnsConnPool"
abbreviation GetCenterConn :: "ptr tmsprog" where "GetCenterConn \<equiv> front_of CenterConnPool"
abbreviation GetDpiConn :: "ptr tmsprog" where "GetDpiConn \<equiv> front_of DpiConnPool"

lemma upd_run [simp]:
  "p \<noteq> 0 \<Longrightarrow> h_conns s p = Some c \<Longrightarrow> upd_conn p f s = Inr ((), s\<lparr>h_conns := (h_conns s)(p \<mapsto> f c)\<rparr>)"
  "q \<noteq> 0 \<Longrightarrow> h_scbs s q = Some b \<Longrightarrow> upd_scb q g s = Inr ((), s\<lparr>h_scbs := (h_scbs s)(q \<mapsto> g b)\<rparr>)"
  "r \<noteq> 0 \<Longrightarrow> h_users s r = Some u \<Longrightarrow> upd_user r k s = Inr ((), s\<lparr>h_users := (h_users s)(r \<mapsto> k u)\<rparr>)"
  by (simp_all add: upd_conn_def upd_scb_def upd_user_def)

lemma upd_eq_Inr:
  "upd_conn p f s = Inr (x, s') \<longleftrightarrow>
     (\<exists>c. p \<noteq> 0 \<and> h_conns s p = Some c \<and> s' = s\<lparr>h_conns := (h_conns s)(p \<mapsto> f c)\<rparr>)"
  "upd_scb q g s = Inr (x, s') \<longleftrightarrow>
     (\<exists>b. q \<noteq> 0 \<and> h_scbs s q = Some b \<and> s' = s\<lparr>h_scbs := (h_scbs s)(q \<mapsto> g b)\<rparr>)"
  "upd_user r k s = Inr (x, s') \<longleftrightarrow>
     (\<exists>u. r \<noteq> 0 \<and> h_users s r = Some u \<and> s' = s\<lparr>h_users := (h_users s)(r \<mapsto> k u)\<rparr>)"
  by (auto simp: upd_conn_def upd_scb_def upd_user_def andThen_eq_Inr_iff)

lemma fresh_run [simp]: "fresh s = Inr (h_next s, s\<lparr>h_next := Suc (h_next s)\<rparr>)"
  by (simp add: fresh_def)

lemma new_conn_run [simp]:
  "new_conn s = Inr (h_next s,
     s\<lparr>os_tick := Suc (os_tick s), h_next := Suc (h_next s),
       h_conns := (h_conns s)(h_next s \<mapsto> Connect_init (os_junk s (os_tick s)))\<rparr>)"
  by (simp add: new_conn_def)

lemma new_scb_run [simp]:
  "new_scb i s = Inr (h_next s,
     s\<lparr>h_next := Suc (h_next s), h_scbs := (h_scbs s)(h_next s \<mapsto> SCB_init i)\<rparr>)"
  by (simp add: new_scb_def)

lemma new_user_run [simp]:
  "new_user s = Inr (h_next s,
     s\<lparr>h_next := Suc (h_next s), h_users := (h_users s)(h_next s \<mapsto> User_init)\<rparr>)"
  by (simp add: new_user_def)

lemma keeps_upd:
  "(\<And>s h. obs (s\<lparr>h_conns := h\<rparr>) = obs s) \<Longrightarrow> keeps obs (upd_conn p f)"
  "(\<And>s h. obs (s\<lparr>h_scbs := h\<rparr>) = obs s) \<Longrightarrow> keeps obs (upd_scb q g)"
  "(\<And>s h. obs (s\<lparr>h_users := h\<rparr>) = obs s) \<Longrightarrow> keeps obs (upd_user r k)"
  by (auto simp: keeps_def upd_eq_Inr)

subsection \<open>Start of the process\<close>

text \<open>The static objects before \<^verbatim>\<open>main\<close> runs; the \<^verbatim>\<open>DnsCache\<close> constructor enters three hosts.\<close>

definition DnsCache_init :: "(bytes \<Rightarrow> u32) \<Rightarrow> (bytes, u32) std_map" where
  "DnsCache_init inet_addr =
     map_set (ascii ''icloudata'') (htonl (inet_addr (ascii ''10.25.231.165'')))
    (map_set (ascii ''aliyuntest'') (htonl (inet_addr (ascii ''10.24.171.135'')))
    (map_set (ascii ''localhost'') (htonl (inet_addr (ascii ''127.0.0.1''))) []))"

definition tms_start :: "os \<Rightarrow> bool \<Rightarrow> tms" where
  "tms_start os b = os.extend os
     \<lparr>build_accurate = b, h_conns = Map.empty, h_scbs = Map.empty, h_users = Map.empty, h_next = 1,
      Epoll_FD = - 1, ConnMap = [], DnsConnPool = [], CenterConnPool = [], DpiConnPool = [],
      aval_pcb_id = 0, scb_free_list = [], scb_watch_list = [], scb_expire_list = [],
      UserMap = [], aval_forward_id = 1, ExpireList = replicate 5 [],
      Cache = DnsCache_init (os_inet_addr os), waiting_scb = [], expiring_scb = []\<rparr>"

text \<open>A concrete environment for examples: every call answers 0.\<close>

definition os_quiet :: os where
  "os_quiet = \<lparr>os_ret = \<lambda>_. 0, os_errno = \<lambda>_. 0, os_clock = \<lambda>_. (0, 0), os_peer = \<lambda>_. None,
     os_junk = \<lambda>_. replicate sizeof_buff 0, os_inet_addr = \<lambda>_. 0, os_tick = 0, os_log = []\<rparr>"

lemma tms_start_simps [simp]:
  "h_conns (tms_start os b) = Map.empty" "h_scbs (tms_start os b) = Map.empty"
  "h_users (tms_start os b) = Map.empty" "h_next (tms_start os b) = 1" "ConnMap (tms_start os b) = []"
  "UserMap (tms_start os b) = []" "scb_free_list (tms_start os b) = []"
  "scb_watch_list (tms_start os b) = []" "scb_expire_list (tms_start os b) = []"
  "waiting_scb (tms_start os b) = []" "expiring_scb (tms_start os b) = []"
  "aval_pcb_id (tms_start os b) = 0" "aval_forward_id (tms_start os b) = 1"
  "os_junk (tms_start os b) = os_junk os" "os_tick (tms_start os b) = os_tick os"
  "CenterConnPool (tms_start os b) = []" "DnsConnPool (tms_start os b) = []"
  "DpiConnPool (tms_start os b) = []" "build_accurate (tms_start os b) = b"
  by (simp_all add: tms_start_def os.defs)

lemma os_quiet_junk [simp]: "os_junk os_quiet n = replicate sizeof_buff 0"
  by (simp add: os_quiet_def)

text \<open>A small running process for examples: a client's tunnel (descriptor 5) with its agent
  connection (6), the connections to the traffic recorder (7), the name server (8) and the
  dpi (9), one stream and one user.\<close>

definition demo_conn :: "u64 \<Rightarrow> u8 \<Rightarrow> Connect" where
  "demo_conn fd ty = (Connect_init (replicate sizeof_buff 0))
     \<lparr>c_sock_fd := fd, c_type := ty, c_status := sta_online, c_stillneedtoread := 6\<rparr>"

definition demo :: tms where
  "demo = (tms_start os_quiet False)
     \<lparr>h_conns := [1 \<mapsto> (demo_conn 5 t_tunnel)\<lparr>c_user := 4, c_scb := 3, c_mobile := 100, c_app := 1\<rparr>,
                   2 \<mapsto> (demo_conn 6 t_agent)\<lparr>c_user := 4, c_scb := 3, c_cstate := s_forward,
                                               c_stillneedtoread := 8192\<rparr>,
                   5 \<mapsto> demo_conn 7 t_center, 6 \<mapsto> demo_conn 8 t_dns, 7 \<mapsto> demo_conn 9 t_dpi],
      h_scbs := [3 \<mapsto> (SCB_init 1)\<lparr>s_user := 4, s_tunnel_conn := 1, s_tunn_fd := 5,
                                      s_agent_conn := 2, s_agent_fd := 6\<rparr>],
      h_users := [4 \<mapsto> User_init\<lparr>u_mobile := 100, u_app := 1, u_scb_tree := [(1, 3)]\<rparr>],
      h_next := 8, Epoll_FD := 3,
      ConnMap := [(5, 1), (6, 2), (7, 5), (8, 6), (9, 7)],
      DnsConnPool := [6], CenterConnPool := [5], DpiConnPool := [7],
      UserMap := [(UserId 100 1, 4)], aval_pcb_id := 1\<rparr>"

end
