(* ===== verification/TmsInv.thy ===== *)
theory TmsInv
  imports TmsState
begin

text \<open>
  The well-formedness invariant of the tms process and its rules. \<open>tms_wf\<close> says that no live
  object and no manager table refers to freed memory through the pointers listed in it, that
  the connection table is keyed by the descriptors of live connections, and that a user with
  no outstanding report has no accumulated traffic. \<open>grows\<close> is what no operation undoes:
  stream control blocks and users are never freed, and an address that was handed out
  holds the connection it held before, with the same descriptor, or none.
\<close>

definition ref_scb :: "tms \<Rightarrow> ptr \<Rightarrow> bool" where
  "ref_scb s q \<longleftrightarrow> q = 0 \<or> h_scbs s q \<noteq> None"

definition ref_user :: "tms \<Rightarrow> ptr \<Rightarrow> bool" where
  "ref_user s q \<longleftrightarrow> q = 0 \<or> h_users s q \<noteq> None"

definition live_scb :: "tms \<Rightarrow> ptr \<Rightarrow> bool" where
  "live_scb s q \<longleftrightarrow> q \<noteq> 0 \<and> h_scbs s q \<noteq> None"

definition live_user :: "tms \<Rightarrow> ptr \<Rightarrow> bool" where
  "live_user s q \<longleftrightarrow> q \<noteq> 0 \<and> h_users s q \<noteq> None"

definition conn_ok :: "tms \<Rightarrow> Connect \<Rightarrow> bool" where
  "conn_ok s c \<longleftrightarrow> ref_scb s (c_scb c) \<and> ref_user s (c_user c)
     \<and> length (c_buff c) = sizeof_buff \<and> length (c_token c) = sizeof_token"

definition scb_ok :: "tms \<Rightarrow> SCB \<Rightarrow> bool" where
  "scb_ok s b \<longleftrightarrow> ref_user s (s_user b)"

definition user_ok :: "tms \<Rightarrow> User \<Rightarrow> bool" where
  "user_ok s u \<longleftrightarrow> (\<forall>e \<in> set (u_scb_tree u). live_scb s (snd e))
     \<and> (u_reporting u = 0 \<longrightarrow> u_traffic u = 0)"

definition heap_ok :: "tms \<Rightarrow> bool" where
  "heap_ok s \<longleftrightarrow> 0 < h_next s
     \<and> (\<forall>p c. h_conns s p = Some c \<longrightarrow> 0 < p \<and> p < h_next s \<and> conn_ok s c)
     \<and> (\<forall>p b. h_scbs s p = Some b \<longrightarrow> 0 < p \<and> p < h_next s \<and> scb_ok s b)
     \<and> (\<forall>p u. h_users s p = Some u \<longrightarrow> 0 < p \<and> p < h_next s \<and> user_ok s u)"

definition conn_map_ok :: "tms \<Rightarrow> bool" where
  "conn_map_ok s \<longleftrightarrow> map_wf (ConnMap s)
     \<and> (\<forall>e \<in> set (ConnMap s). \<exists>c. h_conns s (snd e) = Some c \<and> c_sock_fd c = fst e)"

definition user_map_ok :: "tms \<Rightarrow> bool" where
  "user_map_ok s \<longleftrightarrow> map_wf (UserMap s)
     \<and> (\<forall>e \<in> set (UserMap s). \<exists>u. h_users s (snd e) = Some u \<and> fst e = UserId (u_mobile u) (u_app u))"

definition lists_ok :: "tms \<Rightarrow> bool" where
  "lists_ok s \<longleftrightarrow> (\<forall>q \<in> set (scb_free_list s). live_scb s q)
     \<and> (\<forall>w \<in> set (scb_watch_list s) \<union> set (scb_expire_list s). live_scb s (w_scb w))
     \<and> mm_wf (waiting_scb s) \<and> mm_wf (expiring_scb s)"

definition tms_wf :: "tms \<Rightarrow> bool" where
  "tms_wf s \<longleftrightarrow> heap_ok s \<and> conn_map_ok s \<and> user_map_ok s \<and> lists_ok s
     \<and> (\<forall>n. length (os_junk s n) = sizeof_buff)"

definition grows :: "tms \<Rightarrow> tms \<Rightarrow> bool" where
  "grows s t \<longleftrightarrow> (\<forall>q. h_scbs s q \<noteq> None \<longrightarrow> h_scbs t q \<noteq> None)
     \<and> (\<forall>q. h_users s q \<noteq> None \<longrightarrow> h_users t q \<noteq> None) \<and> h_next s \<le> h_next t
     \<and> (\<forall>p c'. p < h_next s \<longrightarrow> h_conns t p = Some c' \<longrightarrow>
          (\<exists>c. h_conns s p = Some c \<and> c_sock_fd c' = c_sock_fd c))"

lemma growsD:
  assumes "grows s t"
  shows "h_scbs s q \<noteq> None \<Longrightarrow> h_scbs t q \<noteq> None" "h_users s r \<noteq> None \<Longrightarrow> h_users t r \<noteq> None"
    "h_next s \<le> h_next t"
    "p < h_next s \<Longrightarrow> h_conns t p = Some c' \<Longrightarrow> \<exists>c. h_conns s p = Some c \<and> c_sock_fd c' = c_sock_fd c"
  using assms by (simp_all add: grows_def)

interpretation tms: safe_steps tms_wf grows
proof
  show "grows s s" for s by (auto simp: grows_def)
  fix s t u
  assume st: "grows s t" and tu: "grows t u"
  have "\<exists>c. h_conns s p = Some c \<and> c_sock_fd c' = c_sock_fd c"
    if "p < h_next s" "h_conns u p = Some c'" for p c'
  proof -
    have "p < h_next t" using that(1) growsD(3) [OF st] by simp
    from growsD(4) [OF tu this that(2)] obtain d where "h_conns t p = Some d" "c_sock_fd c' = c_sock_fd d"
      by blast
    with growsD(4) [OF st that(1)] show ?thesis by fastforce
  qed
  then show "grows s u"
    using growsD(1-3) [OF st] growsD(1-3) [OF tu] unfolding grows_def by (meson order_trans)
qed

lemmas refs_defs = ref_scb_def ref_user_def live_scb_def live_user_def

lemma grows_refs:
  assumes "grows s t"
  shows "ref_scb s q \<Longrightarrow> ref_scb t q" "ref_user s q \<Longrightarrow> ref_user t q"
    "live_scb s q \<Longrightarrow> live_scb t q" "live_user s q \<Longrightarrow> live_user t q"
  using growsD(1,2) [OF assms, of q] by (auto simp: refs_defs)

lemma tms_wf_start: "\<forall>n. length (os_junk os n) = sizeof_buff \<Longrightarrow> tms_wf (tms_start os b)"
  by (simp add: tms_wf_def heap_ok_def conn_map_ok_def user_map_ok_def lists_ok_def map_wf_def mm_wf_def)

text \<open>The parts of the state that the invariant does not read.\<close>

lemma refs_frame [simp]:
  "ref_scb (s\<lparr>os_tick := n\<rparr>) q = ref_scb s q" "ref_user (s\<lparr>os_tick := n\<rparr>) q = ref_user s q"
  "ref_scb (s\<lparr>os_log := l\<rparr>) q = ref_scb s q" "ref_user (s\<lparr>os_log := l\<rparr>) q = ref_user s q"
  "ref_scb (s\<lparr>h_conns := h\<rparr>) q = ref_scb s q" "ref_user (s\<lparr>h_conns := h\<rparr>) q = ref_user s q"
  "ref_scb (s\<lparr>ConnMap := m\<rparr>) q = ref_scb s q" "ref_user (s\<lparr>ConnMap := m\<rparr>) q = ref_user s q"
  "live_scb (s\<lparr>os_tick := n\<rparr>) q = live_scb s q" "live_scb (s\<lparr>os_log := l\<rparr>) q = live_scb s q"
  "live_scb (s\<lparr>h_conns := h\<rparr>) q = live_scb s q" "live_scb (s\<lparr>ConnMap := m\<rparr>) q = live_scb s q"
  by (auto simp: refs_defs)

lemmas tms_wf_defs = tms_wf_def heap_ok_def conn_map_ok_def user_map_ok_def lists_ok_def
  conn_ok_def scb_ok_def user_ok_def

lemma wf_frame [simp]:
  "tms_wf (s\<lparr>os_tick := n\<rparr>) = tms_wf s" "tms_wf (s\<lparr>os_log := l\<rparr>) = tms_wf s"
  "tms_wf (s\<lparr>Epoll_FD := e\<rparr>) = tms_wf s" "tms_wf (s\<lparr>aval_pcb_id := i\<rparr>) = tms_wf s"
  "tms_wf (s\<lparr>aval_forward_id := i\<rparr>) = tms_wf s" "tms_wf (s\<lparr>ExpireList := el\<rparr>) = tms_wf s"
  "tms_wf (s\<lparr>Cache := ca\<rparr>) = tms_wf s" "tms_wf (s\<lparr>DnsConnPool := pl\<rparr>) = tms_wf s"
  "tms_wf (s\<lparr>CenterConnPool := pl\<rparr>) = tms_wf s" "tms_wf (s\<lparr>DpiConnPool := pl\<rparr>) = tms_wf s"
  by (simp_all add: tms_wf_defs refs_defs)

lemma grows_frame [simp]:
  "grows s (s\<lparr>os_tick := n\<rparr>)" "grows s (s\<lparr>os_log := l\<rparr>)" "grows s (s\<lparr>os_tick := n, os_log := l\<rparr>)"
  "grows s (s\<lparr>Epoll_FD := e\<rparr>)" "grows s (s\<lparr>aval_pcb_id := i\<rparr>)"
  "grows s (s\<lparr>aval_forward_id := i\<rparr>)" "grows s (s\<lparr>ExpireList := el\<rparr>)"
  "grows s (s\<lparr>Cache := ca\<rparr>)" "grows s (s\<lparr>DnsConnPool := pl\<rparr>)"
  "grows s (s\<lparr>CenterConnPool := pl\<rparr>)" "grows s (s\<lparr>DpiConnPool := pl\<rparr>)"
  "grows s (s\<lparr>ConnMap := m\<rparr>)" "grows s (s\<lparr>UserMap := um\<rparr>)"
  "grows s (s\<lparr>scb_free_list := fl\<rparr>)" "grows s (s\<lparr>scb_watch_list := wl\<rparr>)"
  "grows s (s\<lparr>scb_expire_list := xl\<rparr>)" "grows s (s\<lparr>waiting_scb := ww\<rparr>)"
  "grows s (s\<lparr>expiring_scb := xx\<rparr>)" "grows s s"
  by (simp_all add: grows_def)

lemma tms_wf_cong:
  assumes "h_conns t = h_conns s" "h_scbs t = h_scbs s" "h_users t = h_users s" "h_next t = h_next s"
    "ConnMap t = ConnMap s" "UserMap t = UserMap s" "scb_free_list t = scb_free_list s"
    "scb_watch_list t = scb_watch_list s" "scb_expire_list t = scb_expire_list s"
    "waiting_scb t = waiting_scb s" "expiring_scb t = expiring_scb s" "os_junk t = os_junk s"
  shows "tms_wf t = tms_wf s"
  using assms by (simp add: tms_wf_defs refs_defs)

lemma wf_heap:
  assumes "tms_wf s"
  shows "h_conns s p = Some c \<Longrightarrow> 0 < p \<and> p < h_next s \<and> conn_ok s c"
    "h_scbs s q = Some b \<Longrightarrow> 0 < q \<and> q < h_next s \<and> scb_ok s b"
    "h_users s r = Some u \<Longrightarrow> 0 < r \<and> r < h_next s \<and> user_ok s u"
  using assms unfolding tms_wf_def heap_ok_def by blast+

lemma wf_ConnMap:
  assumes "tms_wf s" "map_find fd (ConnMap s) = Some p"
  obtains c where "h_conns s p = Some c" "c_sock_fd c = fd" "p \<noteq> 0" "conn_ok s c"
proof -
  from assms(2) have "(fd, p) \<in> set (ConnMap s)" by (rule map_find_SomeD)
  with assms(1) obtain c where "h_conns s p = Some c" "c_sock_fd c = fd"
    unfolding tms_wf_def conn_map_ok_def by force
  with wf_heap(1) [OF assms(1) this(1)] that show thesis by simp
qed

lemma wf_UserMap:
  assumes "tms_wf s" "map_find i (UserMap s) = Some p"
  obtains u where "h_users s p = Some u" "i = UserId (u_mobile u) (u_app u)" "p \<noteq> 0" "user_ok s u"
proof -
  from assms(2) have "(i, p) \<in> set (UserMap s)" by (rule map_find_SomeD)
  with assms(1) obtain u where "h_users s p = Some u" "i = UserId (u_mobile u) (u_app u)"
    unfolding tms_wf_def user_map_ok_def by force
  with wf_heap(3) [OF assms(1) this(1)] that show thesis by simp
qed


subsection \<open>Primitive operations\<close>

lemma ok_heap_get: "tms.ok (heap_get h p) s"
  by (rule tms.okI) auto

lemma ok_front_of: "tms.ok (front_of f) s"
  by (rule tms.okI) auto

lemma ok_sys:
  "tms.ok tick s" "tms.ok (emit e) s" "tms.ok (answer lo hi) s" "tms.ok (sys_send fd bs) s"
  "tms.ok (sys_close fd) s" "tms.ok (sys_shutdown fd) s" "tms.ok sys_fd s"
  "tms.ok (sys_connect fd ip port) s" "tms.ok (sys_epoll e) s" "tms.ok gettimeofday s"
  "tms.ok getpeername s" "tms.ok get_errno s" "tms.ok sys_random s"
  by (rule tms.okI; auto)+

lemma ok_upd_conn:
  assumes "\<And>c. tms_wf s \<Longrightarrow> h_conns s p = Some c \<Longrightarrow> conn_ok s c \<Longrightarrow> conn_ok s (f c) \<and> c_sock_fd (f c) = c_sock_fd c"
  shows "tms.ok (upd_conn p f) s"
proof (rule tms.okI)
  fix x s'
  assume wf: "tms_wf s" and "upd_conn p f s = Inr (x, s')"
  then obtain c where c: "h_conns s p = Some c" and s': "s' = s\<lparr>h_conns := (h_conns s)(p \<mapsto> f c)\<rparr>"
    by (auto simp: upd_eq_Inr)
  have f: "conn_ok s (f c)" "c_sock_fd (f c) = c_sock_fd c"
    using assms [OF wf c] wf_heap(1) [OF wf c] by auto
  have "conn_map_ok s'"
    using wf c f by (fastforce simp: tms_wf_def conn_map_ok_def s')
  with wf c f(1) have "tms_wf s'"
    unfolding tms_wf_def heap_ok_def user_map_ok_def lists_ok_def
    by (simp add: conn_ok_def scb_ok_def user_ok_def s')
  moreover have "grows s s'"
    using c f(2) by (simp add: grows_def s')
  ultimately show "tms_wf s' \<and> grows s s'" by (rule conjI)
qed

lemma ok_upd_scb:
  assumes "\<And>b. tms_wf s \<Longrightarrow> h_scbs s p = Some b \<Longrightarrow> scb_ok s b \<Longrightarrow> scb_ok s (f b)"
  shows "tms.ok (upd_scb p f) s"
proof (rule tms.okI)
  fix x s'
  assume wf: "tms_wf s" and "upd_scb p f s = Inr (x, s')"
  then obtain b where b: "h_scbs s p = Some b" and s': "s' = s\<lparr>h_scbs := (h_scbs s)(p \<mapsto> f b)\<rparr>"
    by (auto simp: upd_eq_Inr)
  have refs: "ref_scb s' = ref_scb s" "ref_user s' = ref_user s" "live_scb s' = live_scb s"
    using b by (auto simp: fun_eq_iff refs_defs s')
  have "scb_ok s (f b)"
    using assms [OF wf b] wf_heap(2) [OF wf b] by auto
  with wf b show "tms_wf s' \<and> grows s s'"
    unfolding tms_wf_def heap_ok_def conn_map_ok_def user_map_ok_def lists_ok_def conn_ok_def scb_ok_def
      user_ok_def refs
    by (simp add: s' grows_def)
qed

lemma ok_upd_user:
  assumes "\<And>u. tms_wf s \<Longrightarrow> h_users s p = Some u \<Longrightarrow> user_ok s u \<Longrightarrow>
    user_ok s (f u) \<and> u_mobile (f u) = u_mobile u \<and> u_app (f u) = u_app u"
  shows "tms.ok (upd_user p f) s"
proof (rule tms.okI)
  fix x s'
  assume wf: "tms_wf s" and "upd_user p f s = Inr (x, s')"
  then obtain u where u: "h_users s p = Some u" and s': "s' = s\<lparr>h_users := (h_users s)(p \<mapsto> f u)\<rparr>"
    by (auto simp: upd_eq_Inr)
  have refs: "ref_scb s' = ref_scb s" "ref_user s' = ref_user s" "live_scb s' = live_scb s"
    using u by (auto simp: fun_eq_iff refs_defs s')
  have f: "user_ok s (f u)" "u_mobile (f u) = u_mobile u" "u_app (f u) = u_app u"
    using assms [OF wf u] wf_heap(3) [OF wf u] by auto
  have "user_map_ok s'"
    using wf u f by (fastforce simp: tms_wf_def user_map_ok_def s')
  with wf u f(1) show "tms_wf s' \<and> grows s s'"
    unfolding tms_wf_def heap_ok_def conn_map_ok_def lists_ok_def conn_ok_def scb_ok_def
      user_ok_def refs
    by (simp add: s' grows_def)
qed

text \<open>Allocation: the next address is not in use.\<close>

lemma wf_next_free: "tms_wf s \<Longrightarrow> h_conns s (h_next s) = None \<and> h_scbs s (h_next s) = None \<and> h_users s (h_next s) = None"
  using wf_heap [of s] by (metis less_irrefl not_None_eq)

lemma grows_wf_user_ok: "grows s t \<Longrightarrow> user_ok s u \<Longrightarrow> user_ok t u"
  by (auto simp: user_ok_def dest: grows_refs)

lemma grows_conn_ok: "grows s t \<Longrightarrow> conn_ok s c \<Longrightarrow> conn_ok t c"
  by (auto simp: conn_ok_def dest: grows_refs)

lemma grows_scb_ok: "grows s t \<Longrightarrow> scb_ok s b \<Longrightarrow> scb_ok t b"
  by (auto simp: scb_ok_def dest: grows_refs)

lemma grows_lists_ok:
  assumes "grows s t" "lists_ok s" "scb_free_list t = scb_free_list s"
    "scb_watch_list t = scb_watch_list s" "scb_expire_list t = scb_expire_list s"
    "waiting_scb t = waiting_scb s" "expiring_scb t = expiring_scb s"
  shows "lists_ok t"
  using assms by (auto simp: lists_ok_def dest: grows_refs)

text \<open>A step to a larger heap in which old objects are as before keeps the invariant.\<close>

lemma wf_extend:
  assumes wf: "tms_wf s" and g: "grows s t"
    and conns: "\<And>p c. h_conns t p = Some c \<Longrightarrow> h_conns s p = Some c \<or> (p = h_next s \<and> p < h_next t \<and> conn_ok t c)"
    and scbs: "\<And>p c. h_scbs t p = Some c \<Longrightarrow> h_scbs s p = Some c \<or> (p = h_next s \<and> p < h_next t \<and> scb_ok t c)"
    and users: "\<And>p c. h_users t p = Some c \<Longrightarrow> h_users s p = Some c \<or> (p = h_next s \<and> p < h_next t \<and> user_ok t c)"
    and keep: "\<And>p c. h_conns s p = Some c \<Longrightarrow> h_conns t p = Some c" "\<And>p c. h_users s p = Some c \<Longrightarrow> h_users t p = Some c"
    and tabs: "ConnMap t = ConnMap s" "UserMap t = UserMap s" "lists_ok t" "os_junk t = os_junk s"
  shows "tms_wf t"
proof -
  have n: "0 < h_next s" "h_next s \<le> h_next t"
    using wf growsD(3) [OF g] by (auto simp: tms_wf_def heap_ok_def)
  have "0 < p \<and> p < h_next t \<and> conn_ok t c" if "h_conns t p = Some c" for p c
    using conns [OF that] wf_heap(1) [OF wf, of p c] n grows_conn_ok [OF g, of c] by auto
  moreover have "0 < p \<and> p < h_next t \<and> scb_ok t b" if "h_scbs t p = Some b" for p b
    using scbs [OF that] wf_heap(2) [OF wf, of p b] n grows_scb_ok [OF g, of b] by auto
  moreover have "0 < p \<and> p < h_next t \<and> user_ok t u" if "h_users t p = Some u" for p u
    using users [OF that] wf_heap(3) [OF wf, of p u] n grows_wf_user_ok [OF g, of u] by auto
  ultimately have "heap_ok t"
    using n by (simp add: heap_ok_def)
  moreover have "conn_map_ok t"
    using wf keep(1) tabs(1) by (fastforce simp: tms_wf_def conn_map_ok_def)
  moreover have "user_map_ok t"
    using wf keep(2) tabs(2) by (fastforce simp: tms_wf_def user_map_ok_def)
  ultimately show ?thesis
    using wf tabs by (simp add: tms_wf_def)
qed

lemma wf_new_conn:
  assumes wf: "tms_wf s" and x: "conn_ok s x"
  shows "tms_wf (s\<lparr>h_next := Suc (h_next s), h_conns := (h_conns s)(h_next s \<mapsto> x)\<rparr>)"
    and "grows s (s\<lparr>h_next := Suc (h_next s), h_conns := (h_conns s)(h_next s \<mapsto> x)\<rparr>)"
proof -
  let ?s = "s\<lparr>h_next := Suc (h_next s), h_conns := (h_conns s)(h_next s \<mapsto> x)\<rparr>"
  show g: "grows s ?s" by (simp add: grows_def)
  have o: "conn_ok ?s x"
    using g x by (rule grows_conn_ok)
  have l: "lists_ok ?s"
    by (rule grows_lists_ok [OF g]) (use wf in \<open>simp_all add: tms_wf_def\<close>)
  show "tms_wf ?s"
    apply (rule wf_extend [OF wf g])
    subgoal using o by (auto split: if_splits)
    subgoal by simp
    subgoal by simp
    subgoal using wf_next_free [OF wf] by auto
    subgoal using wf_next_free [OF wf] by auto
    subgoal by simp
    subgoal by simp
    subgoal by (rule l)
    subgoal by simp
    done
qed

lemma conn_ok_init: "tms_wf s \<Longrightarrow> conn_ok s (Connect_init (os_junk s n))"
  by (simp add: conn_ok_def Connect_init_def refs_defs tms_wf_def)

lemma ok_new_scb: "tms.ok (new_scb i) s"
proof (rule tms.ok_run [OF new_scb_run])
  let ?s = "s\<lparr>h_next := Suc (h_next s), h_scbs := (h_scbs s)(h_next s \<mapsto> SCB_init i)\<rparr>"
  assume wf: "tms_wf s"
  have g: "grows s ?s" by (simp add: grows_def)
  have o: "scb_ok ?s (SCB_init i)"
    using wf by (simp add: scb_ok_def SCB_init_def refs_defs)
  have l: "lists_ok ?s"
    by (rule grows_lists_ok [OF g]) (use wf in \<open>simp_all add: tms_wf_def\<close>)
  have "tms_wf ?s"
    apply (rule wf_extend [OF wf g])
    subgoal by simp
    subgoal using o by (auto split: if_splits)
    subgoal by simp
    subgoal using wf_next_free [OF wf] by auto
    subgoal using wf_next_free [OF wf] by auto
    subgoal by simp
    subgoal by simp
    subgoal by (rule l)
    subgoal by simp
    done
  then show "tms_wf ?s \<and> grows s ?s" using g by (rule conjI)
qed

lemma wf_new_user:
  assumes wf: "tms_wf s" and x: "user_ok s x"
  shows "tms_wf (s\<lparr>h_next := Suc (h_next s), h_users := (h_users s)(h_next s \<mapsto> x)\<rparr>)"
    and "grows s (s\<lparr>h_next := Suc (h_next s), h_users := (h_users s)(h_next s \<mapsto> x)\<rparr>)"
proof -
  let ?s = "s\<lparr>h_next := Suc (h_next s), h_users := (h_users s)(h_next s \<mapsto> x)\<rparr>"
  show g: "grows s ?s" by (simp add: grows_def)
  have o: "user_ok ?s x"
    using g x by (rule grows_wf_user_ok)
  have l: "lists_ok ?s"
    by (rule grows_lists_ok [OF g]) (use wf in \<open>simp_all add: tms_wf_def\<close>)
  show "tms_wf ?s"
    apply (rule wf_extend [OF wf g])
    subgoal by simp
    subgoal by simp
    subgoal using o by (auto split: if_splits)
    subgoal using wf_next_free [OF wf] by auto
    subgoal using wf_next_free [OF wf] by auto
    subgoal by simp
    subgoal by simp
    subgoal by (rule l)
    subgoal by simp
    done
qed

lemma ok_new_user: "tms.ok new_user s"
  by (rule tms.ok_run [OF new_user_run]) (auto intro!: wf_new_user simp: user_ok_def User_init_def)

lemma wf_UserMap_insert:
  assumes wf: "tms_wf s" and u: "h_users s p = Some u" "i = UserId (u_mobile u) (u_app u)"
  shows "tms_wf (s\<lparr>UserMap := map_insert i p (UserMap s)\<rparr>)"
proof -
  have "map_wf (map_insert i p (UserMap s))"
    using wf by (simp add: tms_wf_def user_map_ok_def map_wf_insert)
  moreover have "\<forall>e \<in> set (map_insert i p (UserMap s)). \<exists>u. h_users s (snd e) = Some u \<and> fst e = UserId (u_mobile u) (u_app u)"
    using wf u set_map_insert [of i p "UserMap s"] by (fastforce simp: tms_wf_def user_map_ok_def)
  ultimately show ?thesis
    using wf by (simp add: tms_wf_def heap_ok_def conn_map_ok_def user_map_ok_def lists_ok_def
      conn_ok_def scb_ok_def user_ok_def refs_defs)
qed

text \<open>Tables: the connection table, its pools and the lists.\<close>

lemma ok_ConnMap_update:
  assumes "tms_wf s \<Longrightarrow> map_wf (f (ConnMap s))"
    and "tms_wf s \<Longrightarrow> \<forall>e \<in> set (f (ConnMap s)). \<exists>c. h_conns s (snd e) = Some c \<and> c_sock_fd c = fst e"
  shows "tms.ok (modify (\<lambda>s. s\<lparr>ConnMap := f (ConnMap s)\<rparr>)) s"
  by (rule tms.ok_modify)
    (use assms in \<open>simp add: tms_wf_def heap_ok_def conn_map_ok_def user_map_ok_def lists_ok_def
      conn_ok_def scb_ok_def user_ok_def refs_defs grows_def\<close>)

lemma ok_ConnMap_set:
  assumes "tms_wf s \<Longrightarrow> \<exists>c. h_conns s p = Some c \<and> c_sock_fd c = fd"
  shows "tms.ok (modify (\<lambda>s. s\<lparr>ConnMap := map_set fd p (ConnMap s)\<rparr>)) s"
proof (rule ok_ConnMap_update)
  assume wf: "tms_wf s"
  then show "map_wf (map_set fd p (ConnMap s))"
    by (simp add: tms_wf_def conn_map_ok_def map_wf_set)
  show "\<forall>e \<in> set (map_set fd p (ConnMap s)). \<exists>c. h_conns s (snd e) = Some c \<and> c_sock_fd c = fst e"
    using wf assms [OF wf] set_map_set [of fd p "ConnMap s"]
    by (fastforce simp: tms_wf_def conn_map_ok_def)
qed

lemma wf_ConnMap_set:
  assumes "tms_wf s" "h_conns s p = Some c" "c_sock_fd c = fd"
  shows "tms_wf (s\<lparr>ConnMap := map_set fd p (ConnMap s)\<rparr>)"
  using tms.okD [OF ok_ConnMap_set assms(1), of p fd] assms by auto

lemma ok_ConnMap_erase: "tms.ok (modify (\<lambda>s. s\<lparr>ConnMap := map_erase fd (ConnMap s)\<rparr>)) s"
  by (rule ok_ConnMap_update) (auto simp: tms_wf_def conn_map_ok_def map_wf_erase set_map_erase)

lemma ok_pools:
  "tms.ok (modify (\<lambda>s. s\<lparr>DnsConnPool := f s\<rparr>)) s" "tms.ok (modify (\<lambda>s. s\<lparr>CenterConnPool := f s\<rparr>)) s"
  "tms.ok (modify (\<lambda>s. s\<lparr>DpiConnPool := f s\<rparr>)) s" "tms.ok (modify (\<lambda>s. s\<lparr>aval_pcb_id := g s\<rparr>)) s"
  "tms.ok (modify (\<lambda>s. s\<lparr>aval_forward_id := g s\<rparr>)) s" "tms.ok (modify (\<lambda>s. s\<lparr>Cache := k s\<rparr>)) s"
  "tms.ok (modify (\<lambda>s. s\<lparr>ExpireList := e s\<rparr>)) s" "tms.ok (modify (\<lambda>s. s\<lparr>Epoll_FD := g s\<rparr>)) s"
  by (rule tms.ok_modify; simp add: tms_wf_defs refs_defs grows_def)+

lemma ok_free_list:
  assumes "tms_wf s \<Longrightarrow> \<forall>q \<in> set (f s). live_scb s q"
  shows "tms.ok (modify (\<lambda>s. s\<lparr>scb_free_list := f s\<rparr>)) s"
proof (rule tms.ok_modify)
  assume wf: "tms_wf s"
  have "lists_ok (s\<lparr>scb_free_list := f s\<rparr>)"
    using assms [OF wf] wf by (simp add: tms_wf_def lists_ok_def live_scb_def)
  with wf show "tms_wf (s\<lparr>scb_free_list := f s\<rparr>) \<and> grows s (s\<lparr>scb_free_list := f s\<rparr>)"
    by (simp add: tms_wf_def heap_ok_def conn_map_ok_def user_map_ok_def
      conn_ok_def scb_ok_def user_ok_def refs_defs grows_def)
qed

text \<open>A connection may be freed once the table no longer has an entry for its descriptor.\<close>

lemma wf_free_conn:
  assumes "tms_wf s" and "\<And>fd. map_find fd (ConnMap s) \<noteq> Some p"
  shows "tms_wf (s\<lparr>h_conns := (h_conns s)(p := None)\<rparr>)"
proof -
  have "\<forall>e \<in> set (ConnMap s). snd e \<noteq> p"
    using assms map_find_iff [of "ConnMap s"] by (auto simp: tms_wf_def conn_map_ok_def)
  with assms(1) show ?thesis
    unfolding tms_wf_def heap_ok_def conn_map_ok_def user_map_ok_def lists_ok_def
    by (simp add: conn_ok_def scb_ok_def user_ok_def)
qed

lemmas tms_ok = ok_heap_get ok_front_of ok_sys ok_new_scb ok_new_user ok_ConnMap_erase
  ok_pools tms.ok_intros

lemma tms_wf_demo: "tms_wf demo"
  by (auto simp: tms_wf_def demo_def demo_conn_def heap_ok_def conn_map_ok_def user_map_ok_def
      lists_ok_def conn_ok_def scb_ok_def user_ok_def refs_defs map_wf_def mm_wf_def
      Connect_init_def SCB_init_def User_init_def split: if_splits)

end
