(* ===== verification/Scb.thy ===== *)
theory Scb
  imports TmsInv
begin

text \<open>
  \<^verbatim>\<open>SCBMgr\<close> (\<^verbatim>\<open>SCB.h\<close>): allocation of stream control blocks from a free list, and the scan
  of the watch list. Blocks are recycled, never freed.
\<close>

definition NewSCB :: "ptr tmsprog" where
  "NewSCB = andThen (gets scb_free_list) (\<lambda>fl. case fl of
      scb # rest \<Rightarrow>
        andThen (modify (\<lambda>s. s\<lparr>scb_free_list := tl (scb_free_list s)\<rparr>)) (\<lambda>_.
        andThen (modify (\<lambda>s. s\<lparr>aval_pcb_id := aval_pcb_id s + 1\<rparr>)) (\<lambda>_.
        andThen (gets aval_pcb_id) (\<lambda>i.
        andThen (upd_scb scb (\<lambda>b. b\<lparr>s_scbid := i\<rparr>)) (\<lambda>_. ret scb))))
    | [] \<Rightarrow>
        andThen (modify (\<lambda>s. s\<lparr>aval_pcb_id := aval_pcb_id s + 1\<rparr>)) (\<lambda>_.
        andThen (gets aval_pcb_id) (\<lambda>i. new_scb i)))"

definition RecycleSCB :: "ptr \<Rightarrow> unit tmsprog" where
  "RecycleSCB q =
     andThen (upd_scb q SCB_Reset) (\<lambda>_. modify (\<lambda>s. s\<lparr>scb_free_list := scb_free_list s @ [q]\<rparr>))"

text \<open>\<^verbatim>\<open>SCBWatchScan\<close>: the first loop erases nodes from the list in place, the second drains
  the queue.\<close>

fun watch_pass :: "SCBWatchNode list \<Rightarrow> SCBWatchNode list tmsprog" where
  "watch_pass [] = ret []"
| "watch_pass (n # ns) = andThen (scb_at (w_scb n)) (\<lambda>b.
     if w_scbid n = s_scbid b then
       if w_traffic n = s_traffic b then
         andThen (modify (\<lambda>s. s\<lparr>scb_expire_list := scb_expire_list s @ [n]\<rparr>)) (\<lambda>_. watch_pass ns)
       else andThen (watch_pass ns) (\<lambda>k. ret (n # k))
     else watch_pass ns)"

definition expire_node :: "SCBWatchNode \<Rightarrow> unit tmsprog" where
  "expire_node w = andThen (scb_at (w_scb w)) (\<lambda>b.
     andThen (if w_scbid w = s_scbid b then
                if w_traffic w = s_traffic b then ret ()
                else modify (\<lambda>s. s\<lparr>scb_watch_list := scb_watch_list s @ [w]\<rparr>)
              else ret ())
       (\<lambda>_. modify (\<lambda>s. s\<lparr>scb_expire_list := tl (scb_expire_list s)\<rparr>)))"

definition SCBWatchScan :: "int tmsprog" where
  "SCBWatchScan =
     andThen (gets scb_watch_list) (\<lambda>ns.
     andThen (watch_pass ns) (\<lambda>k.
     andThen (modify (\<lambda>s. s\<lparr>scb_watch_list := k\<rparr>)) (\<lambda>_.
     andThen (gets scb_expire_list) (\<lambda>xs.
     andThen (foreach xs expire_node) (\<lambda>_. ret 0)))))"

subsection \<open>Allocation\<close>

lemma ok_NewSCB: "tms.ok NewSCB s"
  unfolding NewSCB_def
  by (intro tms.ok_andThen tms_ok)
    (auto intro!: tms.ok_andThen tms_ok ok_free_list ok_upd_scb
      simp: scb_ok_def tms_wf_def lists_ok_def split: list.splits dest: list.set_sel(2))

lemma NewSCB_live:
  assumes "tms_wf s" "NewSCB s = Inr (q, s')"
  shows "live_scb s' q"
proof (cases "scb_free_list s")
  case Nil
  with assms have "q = h_next s \<and> h_scbs s' q \<noteq> None"
    by (auto simp: NewSCB_def)
  with assms(1) show ?thesis by (auto simp: live_scb_def tms_wf_def heap_ok_def)
next
  case (Cons a l)
  with assms(1) have "live_scb s a"
    by (simp add: tms_wf_def lists_ok_def)
  with Cons assms(2) show ?thesis
    by (auto simp: NewSCB_def live_scb_def)
qed

text \<open>Ids handed out so far are at most the counter.\<close>

definition scb_ids_ok :: "tms \<Rightarrow> bool" where
  "scb_ids_ok s \<longleftrightarrow> (\<forall>q b. h_scbs s q = Some b \<longrightarrow> s_scbid b \<le> aval_pcb_id s)"

lemma ok_RecycleSCB: "tms.ok (RecycleSCB q) s"
  unfolding RecycleSCB_def
  by (intro tms.ok_andThen ok_upd_scb ok_free_list)
    (auto simp: scb_ok_def SCB_Reset_def refs_defs tms_wf_def lists_ok_def upd_eq_Inr)

text \<open>C20: \<^verbatim>\<open>NewSCB\<close> always succeeds on a well-formed state, and the identifier of the block
  it returns is the identifier of no other block, until the 64-bit counter is exhausted.\<close>

theorem NewSCB_unique_id:
  assumes wf: "tms_wf s" and ids: "scb_ids_ok s" and more: "aval_pcb_id s \<noteq> - 1"
  shows "\<exists>q s' b. NewSCB s = Inr (q, s') \<and> h_scbs s' q = Some b \<and> s_scbid b \<noteq> 0
    \<and> (\<forall>p a. h_scbs s' p = Some a \<and> s_scbid a = s_scbid b \<longrightarrow> p = q) \<and> scb_ids_ok s' \<and> tms_wf s'"
proof -
  note lt = less_add_one_word [OF more]
  obtain q s' where run: "NewSCB s = Inr (q, s')"
    and s': "aval_pcb_id s' = aval_pcb_id s + 1"
      "\<exists>b. h_scbs s' = (h_scbs s)(q \<mapsto> b) \<and> s_scbid b = aval_pcb_id s + 1"
  proof (cases "scb_free_list s")
    case Nil
    then show thesis
      by (intro that) (auto simp: NewSCB_def SCB_init_def)
  next
    case (Cons q l)
    with wf obtain b where "q \<noteq> 0" "h_scbs s q = Some b"
      by (auto simp: tms_wf_def lists_ok_def live_scb_def)
    with Cons show thesis
      by (intro that) (auto simp: NewSCB_def)
  qed
  then obtain b where b: "h_scbs s' = (h_scbs s)(q \<mapsto> b)" "s_scbid b = aval_pcb_id s + 1"
    by blast
  have old: "s_scbid a < aval_pcb_id s + 1" if "h_scbs s p = Some a" for p a
    using ids that lt by (auto simp: scb_ids_ok_def)
  then have "scb_ids_ok s'"
    using b s'(1) by (auto simp: scb_ids_ok_def less_imp_le)
  moreover have "tms_wf s'"
    using tms.okD [OF ok_NewSCB wf run] by simp
  moreover have "s_scbid b \<noteq> 0"
    using b(2) more by (simp add: add_eq_0_iff2)
  ultimately show ?thesis
    using run b old by (fastforce split: if_splits)
qed

theorem NewSCB_unique_id_witness:
  "\<exists>q s' b. NewSCB (tms_start os_quiet False) = Inr (q, s') \<and> h_scbs s' q = Some b \<and> s_scbid b \<noteq> 0"
proof -
  let ?s = "tms_start os_quiet False"
  have "tms_wf ?s" "scb_ids_ok ?s" "aval_pcb_id ?s \<noteq> - 1"
    by (simp_all add: tms_wf_start scb_ids_ok_def)
  from NewSCB_unique_id [OF this] show ?thesis by blast
qed

subsection \<open>The watch list\<close>

definition watch_keep :: "tms \<Rightarrow> SCBWatchNode \<Rightarrow> bool" where
  "watch_keep s n = (case h_scbs s (w_scb n) of None \<Rightarrow> False
     | Some b \<Rightarrow> w_scbid n = s_scbid b \<and> w_traffic n \<noteq> s_traffic b)"

definition watch_idle :: "tms \<Rightarrow> SCBWatchNode \<Rightarrow> bool" where
  "watch_idle s n = (case h_scbs s (w_scb n) of None \<Rightarrow> False
     | Some b \<Rightarrow> w_scbid n = s_scbid b \<and> w_traffic n = s_traffic b)"

lemma watch_frame [simp]:
  "watch_keep (s\<lparr>scb_watch_list := w\<rparr>) = watch_keep s" "watch_keep (s\<lparr>scb_expire_list := x\<rparr>) = watch_keep s"
  "watch_idle (s\<lparr>scb_watch_list := w\<rparr>) = watch_idle s" "watch_idle (s\<lparr>scb_expire_list := x\<rparr>) = watch_idle s"
  "live_scb (s\<lparr>scb_watch_list := w\<rparr>) = live_scb s" "live_scb (s\<lparr>scb_expire_list := x\<rparr>) = live_scb s"
  by (auto simp: watch_keep_def watch_idle_def live_scb_def fun_eq_iff)

lemma watch_pass_run:
  "\<forall>n \<in> set ns. live_scb s (w_scb n) \<Longrightarrow>
   watch_pass ns s = Inr (filter (watch_keep s) ns,
     s\<lparr>scb_expire_list := scb_expire_list s @ filter (watch_idle s) ns\<rparr>)"
proof (induction ns arbitrary: s)
  case Nil
  show ?case by simp
next
  case (Cons n ns)
  then obtain b where b: "w_scb n \<noteq> 0" "h_scbs s (w_scb n) = Some b"
    by (auto simp: live_scb_def)
  have sub: "\<forall>n \<in> set ns. live_scb (s\<lparr>scb_expire_list := x\<rparr>) (w_scb n)" for x
    using Cons.prems by simp
  from b show ?case
    using Cons.IH [of s] Cons.IH [OF sub] Cons.prems
    by (simp add: watch_keep_def watch_idle_def)
qed

lemma expire_pass_run:
  "\<forall>n \<in> set xs. live_scb s (w_scb n) \<Longrightarrow> scb_expire_list s = xs @ r \<Longrightarrow>
   foreach xs expire_node s = Inr ((),
     s\<lparr>scb_expire_list := r, scb_watch_list := scb_watch_list s @ filter (watch_keep s) xs\<rparr>)"
proof (induction xs arbitrary: s)
  case Nil
  then show ?case by simp
next
  case (Cons n ns)
  then obtain b where b: "w_scb n \<noteq> 0" "h_scbs s (w_scb n) = Some b"
    by (auto simp: live_scb_def)
  let ?w = "scb_watch_list s @ (if watch_keep s n then [n] else [])"
  let ?s = "s\<lparr>scb_expire_list := ns @ r, scb_watch_list := ?w\<rparr>"
  have "expire_node n s = Inr ((), ?s)"
    using b Cons.prems(2) by (simp add: expire_node_def watch_keep_def)
  moreover have "foreach ns expire_node ?s = Inr ((),
     ?s\<lparr>scb_expire_list := r, scb_watch_list := ?w @ filter (watch_keep s) ns\<rparr>)"
    using Cons.IH [of ?s] Cons.prems by simp
  ultimately show ?case by simp
qed

text \<open>One scan of the watch list drops the nodes whose stream is idle (its traffic is the amount in the node) or has
  another identifier by now, and keeps exactly the others, those of the watch list before those that waited in the expiry queue,
  which it leaves empty. It touches nothing else: the branch for an idle stream has only a comment, so the stream is
  neither closed nor recycled. Nothing calls the scan and nothing puts a node on the list.\<close>

lemma SCBWatchScan_filter:
  assumes "tms_wf s"
  shows "SCBWatchScan s = Inr (0,
    s\<lparr>scb_watch_list := filter (watch_keep s) (scb_watch_list s @ scb_expire_list s), scb_expire_list := []\<rparr>)"
proof -
  let ?k = "filter (watch_keep s) (scb_watch_list s)"
  let ?x = "scb_expire_list s @ filter (watch_idle s) (scb_watch_list s)"
  let ?s = "s\<lparr>scb_expire_list := ?x, scb_watch_list := ?k\<rparr>"
  have live: "\<forall>n \<in> set (scb_watch_list s) \<union> set (scb_expire_list s). live_scb s (w_scb n)"
    using assms by (simp add: tms_wf_def lists_ok_def)
  have idle: "filter (watch_keep s) (filter (watch_idle s) ns) = []" for ns
    by (auto simp: watch_keep_def watch_idle_def filter_empty_conv split: option.splits)
  have "watch_pass (scb_watch_list s) s = Inr (?k, s\<lparr>scb_expire_list := ?x\<rparr>)"
    using live by (intro watch_pass_run) simp
  moreover have "foreach ?x expire_node ?s = Inr ((), ?s\<lparr>scb_expire_list := [],
      scb_watch_list := scb_watch_list ?s @ filter (watch_keep ?s) ?x\<rparr>)"
    using live by (intro expire_pass_run) auto
  ultimately show ?thesis
    using idle by (simp add: SCBWatchScan_def)
qed

end
