(* ===== verification/Billing.thy ===== *)
theory Billing
  imports Scb
begin

text \<open>
  The accounting side of \<^verbatim>\<open>UserMgr.cpp\<close>: charging traffic to a stream and a user, reporting
  it, and the tables of users. The reports to the traffic recorder are printed only: the
  sends are commented out in the source, so a report is an entry of the log.
\<close>

subsection \<open>Operations\<close>

definition RecordTraffic :: "ptr \<Rightarrow> ptr \<Rightarrow> u64 \<Rightarrow> int tmsprog" where
  "RecordTraffic u scb datalen =
     (if scb = 0 then ret (- 1)
      else
        andThen (upd_scb scb (\<lambda>b. b\<lparr>s_traffic := s_traffic b + datalen\<rparr>)) (\<lambda>_.
        andThen (upd_user u (\<lambda>x. x\<lparr>u_balance := u_balance x - datalen\<rparr>)) (\<lambda>_.
        andThen (scb_at scb) (\<lambda>b.
        andThen (user_at u) (\<lambda>x.
          if s_status b = u_validated \<and> sint (u_balance x) < 4000 then ret (- 1) else ret 0)))))"

text \<open>\<^verbatim>\<open>memcpy(r.host, h.c_str(), h.size())\<close> into the 256 bytes of \<^verbatim>\<open>TrafficReport::host\<close>, which
  the following \<^verbatim>\<open>printf\<close> reads up to a NUL.\<close>

definition copy_host :: "bytes \<Rightarrow> bytes tmsprog" where
  "copy_host h =
     andThen (require OutOfBounds (length h \<le> 256)) (\<lambda>_.
     andThen (require OutOfBounds (0 \<in> set (h @ replicate (256 - length h) 0))) (\<lambda>_.
     ret (c_str (h @ replicate (256 - length h) 0))))"

definition hss :: "tms \<Rightarrow> u64" where
  "hss s = word_of_int (Traffic_TCP_hss (build_accurate s))"

definition ReportTraffic :: "ptr \<Rightarrow> ptr \<Rightarrow> int tmsprog" where
  "ReportTraffic u scb =
     andThen (scb_at scb) (\<lambda>b.
     if s_traffic b = 0 \<or> s_status b \<noteq> u_validated then ret 0
     else
       andThen (gets hss) (\<lambda>k.
       andThen (upd_scb scb (\<lambda>b. b\<lparr>s_traffic := s_traffic b + k\<rparr>)) (\<lambda>_.
       andThen (user_at u) (\<lambda>x.
       andThen gettimeofday (\<lambda>etime.
       andThen (if s_tunnel_conn b \<noteq> 0
                then andThen (conn_at (s_tunnel_conn b)) (\<lambda>c.
                     andThen (copy_host (c_curr_host c)) (\<lambda>h. ret (c_begin_time c, h)))
                else ret ((0, 0), [])) (\<lambda>(btime, host).
       andThen (scb_at scb) (\<lambda>b.
       andThen (emit (ReportLine PlainReport (u_mobile x) (u_app x) (s_traffic b) btime etime host)) (\<lambda>_.
       andThen GetCenterConn (\<lambda>_.
       andThen (upd_scb scb (\<lambda>b. b\<lparr>s_traffic := 0\<rparr>)) (\<lambda>_. ret 0))))))))))"

text \<open>The comparison of \<^verbatim>\<open>timeval\<close>s, whose members are signed.\<close>

definition earlier :: "timeval \<Rightarrow> timeval \<Rightarrow> bool" where
  "earlier a b \<longleftrightarrow> sint (fst a) < sint (fst b) \<or> fst a = fst b \<and> sint (snd a) < sint (snd b)"

definition set_accu_start :: "ptr \<Rightarrow> timeval \<Rightarrow> unit tmsprog" where
  "set_accu_start u btime =
     andThen (user_at u) (\<lambda>x.
     andThen (if u_con_report x = 0
              then andThen gettimeofday (\<lambda>now. upd_user u (\<lambda>x. x\<lparr>u_accu_start_time := now\<rparr>))
              else ret ()) (\<lambda>_.
     andThen (user_at u) (\<lambda>x.
     if u_con_report x = 0 \<or> earlier (u_accu_start_time x) btime then ret ()
     else upd_user u (\<lambda>x. x\<lparr>u_accu_start_time := btime\<rparr>))))"

definition ReportOrAccumulate :: "ptr \<Rightarrow> ptr \<Rightarrow> int tmsprog" where
  "ReportOrAccumulate u scb =
     andThen (scb_at scb) (\<lambda>b.
     if s_traffic b = 0 then ret (- 1)
     else
       andThen (gets hss) (\<lambda>k.
       andThen (upd_scb scb (\<lambda>b. b\<lparr>s_traffic := s_traffic b + k\<rparr>)) (\<lambda>_.
       andThen (user_at u) (\<lambda>_.
       if s_tunnel_conn b = 0 then ret (- 1)
       else
         andThen (conn_at (s_tunnel_conn b)) (\<lambda>c.
         andThen (copy_host (c_curr_host c)) (\<lambda>host.
         andThen (set_accu_start u (c_begin_time c)) (\<lambda>_.
         andThen (user_at u) (\<lambda>x.
         andThen gettimeofday (\<lambda>etime.
         andThen (scb_at scb) (\<lambda>b.
         andThen (emit (ReportLine LocalReport (u_mobile x) (u_app x) (s_traffic b)
                          (u_accu_start_time x) etime host)) (\<lambda>_.
         andThen (if u_reporting x \<noteq> 0
                  then upd_user u (\<lambda>x. x\<lparr>u_con_report := u_con_report x + 1,
                                          u_traffic := u_traffic x + s_traffic b\<rparr>)
                  else andThen (upd_user u (\<lambda>x. x\<lparr>u_reporting := 1\<rparr>)) (\<lambda>_.
                       andThen (emit (ReportLine TrReport (u_mobile x) (u_app x) (s_traffic b)
                                        (u_accu_start_time x) etime host)) (\<lambda>_.
                       andThen GetCenterConn (\<lambda>_.
                       upd_user u (\<lambda>x. x\<lparr>u_traffic := 0\<rparr>))))) (\<lambda>_.
         andThen (upd_scb scb (\<lambda>b. b\<lparr>s_traffic := 0\<rparr>)) (\<lambda>_. ret 0)))))))))))))"

definition ReportAccumulated :: "ptr \<Rightarrow> int tmsprog" where
  "ReportAccumulated u =
     andThen (user_at u) (\<lambda>x.
     andThen gettimeofday (\<lambda>etime.
     andThen (emit (ReportLine TrReport (u_mobile x) (u_app x) (u_traffic x)
                      (u_accu_start_time x) etime (ascii ''-''))) (\<lambda>_.
     andThen GetCenterConn (\<lambda>_.
     andThen (upd_user u (\<lambda>x. x\<lparr>u_traffic := 0, u_con_report := 0\<rparr>)) (\<lambda>_. ret 0)))))"

text \<open>The reply of the traffic recorder, for a user that is found
  (the case \<^verbatim>\<open>TRAFFIC_REPORT_RSP\<close> of \<^verbatim>\<open>Connect::HandleRecvMsg\<close>).\<close>

definition TrafficReply :: "ptr \<Rightarrow> unit tmsprog" where
  "TrafficReply u =
     andThen (user_at u) (\<lambda>x.
     if u_traffic x \<noteq> 0
     then andThen (ReportAccumulated u) (\<lambda>_. upd_user u (\<lambda>x. x\<lparr>u_reporting := 1\<rparr>))
     else upd_user u (\<lambda>x. x\<lparr>u_reporting := 0\<rparr>))"

definition RetrieveUser :: "UserId \<Rightarrow> ptr tmsprog" where
  "RetrieveUser i =
     andThen (gets (\<lambda>s. map_find i (UserMap s))) (\<lambda>r. case r of
       Some u \<Rightarrow> ret u
     | None \<Rightarrow>
         andThen new_user (\<lambda>u.
         andThen (modify (\<lambda>s. s\<lparr>UserMap := map_insert i u (UserMap s)\<rparr>)) (\<lambda>_.
         andThen (upd_user u (\<lambda>x. x\<lparr>u_status := 0, u_forward_id := 0, u_balance := 0, u_traffic := 0,
                                    u_app := app i, u_mobile := mobile i\<rparr>)) (\<lambda>_.
         andThen gettimeofday (\<lambda>now.
         andThen (upd_user u (\<lambda>x. x\<lparr>u_accu_start_time := now\<rparr>)) (\<lambda>_. ret u))))))"

definition User_ResetUser :: "ptr \<Rightarrow> unit tmsprog" where
  "User_ResetUser u =
     upd_user u (\<lambda>x. x\<lparr>u_app := 0, u_status := 0, u_forward_id := 0, u_reporting := 0\<rparr>)"

definition ReleaseSCBList :: "ptr \<Rightarrow> unit tmsprog" where
  "ReleaseSCBList u =
     andThen (user_at u) (\<lambda>x.
     andThen (foreach (u_scb_tree x) (\<lambda>n. RecycleSCB (snd n))) (\<lambda>_.
     upd_user u (\<lambda>x. x\<lparr>u_scb_tree := []\<rparr>)))"

definition ReleaseSCB :: "ptr \<Rightarrow> ptr \<Rightarrow> unit tmsprog" where
  "ReleaseSCB u scb = andThen (user_at u) (\<lambda>_. andThen (scb_at scb) (\<lambda>_. RecycleSCB scb))"

definition NewForwardId :: "u64 tmsprog" where
  "NewForwardId =
     andThen (gets aval_forward_id) (\<lambda>i.
     andThen (if i = 0xFFFFFFFFFFFFFFFF then modify (\<lambda>s. s\<lparr>aval_forward_id := 1\<rparr>) else ret ()) (\<lambda>_.
     andThen (gets aval_forward_id) (\<lambda>i.
     andThen (modify (\<lambda>s. s\<lparr>aval_forward_id := i + 1\<rparr>)) (\<lambda>_. ret i))))"

definition TraceUser :: "ptr \<Rightarrow> int tmsprog" where
  "TraceUser u =
     andThen (modify (\<lambda>s. s\<lparr>ExpireList := (ExpireList s)[4 := ExpireList s ! 4 @ [u]]\<rparr>)) (\<lambda>_. ret 0)"

text \<open>Both loops pop the front of a list until it is empty.\<close>

definition ExpireLocalUser :: "int tmsprog" where
  "ExpireLocalUser =
     andThen (modify (\<lambda>s. s\<lparr>ExpireList := map (\<lambda>_. []) (ExpireList s)\<rparr>)) (\<lambda>_. ret 0)"

subsection \<open>The invariant\<close>

lemma ok_RecordTraffic: "tms.ok (RecordTraffic u scb n) s"
  unfolding RecordTraffic_def
  by (auto intro!: tms.ok_andThen tms_ok ok_upd_scb ok_upd_user simp: scb_ok_def user_ok_def)

lemma ok_copy_host: "tms.ok (copy_host h) s"
  unfolding copy_host_def by (auto intro!: tms.ok_andThen tms_ok)

lemma ok_ReportTraffic: "tms.ok (ReportTraffic u scb) s"
  unfolding ReportTraffic_def
  by (auto intro!: tms.ok_andThen tms_ok ok_upd_scb ok_copy_host simp: scb_ok_def)

lemma ok_set_accu_start: "tms.ok (set_accu_start u t) s"
  unfolding set_accu_start_def
  by (auto intro!: tms.ok_andThen tms_ok ok_upd_user simp: user_ok_def)

lemma ok_ReportOrAccumulate: "tms.ok (ReportOrAccumulate u scb) s"
  unfolding ReportOrAccumulate_def
  by (auto intro!: tms.ok_andThen tms_ok ok_upd_scb ok_upd_user ok_copy_host ok_set_accu_start
      simp: scb_ok_def user_ok_def)

lemma ok_ReportAccumulated: "tms.ok (ReportAccumulated u) s"
  unfolding ReportAccumulated_def
  by (auto intro!: tms.ok_andThen tms_ok ok_upd_user simp: user_ok_def)

lemma ok_TrafficReply: "tms.ok (TrafficReply u) s"
  unfolding TrafficReply_def
  by (auto intro!: tms.ok_andThen tms_ok ok_upd_user ok_ReportAccumulated simp: user_ok_def)

lemma RetrieveUser_old: "map_find i (UserMap s) = Some u \<Longrightarrow> RetrieveUser i s = Inr (u, s)"
  by (simp add: RetrieveUser_def)

lemma RetrieveUser_new:
  assumes "map_find i (UserMap s) = None" "0 < h_next s"
  shows "RetrieveUser i s = Inr (h_next s,
     s\<lparr>os_tick := Suc (os_tick s), h_next := Suc (h_next s),
       h_users := (h_users s)(h_next s \<mapsto> User_init\<lparr>u_mobile := mobile i, u_app := app i,
         u_accu_start_time := os_clock s (os_tick s)\<rparr>),
       UserMap := map_insert i (h_next s) (UserMap s)\<rparr>)"
  using assms by (simp add: RetrieveUser_def User_init_def)

lemma ok_RetrieveUser: "tms.ok (RetrieveUser i) s"
proof (rule tms.okI)
  fix u s'
  assume wf: "tms_wf s" and run: "RetrieveUser i s = Inr (u, s')"
  show "tms_wf s' \<and> grows s s'"
  proof (cases "map_find i (UserMap s)")
    case None
    let ?x = "User_init\<lparr>u_mobile := mobile i, u_app := app i, u_accu_start_time := os_clock s (os_tick s)\<rparr>"
    let ?s = "s\<lparr>h_next := Suc (h_next s), h_users := (h_users s)(h_next s \<mapsto> ?x)\<rparr>"
    have x: "user_ok s ?x" by (simp add: user_ok_def User_init_def)
    have "tms_wf (?s\<lparr>UserMap := map_insert i (h_next s) (UserMap ?s)\<rparr>)"
      by (rule wf_UserMap_insert [OF wf_new_user(1) [OF wf x]]) auto
    moreover have "s' = ?s\<lparr>UserMap := map_insert i (h_next s) (UserMap s)\<rparr>\<lparr>os_tick := Suc (os_tick s)\<rparr>"
      using run RetrieveUser_new [OF None] wf by (simp add: tms_wf_def heap_ok_def)
    ultimately show ?thesis
      by (simp add: grows_def)
  next
    case (Some v)
    with run wf show ?thesis by (auto simp: RetrieveUser_old)
  qed
qed

lemma RetrieveUser_live:
  assumes "tms_wf s" "RetrieveUser i s = Inr (u, s')"
  shows "map_find i (UserMap s') = Some u \<and> live_user s' u"
proof (cases "map_find i (UserMap s)")
  case None
  with assms show ?thesis
    by (auto simp: RetrieveUser_new tms_wf_def heap_ok_def live_user_def)
next
  case (Some v)
  with assms show ?thesis
    by (auto simp: RetrieveUser_old live_user_def elim: wf_UserMap)
qed

lemma ok_ReleaseSCBList: "tms.ok (ReleaseSCBList u) s"
  unfolding ReleaseSCBList_def
  by (auto intro!: tms.ok_andThen tms_ok tms.ok_foreach ok_upd_user ok_RecycleSCB simp: user_ok_def)

lemma ok_ReleaseSCB: "tms.ok (ReleaseSCB u q) s"
  unfolding ReleaseSCB_def
  by (auto intro!: tms.ok_andThen tms_ok ok_RecycleSCB)

lemma ok_NewForwardId: "tms.ok NewForwardId s"
  unfolding NewForwardId_def by (auto intro!: tms.ok_andThen tms_ok)

lemma ok_TraceUser: "tms.ok (TraceUser u) s"
  unfolding TraceUser_def by (auto intro!: tms.ok_andThen tms_ok)

lemma ok_ExpireLocalUser: "tms.ok ExpireLocalUser s"
  unfolding ExpireLocalUser_def by (auto intro!: tms.ok_andThen tms_ok)

lemmas billing_ok = ok_RecordTraffic ok_ReportTraffic ok_ReportOrAccumulate ok_ReportAccumulated
  ok_TrafficReply ok_RetrieveUser ok_ReleaseSCBList ok_ReleaseSCB ok_NewForwardId ok_TraceUser
  ok_ExpireLocalUser ok_NewSCB ok_RecycleSCB

subsection \<open>Charging\<close>

lemma RecordTraffic_charges:
  assumes "scb \<noteq> 0" "h_scbs s scb = Some b" "u \<noteq> 0" "h_users s u = Some x"
  shows "RecordTraffic u scb n s =
    Inr (if s_status b = u_validated \<and> sint (u_balance x - n) < 4000 then - 1 else 0,
      s\<lparr>h_scbs := (h_scbs s)(scb \<mapsto> b\<lparr>s_traffic := s_traffic b + n\<rparr>),
        h_users := (h_users s)(u \<mapsto> x\<lparr>u_balance := u_balance x - n\<rparr>)\<rparr>)"
  using assms by (simp add: RecordTraffic_def)

text \<open>Charges to the streams of one user, in any order of the streams, with the results of the calls; the bytes of such
  charges, and those among them that go to the stream \<open>q\<close>.\<close>

fun charges :: "ptr \<Rightarrow> (ptr \<times> u64) list \<Rightarrow> int list tmsprog" where
  "charges u [] = ret []"
| "charges u ((q, n) # ops) = andThen (RecordTraffic u q n) (\<lambda>r. andThen (charges u ops) (\<lambda>rs. ret (r # rs)))"

definition total_charge :: "(ptr \<times> u64) list \<Rightarrow> int" where
  "total_charge ops = sum_list (map (uint \<circ> snd) ops)"

definition stream_charge :: "ptr \<Rightarrow> (ptr \<times> u64) list \<Rightarrow> u64" where
  "stream_charge q ops = sum_list (map snd (filter (\<lambda>op. fst op = q) ops))"

definition on_streams :: "tms \<Rightarrow> (ptr \<times> u64) list \<Rightarrow> bool" where
  "on_streams s ops \<longleftrightarrow> (\<forall>op \<in> set ops. fst op \<noteq> 0 \<and> (\<exists>b. h_scbs s (fst op) = Some b \<and> s_status b = u_validated))"

lemma total_charge_simps [simp]: "total_charge [] = 0" "total_charge ((q, n) # ops) = uint n + total_charge ops"
  by (simp_all add: total_charge_def)

lemma total_charge_nonneg: "0 \<le> total_charge ops"
  by (induction ops) (auto simp: total_charge_def)

lemma sint_minus_uint:
  fixes w v :: u64
  assumes "- (2 ^ 63) \<le> sint w - uint v"
  shows "sint (w - v) = sint w - uint v"
proof -
  have "sint w < 2 ^ 63" using sint_range_size [of w] by (simp add: word_size)
  then have "signed_take_bit 63 (sint w - uint v) = sint w - uint v"
    using assms uint_ge_0 [of v] by (intro signed_take_bit_int_eq_self) linarith+
  moreover have e: "w - v = word_of_int (sint w - uint v)" by (simp add: wi_hom_sub [symmetric])
  ultimately show ?thesis by (simp only: e signed_of_int) simp
qed

text \<open>C9: the balance of a user is one quota for all streams of the user: over charges to the user's authenticated streams in any
  order, a call is refused (result -1) exactly when all the bytes charged up to and including it, on whatever stream, leave
  less than 4000 of the balance at the start, and accepted (result 0) otherwise; what is refused is charged as well, so
  nothing is accepted after a refusal. In the end the balance is reduced by all charges, and each stream has what was charged to
  it. The charges do not take the 64-bit balance below its range.\<close>

theorem quota_shared:
  assumes "u \<noteq> 0" "h_users s u = Some x" "on_streams s ops" "total_charge ops \<le> sint (u_balance x) + 2 ^ 63"
  shows "\<exists>s'. charges u ops s =
      Inr (map (\<lambda>i. if sint (u_balance x) - total_charge (take (Suc i) ops) < 4000 then - 1 else 0) [0..<length ops], s') \<and>
    h_users s' u = Some (x\<lparr>u_balance := u_balance x - word_of_int (total_charge ops)\<rparr>) \<and>
    (\<forall>q. h_scbs s' q = map_option (\<lambda>b. b\<lparr>s_traffic := s_traffic b + stream_charge q ops\<rparr>) (h_scbs s q))"
  using assms
proof (induction ops arbitrary: s x)
  case Nil
  then show ?case by (auto simp: stream_charge_def option.map_ident)
next
  case (Cons op ops)
  obtain q n where op: "op = (q, n)" by (cases op)
  obtain b where b: "q \<noteq> 0" "h_scbs s q = Some b" "s_status b = u_validated"
    using Cons.prems(3) op by (auto simp: on_streams_def)
  let ?x = "x\<lparr>u_balance := u_balance x - n\<rparr>"
  let ?s = "s\<lparr>h_scbs := (h_scbs s)(q \<mapsto> b\<lparr>s_traffic := s_traffic b + n\<rparr>), h_users := (h_users s)(u \<mapsto> ?x)\<rparr>"
  have run: "RecordTraffic u q n s = Inr (if sint (u_balance x - n) < 4000 then - 1 else 0, ?s)"
    using RecordTraffic_charges [OF b(1,2) Cons.prems(1,2)] b(3) by simp
  have bal: "sint (u_balance x - n) = sint (u_balance x) - uint n"
    using Cons.prems(4) total_charge_nonneg [of ops] op by (intro sint_minus_uint) simp
  have "on_streams ?s ops" using Cons.prems(3) b(3) op by (auto simp: on_streams_def)
  moreover have "total_charge ops \<le> sint (u_balance ?x) + 2 ^ 63" using Cons.prems(4) op bal by simp
  ultimately obtain s' where s': "charges u ops ?s =
      Inr (map (\<lambda>i. if sint (u_balance ?x) - total_charge (take (Suc i) ops) < 4000 then - 1 else 0) [0..<length ops], s')"
    "h_users s' u = Some (?x\<lparr>u_balance := u_balance ?x - word_of_int (total_charge ops)\<rparr>)"
    "\<forall>q. h_scbs s' q = map_option (\<lambda>b. b\<lparr>s_traffic := s_traffic b + stream_charge q ops\<rparr>) (h_scbs ?s q)"
    using Cons.IH [of ?s ?x] Cons.prems(1) by auto
  have "charges u (op # ops) s =
      Inr (map (\<lambda>i. if sint (u_balance x) - total_charge (take (Suc i) (op # ops)) < 4000 then - 1 else 0) [0..<length (op # ops)], s')"
    using run s'(1) by (simp add: op andThen_apply bal upt_conv_Cons map_Suc_upt [symmetric] algebra_simps del: upt_Suc)
  moreover have "h_users s' u = Some (x\<lparr>u_balance := u_balance x - word_of_int (total_charge (op # ops))\<rparr>)"
    using s'(2) by (simp add: op wi_hom_add [symmetric])
  moreover have "\<forall>q. h_scbs s' q = map_option (\<lambda>b. b\<lparr>s_traffic := s_traffic b + stream_charge q (op # ops)\<rparr>) (h_scbs s q)"
    using s'(3) b(2) by (auto simp: op stream_charge_def)
  ultimately show ?case by blast
qed

text \<open>A user with a balance of 5000 and two authenticated streams.\<close>

definition quota_demo :: tms where
  "quota_demo = demo\<lparr>
     h_scbs := [3 \<mapsto> (SCB_init 1)\<lparr>s_status := u_validated\<rparr>, 8 \<mapsto> (SCB_init 2)\<lparr>s_status := u_validated\<rparr>],
     h_users := [4 \<mapsto> User_init\<lparr>u_balance := 5000\<rparr>]\<rparr>"

theorem quota_shared_witness:
  "\<exists>s'. charges 4 [(3, 600), (8, 400), (3, 1)] quota_demo = Inr ([0, 0, - 1], s') \<and>
     h_users s' 4 = Some (User_init\<lparr>u_balance := 3999\<rparr>) \<and> map_option s_traffic (h_scbs s' 3) = Some 601"
proof -
  let ?ops = "[(3, 600), (8, 400), (3, 1)] :: (ptr \<times> u64) list"
  have "on_streams quota_demo ?ops" by (simp add: on_streams_def quota_demo_def)
  then have "\<exists>s'. charges 4 ?ops quota_demo =
      Inr (map (\<lambda>i. if sint (5000 :: u64) - total_charge (take (Suc i) ?ops) < 4000 then - 1 else 0) [0..<length ?ops], s') \<and>
    h_users s' 4 = Some (User_init\<lparr>u_balance := 5000 - word_of_int (total_charge ?ops)\<rparr>) \<and>
    (\<forall>q. h_scbs s' q = map_option (\<lambda>b. b\<lparr>s_traffic := s_traffic b + stream_charge q ?ops\<rparr>) (h_scbs quota_demo q))"
    using quota_shared [of 4 quota_demo "User_init\<lparr>u_balance := 5000\<rparr>" ?ops] by (simp add: quota_demo_def)
  moreover have "stream_charge 3 ?ops = 601" by (simp add: stream_charge_def)
  moreover have "map_option s_traffic (h_scbs quota_demo 3) = Some 0" by (simp add: quota_demo_def SCB_init_def)
  ultimately show ?thesis by (auto simp: upt_rec)
qed

subsection \<open>Conservation of reported traffic\<close>

fun reported_by :: "u64 \<Rightarrow> u64 \<Rightarrow> event \<Rightarrow> u64" where
  "reported_by m a (ReportLine TrReport m' a' t _ _ _) = (if m' = m \<and> a' = a then t else 0)"
| "reported_by m a _ = 0"

definition account :: "ptr \<Rightarrow> ptr \<Rightarrow> tms \<Rightarrow> u64" where
  "account u q s = (case (h_users s u, h_scbs s q) of
      (Some x, Some b) \<Rightarrow>
        sum_list (map (reported_by (u_mobile x) (u_app x)) (os_log s)) + u_traffic x + s_traffic b
    | _ \<Rightarrow> 0)"

definition stream_ready :: "ptr \<Rightarrow> ptr \<Rightarrow> tms \<Rightarrow> bool" where
  "stream_ready u q s \<longleftrightarrow> u \<noteq> 0 \<and> q \<noteq> 0 \<and> CenterConnPool s \<noteq> [] \<and> \<not> build_accurate s
     \<and> (\<exists>x b c. h_users s u = Some x \<and> h_scbs s q = Some b \<and> s_tunnel_conn b \<noteq> 0
        \<and> h_conns s (s_tunnel_conn b) = Some c \<and> length (c_curr_host c) < 256
        \<and> (u_reporting x = 0 \<longrightarrow> u_traffic x = 0))"

datatype bill_op = Charge u64 | Close | Reply

fun bill_op_run :: "ptr \<Rightarrow> ptr \<Rightarrow> bill_op \<Rightarrow> unit tmsprog" where
  "bill_op_run u q (Charge n) = andThen (RecordTraffic u q n) (\<lambda>_. ret ())"
| "bill_op_run u q Close = andThen (ReportOrAccumulate u q) (\<lambda>_. ret ())"
| "bill_op_run u q Reply = TrafficReply u"

fun charged :: "bill_op \<Rightarrow> u64" where
  "charged (Charge n) = n" | "charged Close = 0" | "charged Reply = 0"

lemma copy_host_run: "length h < 256 \<Longrightarrow> \<exists>r. copy_host h s = Inr (r, s)"
  by (auto simp: copy_host_def)

definition accu_start :: "tms \<Rightarrow> User \<Rightarrow> timeval \<Rightarrow> timeval" where
  "accu_start s x t = (if u_con_report x = 0 then os_clock s (os_tick s)
     else if earlier (u_accu_start_time x) t then u_accu_start_time x else t)"

lemma set_accu_start_run:
  assumes "u \<noteq> 0" "h_users s u = Some x"
  shows "set_accu_start u t s =
    Inr ((), s\<lparr>os_tick := (if u_con_report x = 0 then Suc (os_tick s) else os_tick s),
      h_users := (h_users s)(u \<mapsto> x\<lparr>u_accu_start_time := accu_start s x t\<rparr>)\<rparr>)"
  using assms by (simp add: set_accu_start_def accu_start_def fun_upd_idem)

lemma bill_Charge:
  assumes "stream_ready u q s"
  shows "\<exists>s'. bill_op_run u q (Charge n) s = Inr ((), s') \<and> account u q s' = account u q s + n
    \<and> stream_ready u q s'"
  using assms by (auto simp: stream_ready_def RecordTraffic_def account_def andThen_apply)

lemma bill_Reply:
  assumes "stream_ready u q s"
  shows "\<exists>s'. bill_op_run u q Reply s = Inr ((), s') \<and> account u q s' = account u q s
    \<and> stream_ready u q s'"
  using assms
  by (auto simp: stream_ready_def TrafficReply_def ReportAccumulated_def account_def neq_Nil_conv)

lemma bill_Close:
  assumes "stream_ready u q s"
  shows "\<exists>s'. bill_op_run u q Close s = Inr ((), s') \<and> account u q s' = account u q s
    \<and> stream_ready u q s'"
proof -
  obtain x b c p r where ready: "u \<noteq> 0" "q \<noteq> 0" "CenterConnPool s = p # r" "\<not> build_accurate s"
    "h_users s u = Some x" "h_scbs s q = Some b" "s_tunnel_conn b \<noteq> 0"
    "h_conns s (s_tunnel_conn b) = Some c" "length (c_curr_host c) < 256"
    "u_reporting x = 0 \<longrightarrow> u_traffic x = 0"
    using assms by (auto simp: stream_ready_def neq_Nil_conv)
  obtain h where h: "copy_host (c_curr_host c) t = Inr (h, t)" for t
    using ready(9) by (simp add: copy_host_def)
  note run = ReportOrAccumulate_def set_accu_start_run hss_def Traffic_TCP_hss_def andThen_apply
  consider "s_traffic b = 0" | "s_traffic b \<noteq> 0" "u_reporting x = 0" | "s_traffic b \<noteq> 0" "u_reporting x \<noteq> 0"
    by blast
  then show ?thesis
  proof cases
    case 1
    then show ?thesis
      using ready assms by (simp add: ReportOrAccumulate_def)
  next
    case 2
    then show ?thesis
      using ready h by (simp add: run stream_ready_def account_def)
  next
    case 3
    then show ?thesis
      using ready h by (simp add: run stream_ready_def account_def)
  qed
qed

text \<open>C2: no traffic is lost and none is reported twice. For any sequence of charges to a
  stream, of reports (one for each time a side of the stream goes away) and of replies of
  the traffic recorder, in any order, the operations succeed and what has been reported to
  the recorder plus what waits on the user and on the stream grows by exactly the sum of the
  charges (release build, in 64-bit arithmetic).\<close>

theorem traffic_conserved:
  assumes "stream_ready u q s"
  shows "\<exists>s'. foreach ops (bill_op_run u q) s = Inr ((), s') \<and> stream_ready u q s'
    \<and> account u q s' = account u q s + sum_list (map charged ops)"
  using assms
proof (induction ops arbitrary: s)
  case Nil
  then show ?case by simp
next
  case (Cons op ops)
  then obtain t where "bill_op_run u q op s = Inr ((), t)" "account u q t = account u q s + charged op"
    "stream_ready u q t"
    using bill_Charge [OF Cons.prems] bill_Close [OF Cons.prems] bill_Reply [OF Cons.prems]
    by (cases op) auto
  with Cons.IH [of t] show ?case by (auto simp: add.assoc)
qed

theorem traffic_conserved_witness:
  "\<exists>s'. foreach [Charge 100, Close, Charge 7, Close, Reply] (bill_op_run 4 3) demo = Inr ((), s')
    \<and> account 4 3 s' = 107"
proof -
  have "stream_ready 4 3 demo"
    by (simp add: stream_ready_def demo_def demo_conn_def Connect_init_def User_init_def SCB_init_def)
  from traffic_conserved [OF this, of "[Charge 100, Close, Charge 7, Close, Reply]"] show ?thesis
    by (auto simp: account_def demo_def User_init_def SCB_init_def tms_start_def os_quiet_def os.defs)
qed

subsection \<open>Forward identifiers\<close>

abbreviation (input) fid_period :: nat where "fid_period \<equiv> 2 ^ 64 - 2"

text \<open>The \<open>k\<close>-th identifier after a counter that stands at \<open>a\<close>, counted from the number of \<open>a\<close>.\<close>

definition fid :: "nat \<Rightarrow> u64" where
  "fid k = word_of_nat (k mod fid_period + 1)"

definition fid_no :: "u64 \<Rightarrow> nat" where
  "fid_no a = (if a = - 1 then 0 else unat a - 1)"

fun forward_ids :: "nat \<Rightarrow> u64 list tmsprog" where
  "forward_ids 0 = ret []"
| "forward_ids (Suc n) = andThen NewForwardId (\<lambda>i. andThen (forward_ids n) (\<lambda>l. ret (i # l)))"

lemma unat_u64_max: "a \<noteq> (- 1 :: u64) \<Longrightarrow> unat a < 2 ^ 64 - 1"
proof -
  assume "a \<noteq> - 1"
  then have "unat a \<noteq> unat (- 1 :: u64)" by (simp only: word_unat_eq_iff [symmetric] not_False_eq_True)
  moreover have "unat (- 1 :: u64) = 2 ^ 64 - 1"
    by (simp add: unsigned_minus_1_eq_mask mask_eq_exp_minus_1)
  moreover have "unat a < 2 ^ 64" using unsigned_less [of a, where ?'a = nat] by simp
  ultimately show ?thesis by linarith
qed

lemma unat_fid: "unat (fid k) = k mod fid_period + 1"
proof -
  define j where "j = k mod fid_period + 1"
  have "k mod fid_period < fid_period" by simp
  then have "j < 2 ^ 64" unfolding j_def by linarith
  then have "unat (word_of_nat j :: u64) = j" by (simp add: unat_of_nat)
  then show ?thesis by (simp only: fid_def j_def)
qed

lemma u64_max: "(0xFFFFFFFFFFFFFFFF :: u64) = - 1"
  by simp

lemma NewForwardId_run:
  assumes "aval_forward_id s \<noteq> 0"
  shows "NewForwardId s = Inr (fid (fid_no (aval_forward_id s)),
    s\<lparr>aval_forward_id := fid (fid_no (aval_forward_id s)) + 1\<rparr>)"
proof (cases "aval_forward_id s = - 1")
  case True
  then show ?thesis by (simp add: NewForwardId_def fid_no_def fid_def)
next
  case False
  let ?a = "aval_forward_id s"
  have "0 < unat ?a" using assms by (simp add: unat_gt_0)
  moreover have "unat ?a < 2 ^ 64 - 1" by (rule unat_u64_max [OF False])
  ultimately have "(unat ?a - 1) mod fid_period + 1 = unat ?a" by simp
  then have "unat (fid (fid_no ?a)) = unat ?a"
    using False by (simp only: unat_fid fid_no_def if_False)
  then have "fid (fid_no ?a) = ?a" by (simp only: word_unat_eq_iff)
  then show ?thesis using False by (simp add: NewForwardId_def u64_max)
qed

lemma fid_step: "fid k + 1 \<noteq> 0" "fid_no (fid k + 1) mod fid_period = (k + 1) mod fid_period"
proof -
  define j where "j = k mod fid_period"
  have j: "j < fid_period" by (simp add: j_def)
  have u: "unat (fid k) = j + 1" by (simp add: unat_fid j_def)
  have ne: "fid k \<noteq> - 1"
  proof
    assume "fid k = - 1"
    then have "unat (fid k) = 2 ^ 64 - 1"
      by (simp add: unsigned_minus_1_eq_mask mask_eq_exp_minus_1)
    with u j show False by simp
  qed
  then have u': "unat (fid k + 1) = j + 2"
    using u by (simp add: unat_add_one)
  then show "fid k + 1 \<noteq> 0" by auto
  show "fid_no (fid k + 1) mod fid_period = (k + 1) mod fid_period"
  proof (cases "fid k + 1 = - 1")
    case True
    have "j + 2 = 2 ^ 64 - 1"
      using u' [unfolded True] by (simp add: unsigned_minus_1_eq_mask mask_eq_exp_minus_1)
    then have "(j + 1) mod fid_period = 0" by simp
    with True show ?thesis
      by (simp add: fid_no_def j_def mod_simps)
  next
    case False
    with u' show ?thesis by (simp add: fid_no_def j_def mod_simps)
  qed
qed

lemma forward_ids_run:
  "aval_forward_id s \<noteq> 0 \<Longrightarrow> \<exists>s'. forward_ids n s =
     Inr (map (\<lambda>k. fid (fid_no (aval_forward_id s) + k)) [0..<n], s')"
proof (induction n arbitrary: s)
  case 0
  show ?case by simp
next
  case (Suc n)
  let ?a = "fid_no (aval_forward_id s)" and ?s = "s\<lparr>aval_forward_id := fid (fid_no (aval_forward_id s)) + 1\<rparr>"
  have shift: "fid (fid_no (fid ?a + 1) + k) = fid (?a + Suc k)" for k
    using mod_add_cong [OF fid_step(2) [of ?a] refl, of k] by (simp only: fid_def add.assoc plus_1_eq_Suc)
  from Suc.IH [of ?s] fid_step(1) [of ?a] obtain s' where
    "forward_ids n ?s = Inr (map (\<lambda>k. fid (?a + Suc k)) [0..<n], s')"
    by (auto simp: shift)
  with NewForwardId_run [OF Suc.prems] show ?case
    by (simp add: upt_conv_Cons map_Suc_upt [symmetric] comp_def del: upt_Suc)
qed

lemma fid_inj: "i < fid_period \<Longrightarrow> j < fid_period \<Longrightarrow> fid (a + i) = fid (a + j) \<Longrightarrow> i = j"
proof -
  assume ij: "i < fid_period" "j < fid_period" and "fid (a + i) = fid (a + j)"
  then have "unat (fid (a + i)) = unat (fid (a + j))" by simp
  then have "(a + i) mod fid_period = (a + j) mod fid_period" by (simp only: unat_fid add_right_cancel)
  with ij show ?thesis by (rule mod_shift_inj)
qed

text \<open>C19: the forward identifiers are never 0 (the value a stream has before its agent is
  connected) and the first \<open>2^64 - 2\<close> of them are all different, also across the wrap-around
  of the counter.\<close>

theorem forward_ids_distinct:
  assumes "aval_forward_id s \<noteq> 0" and "n \<le> 2 ^ 64 - 2"
  shows "\<exists>ids s'. forward_ids n s = Inr (ids, s') \<and> length ids = n \<and> distinct ids \<and> 0 \<notin> set ids"
proof -
  let ?a = "fid_no (aval_forward_id s)"
  obtain s' where run: "forward_ids n s = Inr (map (\<lambda>k. fid (?a + k)) [0..<n], s')"
    using forward_ids_run [OF assms(1)] by blast
  have "inj_on (\<lambda>k. fid (?a + k)) {0..<n}"
    using assms(2) by (intro inj_onI fid_inj [of _ _ ?a]) auto
  moreover have "fid k \<noteq> 0" for k
    using unat_fid [of k] by auto
  ultimately show ?thesis
    using run by (auto simp: distinct_map)
qed

theorem forward_ids_distinct_witness:
  "\<exists>ids s'. forward_ids 1000 demo = Inr (ids, s') \<and> length ids = 1000 \<and> distinct ids \<and> 0 \<notin> set ids"
  by (rule forward_ids_distinct) (simp_all add: demo_def)

end
