(* ===== verification/TmsConn.thy ===== *)
theory TmsConn
  imports Billing
begin

text \<open>
  Connections of tms (\<^verbatim>\<open>ConnectMgr.cpp\<close>) below the message handlers: epoll registration,
  sending, creation and destruction of connections, and the pairing of a tunnel with an
  agent connection through a stream control block (\<^verbatim>\<open>UserMgr.cpp\<close>, \<^verbatim>\<open>SCB.cpp\<close>).
\<close>

subsection \<open>Events\<close>

definition AddEvent :: "u64 \<Rightarrow> u64 \<Rightarrow> u64 \<Rightarrow> int tmsprog" where
  "AddEvent epfd fd ev =
     (if epfd = 0 \<or> fd = 0 \<or> ev = 0 then ret (- 1) else sys_epoll (EpollAdd fd ev))"

definition RemoveEvent :: "u64 \<Rightarrow> u64 \<Rightarrow> u64 \<Rightarrow> int tmsprog" where
  "RemoveEvent epfd fd ev =
     (if epfd = 0 \<or> fd = 0 \<or> ev = 0 then ret (- 1) else sys_epoll (EpollDel fd))"

definition ModifyEvent :: "u64 \<Rightarrow> u64 \<Rightarrow> u64 \<Rightarrow> int tmsprog" where
  "ModifyEvent epfd fd ev =
     (if epfd = 0 \<or> fd = 0 \<or> ev = 0 then ret (- 1) else sys_epoll (EpollMod fd ev))"

subsection \<open>Sending\<close>

definition SendMsg :: "ptr \<Rightarrow> bytes \<Rightarrow> int tmsprog" where
  "SendMsg p msg = andThen (conn_at p) (\<lambda>c. sys_send (c_sock_fd c) msg)"

text \<open>\<^verbatim>\<open>SendTmsMsg\<close> builds the packet in a static buffer of 1024 bytes.\<close>

definition SendTmsMsg :: "ptr \<Rightarrow> bytes \<Rightarrow> int tmsprog" where
  "SendTmsMsg p msg =
     andThen (require OutOfBounds (sizeof_hdr + length msg \<le> 1024)) (\<lambda>_.
     andThen (conn_at p) (\<lambda>c.
     andThen (sys_send (c_sock_fd c) (frame msg)) (\<lambda>sentlen.
     if sentlen \<noteq> int (sizeof_hdr + length msg) then ret sentlen
     else if c_type c = t_tunnel \<and> c_user c \<noteq> 0 then
       andThen (gets build_accurate) (\<lambda>acc.
       andThen (RecordTraffic (c_user c) (c_scb c) (word_of_int (TrafficEst acc sentlen))) (\<lambda>rec_ret.
       if rec_ret \<noteq> 0 \<or> c_scb c = 0
       then andThen (upd_conn p (\<lambda>c. c\<lparr>c_exit := 1\<rparr>)) (\<lambda>_. ret (- 1))
       else ret sentlen))
     else ret sentlen)))"

subsection \<open>Connection objects\<close>

text \<open>In \<^verbatim>\<open>Connect::Reset\<close> the last two assignments declare locals that shadow the members
  \<^verbatim>\<open>offset\<close> and \<^verbatim>\<open>datalen\<close>, so these keep their values.\<close>

definition Connect_Reset :: "Connect \<Rightarrow> Connect" where
  "Connect_Reset c = c
     \<lparr>c_stillneedtoread := 0, c_cstate := s_header, c_status := sta_offline, c_sdk_verified := 0,
      c_agent_status := 0, c_type := 0, c_app := 0, c_user := 0, c_scb := 0, c_sock_fd := - 1\<rparr>"

text \<open>The destructor, and \<^verbatim>\<open>delete\<close>.\<close>

definition dtor :: "ptr \<Rightarrow> unit tmsprog" where
  "dtor p =
     andThen (conn_at p) (\<lambda>c.
     andThen (if 0 < c_sock_fd c
              then andThen (gets Epoll_FD) (\<lambda>e.
                   andThen (RemoveEvent e (c_sock_fd c) (EPOLLIN OR EPOLLOUT OR EPOLLET)) (\<lambda>_.
                   sys_close (c_sock_fd c)))
              else ret ()) (\<lambda>_.
     andThen (if c_scb c \<noteq> 0 \<and> c_type c = t_tunnel
              then upd_scb (c_scb c) (\<lambda>b. b\<lparr>s_tunnel_conn := 0\<rparr>) else ret ()) (\<lambda>_.
     if c_scb c \<noteq> 0 \<and> c_type c = t_agent
     then upd_scb (c_scb c) (\<lambda>b. b\<lparr>s_agent_conn := 0\<rparr>) else ret ())))"

definition delete_conn :: "ptr \<Rightarrow> unit tmsprog" where
  "delete_conn p = andThen (dtor p) (\<lambda>_. free_conn p)"

text \<open>\<^verbatim>\<open>HandleAcceptEvent\<close>: an object that the table still has for the descriptor is reset and
  used again.\<close>

definition accept_conn :: "u64 \<Rightarrow> ptr tmsprog" where
  "accept_conn fd =
     andThen (gets (\<lambda>s. map_find fd (ConnMap s))) (\<lambda>r.
     andThen (case r of
         Some p \<Rightarrow> andThen (upd_conn p Connect_Reset) (\<lambda>_. ret p)
       | None \<Rightarrow> new_conn) (\<lambda>p.
     andThen (upd_conn p (\<lambda>c. c\<lparr>c_sock_fd := fd\<rparr>)) (\<lambda>_.
     andThen (modify (\<lambda>s. s\<lparr>ConnMap := map_set fd p (ConnMap s)\<rparr>)) (\<lambda>_.
     andThen (upd_conn p (\<lambda>c. c\<lparr>c_stillneedtoread := of_nat sizeof_hdr\<rparr>)) (\<lambda>_.
     andThen gettimeofday (\<lambda>now.
     andThen (upd_conn p (\<lambda>c. c\<lparr>c_begin_time := now\<rparr>)) (\<lambda>_. ret p)))))))"

definition HandleAcceptEvent :: "int tmsprog" where
  "HandleAcceptEvent =
     andThen sys_fd (\<lambda>newfd.
     if newfd > 0 then andThen (accept_conn (word_of_int newfd)) (\<lambda>_. ret newfd)
     else ret newfd)"

definition GetConn :: "u64 \<Rightarrow> ptr tmsprog" where
  "GetConn fd = gets (\<lambda>s. case map_find fd (ConnMap s) of None \<Rightarrow> 0 | Some p \<Rightarrow> p)"

text \<open>The object for a freshly connected socket: entered in the table, then filled in.\<close>

definition enter_conn :: "u64 \<Rightarrow> (Connect \<Rightarrow> Connect) \<Rightarrow> ptr tmsprog" where
  "enter_conn fd f =
     andThen new_conn (\<lambda>p.
     andThen (modify (\<lambda>s. s\<lparr>ConnMap := map_set fd p (ConnMap s)\<rparr>)) (\<lambda>_.
     andThen (upd_conn p (\<lambda>c. f (c\<lparr>c_sock_fd := fd\<rparr>))) (\<lambda>_. ret p)))"

text \<open>\<^verbatim>\<open>CreateDnsConn\<close>, \<^verbatim>\<open>CreateDpiConn\<close> and \<^verbatim>\<open>CreateCenterConn\<close> return null or the new
  connection, which is put at the end of its pool.\<close>

definition CreateDnsConn :: "u32 \<Rightarrow> u16 \<Rightarrow> ptr tmsprog" where
  "CreateDnsConn ip port =
     andThen sys_fd (\<lambda>s.
     if s \<le> 0 then ret 0
     else
       andThen (sys_connect (word_of_int s) ip (htons port)) (\<lambda>r.
       if r < 0 then andThen (sys_close (word_of_int s)) (\<lambda>_. ret 0)
       else
         andThen (enter_conn (word_of_int s) (\<lambda>c. c\<lparr>c_type := t_dns, c_datalen := 0,
                    c_stillneedtoread := of_nat sizeof_buff\<rparr>)) (\<lambda>p.
         andThen (modify (\<lambda>s. s\<lparr>DnsConnPool := DnsConnPool s @ [p]\<rparr>)) (\<lambda>_. ret p))))"

definition CreateDpiConn :: "u32 \<Rightarrow> u16 \<Rightarrow> ptr tmsprog" where
  "CreateDpiConn ip port =
     andThen sys_fd (\<lambda>s.
     if s \<le> 0 then ret 0
     else
       andThen (sys_connect (word_of_int s) ip (htons port)) (\<lambda>r.
       if r < 0 then andThen (sys_close (word_of_int s)) (\<lambda>_. ret 0)
       else
         andThen (enter_conn (word_of_int s) (\<lambda>c. c\<lparr>c_type := t_dpi, c_cstate := s_header,
                    c_datalen := 0, c_stillneedtoread := of_nat sizeof_hdr\<rparr>)) (\<lambda>p.
         andThen (modify (\<lambda>s. s\<lparr>DpiConnPool := DpiConnPool s @ [p]\<rparr>)) (\<lambda>_. ret p))))"

definition CreateCenterConn :: "u32 \<Rightarrow> u16 \<Rightarrow> ptr tmsprog" where
  "CreateCenterConn ip port =
     andThen sys_fd (\<lambda>s.
     if s \<le> 0 then ret 0
     else
       andThen (sys_connect (word_of_int s) ip (htons port)) (\<lambda>r.
       if r < 0 then andThen (sys_close (word_of_int s)) (\<lambda>_. ret 0)
       else
         andThen (enter_conn (word_of_int s) (\<lambda>c. c\<lparr>c_type := t_center, c_cstate := s_header,
                    c_datalen := 0, c_stillneedtoread := of_nat sizeof_hdr\<rparr>)) (\<lambda>p.
         andThen (modify (\<lambda>s. s\<lparr>CenterConnPool := CenterConnPool s @ [p]\<rparr>)) (\<lambda>_. ret p))))"

text \<open>The address and port are passed in host order here and are converted for the socket.\<close>

definition CreateAgentConn :: "u32 \<Rightarrow> u16 \<Rightarrow> ptr tmsprog" where
  "CreateAgentConn ip port =
     andThen sys_fd (\<lambda>s.
     if s \<le> 0 then ret 0
     else
       andThen (sys_connect (word_of_int s) (htonl ip) (htons port)) (\<lambda>r.
       andThen get_errno (\<lambda>e.
       if r < 0 \<and> e \<noteq> EINPROGRESS then andThen (sys_close (word_of_int s)) (\<lambda>_. ret 0)
       else
         enter_conn (word_of_int s) (\<lambda>c. c\<lparr>c_status := sta_inprogress, c_cstate := s_forward,
                    c_type := t_agent, c_datalen := 0, c_stillneedtoread := of_nat sizeof_buff\<rparr>))))"

subsection \<open>The invariant\<close>

lemma ok_events: "tms.ok (AddEvent e fd ev) s" "tms.ok (RemoveEvent e fd ev) s" "tms.ok (ModifyEvent e fd ev) s"
  by (auto simp: AddEvent_def RemoveEvent_def ModifyEvent_def intro!: tms_ok)

lemma ok_SendMsg: "tms.ok (SendMsg p m) s"
  unfolding SendMsg_def by (auto intro!: tms.ok_andThen tms_ok)

lemma ok_SendTmsMsg: "tms.ok (SendTmsMsg p m) s"
  unfolding SendTmsMsg_def
  by (auto intro!: tms.ok_andThen tms_ok ok_RecordTraffic ok_upd_conn simp: conn_ok_def)

lemma ok_dtor: "tms.ok (dtor p) s"
  unfolding dtor_def
  by (auto intro!: tms.ok_andThen tms_ok ok_events ok_upd_scb simp: scb_ok_def)

lemma ok_GetConn: "tms.ok (GetConn fd) s"
  unfolding GetConn_def by (rule tms.ok_gets)

lemma enter_conn_run:
  "0 < h_next s \<Longrightarrow> enter_conn fd f s = Inr (h_next s,
     s\<lparr>os_tick := Suc (os_tick s), h_next := Suc (h_next s),
       h_conns := (h_conns s)(h_next s \<mapsto> f ((Connect_init (os_junk s (os_tick s)))\<lparr>c_sock_fd := fd\<rparr>)),
       ConnMap := map_set fd (h_next s) (ConnMap s)\<rparr>)"
  by (simp add: enter_conn_def)

lemma ok_enter_conn:
  assumes f: "\<And>c. conn_ok s c \<Longrightarrow> conn_ok s (f c) \<and> c_sock_fd (f c) = c_sock_fd c"
  shows "tms.ok (enter_conn fd f) s"
proof (rule tms.okI)
  fix x s'
  assume wf: "tms_wf s" and run: "enter_conn fd f s = Inr (x, s')"
  let ?c = "f ((Connect_init (os_junk s (os_tick s)))\<lparr>c_sock_fd := fd\<rparr>)"
  let ?s = "s\<lparr>h_next := Suc (h_next s), h_conns := (h_conns s)(h_next s \<mapsto> ?c)\<rparr>"
  have c: "conn_ok s ?c" "c_sock_fd ?c = fd"
    using f conn_ok_init [OF wf] by (auto simp: conn_ok_def)
  have "tms_wf (?s\<lparr>ConnMap := map_set fd (h_next s) (ConnMap ?s)\<rparr>)"
    using c(2) by (intro wf_ConnMap_set [OF wf_new_conn(1) [OF wf c(1)]]) auto
  moreover have "0 < h_next s"
    using wf by (simp add: tms_wf_def heap_ok_def)
  then have s': "s' = ?s\<lparr>ConnMap := map_set fd (h_next s) (ConnMap s), os_tick := Suc (os_tick s)\<rparr>"
    using run by (auto simp: enter_conn_run)
  moreover have "grows s s'"
    by (simp add: s' grows_def)
  ultimately show "tms_wf s' \<and> grows s s'"
    by simp
qed

lemma enter_conn_live:
  "0 < h_next s \<Longrightarrow> enter_conn fd f s = Inr (p, s') \<Longrightarrow> p = h_next s \<and> p \<noteq> 0"
  by (simp add: enter_conn_run)

lemma ok_Create:
  "tms.ok (CreateDnsConn ip port) s" "tms.ok (CreateDpiConn ip port) s"
  "tms.ok (CreateCenterConn ip port) s" "tms.ok (CreateAgentConn ip port) s"
  unfolding CreateDnsConn_def CreateDpiConn_def CreateCenterConn_def CreateAgentConn_def
  by (auto intro!: tms.ok_andThen tms_ok ok_enter_conn simp: conn_ok_def)

lemma keeps_events:
  assumes "\<And>s n. obs (s\<lparr>os_tick := n\<rparr>) = obs s" "\<And>s l. obs (s\<lparr>os_log := l\<rparr>) = obs s"
  shows "keeps obs (AddEvent e fd ev)" "keeps obs (RemoveEvent e fd ev)" "keeps obs (ModifyEvent e fd ev)"
  unfolding AddEvent_def RemoveEvent_def ModifyEvent_def
  by (auto intro!: keeps_if keeps_sys assms)

lemma dtor_keeps: "keeps h_conns (dtor p)" "keeps ConnMap (dtor p)"
  unfolding dtor_def
  by (intro keeps_andThen keeps_if keeps_heap_get keeps_gets keeps_ret keeps_events keeps_sys keeps_upd; simp)+

text \<open>A connection that the table does not mention may be deleted, and deleting one and then
  erasing its own entry is safe too.\<close>

lemma ok_delete_conn:
  assumes "\<And>fd. tms_wf s \<Longrightarrow> map_find fd (ConnMap s) \<noteq> Some p"
  shows "tms.ok (delete_conn p) s"
  unfolding delete_conn_def free_conn_def
proof (intro tms.ok_andThen ok_dtor tms.ok_modify)
  fix x s'
  assume wf: "tms_wf s" and run: "dtor p s = Inr (x, s')" and wf': "tms_wf s'"
  have "ConnMap s' = ConnMap s"
    using dtor_keeps(2) run by (rule keepsD)
  with wf' assms [OF wf] have "tms_wf (s'\<lparr>h_conns := (h_conns s')(p := None)\<rparr>)"
    by (intro wf_free_conn) auto
  then show "tms_wf (s'\<lparr>h_conns := (h_conns s')(p := None)\<rparr>) \<and> grows s' (s'\<lparr>h_conns := (h_conns s')(p := None)\<rparr>)"
    by (simp add: grows_def)
qed

lemma ok_delete_erase:
  assumes fd: "\<And>c. tms_wf s \<Longrightarrow> h_conns s p = Some c \<Longrightarrow> c_sock_fd c = fd"
  shows "tms.ok (andThen (delete_conn p) (\<lambda>_. modify (\<lambda>s. s\<lparr>ConnMap := map_erase fd (ConnMap s)\<rparr>))) s"
proof (rule tms.okI)
  fix x s'
  assume wf: "tms_wf s" and "andThen (delete_conn p) (\<lambda>_. modify (\<lambda>s. s\<lparr>ConnMap := map_erase fd (ConnMap s)\<rparr>)) s = Inr (x, s')"
  then obtain y t where d: "dtor p s = Inr (y, t)"
    and s': "s' = t\<lparr>h_conns := (h_conns t)(p := None), ConnMap := map_erase fd (ConnMap t)\<rparr>"
    by (auto simp: delete_conn_def free_conn_def andThen_eq_Inr_iff)
  have t: "tms_wf t" "grows s t" "h_conns t = h_conns s"
    using tms.okD [OF ok_dtor wf d] keepsD [OF dtor_keeps(1) d] by auto
  let ?e = "t\<lparr>ConnMap := map_erase fd (ConnMap t)\<rparr>"
  have e: "tms_wf ?e"
    using tms.okD [OF ok_ConnMap_erase t(1), of fd] by simp
  have "map_find k (ConnMap ?e) \<noteq> Some p" for k
  proof
    assume k: "map_find k (ConnMap ?e) = Some p"
    from wf_ConnMap [OF e k] fd [OF wf] t(3) have "k = fd" by auto
    with k show False by simp
  qed
  moreover have "s' = ?e\<lparr>h_conns := (h_conns ?e)(p := None)\<rparr>"
    unfolding s' by (rule tms.equality) simp_all
  ultimately have "tms_wf s'"
    using wf_free_conn [OF e] by simp
  moreover have "grows t s'"
    by (simp add: grows_def s')
  ultimately show "tms_wf s' \<and> grows s s'"
    using t(2) tms.G_trans by blast
qed

lemma accept_conn_new:
  assumes "0 < h_next s" "map_find fd (ConnMap s) = None"
  shows "accept_conn fd s = Inr (h_next s,
    s\<lparr>h_next := Suc (h_next s), ConnMap := map_set fd (h_next s) (ConnMap s),
      os_tick := Suc (Suc (os_tick s)),
      h_conns := (h_conns s)(h_next s \<mapsto> (Connect_init (os_junk s (os_tick s)))
        \<lparr>c_sock_fd := fd, c_stillneedtoread := 6, c_begin_time := os_clock s (Suc (os_tick s))\<rparr>)\<rparr>)"
  using assms by (simp add: accept_conn_def)

lemma accept_conn_old:
  assumes "p \<noteq> 0" "map_find fd (ConnMap s) = Some p" "h_conns s p = Some c"
  shows "accept_conn fd s = Inr (p,
    s\<lparr>ConnMap := map_set fd p (ConnMap s), os_tick := Suc (os_tick s),
      h_conns := (h_conns s)(p \<mapsto> (Connect_Reset c)
        \<lparr>c_sock_fd := fd, c_stillneedtoread := 6, c_begin_time := os_clock s (os_tick s)\<rparr>)\<rparr>)"
  using assms by (simp add: accept_conn_def)

lemma ok_accept_conn: "tms.ok (accept_conn fd) s"
proof (rule tms.okI)
  fix x s'
  assume wf: "tms_wf s" and run: "accept_conn fd s = Inr (x, s')"
  have pos: "0 < h_next s"
    using wf by (simp add: tms_wf_def heap_ok_def)
  show "tms_wf s' \<and> grows s s'"
  proof (cases "map_find fd (ConnMap s)")
    case None
    let ?c = "(Connect_init (os_junk s (os_tick s)))\<lparr>c_sock_fd := fd, c_stillneedtoread := 6, c_begin_time := os_clock s (Suc (os_tick s))\<rparr>"
    let ?s = "s\<lparr>h_next := Suc (h_next s), h_conns := (h_conns s)(h_next s \<mapsto> ?c)\<rparr>"
    have c: "conn_ok s ?c"
      using conn_ok_init [OF wf] by (simp add: conn_ok_def)
    have "tms_wf (?s\<lparr>ConnMap := map_set fd (h_next s) (ConnMap ?s)\<rparr>)"
      by (intro wf_ConnMap_set [OF wf_new_conn(1) [OF wf c]]) auto
    then have "tms_wf s'"
      by (rule tms_wf_cong [THEN iffD1, rotated -1]) (use run None pos in \<open>auto simp: accept_conn_new\<close>)
    moreover have "grows s s'"
      using run None pos by (auto simp: accept_conn_new grows_def)
    ultimately show ?thesis by (rule conjI)
  next
    case (Some p)
    from wf_ConnMap [OF wf Some] obtain c where c: "h_conns s p = Some c" "c_sock_fd c = fd" "p \<noteq> 0" "conn_ok s c"
      by blast
    let ?F = "\<lambda>c. (Connect_Reset c)\<lparr>c_sock_fd := fd, c_stillneedtoread := 6, c_begin_time := os_clock s (os_tick s)\<rparr>"
    have up: "tms.ok (upd_conn p ?F) s"
      using c by (intro ok_upd_conn) (auto simp: conn_ok_def Connect_Reset_def refs_defs)
    have "tms_wf (s\<lparr>h_conns := (h_conns s)(p \<mapsto> ?F c)\<rparr>) \<and> grows s (s\<lparr>h_conns := (h_conns s)(p \<mapsto> ?F c)\<rparr>)"
      using tms.okD [OF up wf] c by simp
    moreover from this have "tms_wf (s\<lparr>h_conns := (h_conns s)(p \<mapsto> ?F c)\<rparr>\<lparr>ConnMap := map_set fd p (ConnMap (s\<lparr>h_conns := (h_conns s)(p \<mapsto> ?F c)\<rparr>))\<rparr>)"
      by (elim conjE wf_ConnMap_set) auto
    then have "tms_wf s'"
      by (rule tms_wf_cong [THEN iffD1, rotated -1]) (use run Some c in \<open>auto simp: accept_conn_old\<close>)
    ultimately show ?thesis
      using run Some c by (auto simp: accept_conn_old grows_def)
  qed
qed

lemma ok_HandleAcceptEvent: "tms.ok HandleAcceptEvent s"
  unfolding HandleAcceptEvent_def by (auto intro!: tms.ok_andThen tms_ok ok_accept_conn)

subsection \<open>Taking a stream down\<close>

definition erase_entry :: "u64 \<Rightarrow> unit tmsprog" where
  "erase_entry fd = modify (\<lambda>s. s\<lparr>ConnMap := map_erase fd (ConnMap s)\<rparr>)"

text \<open>The other side of a stream is erased from the table and deleted.\<close>

definition drop_peer :: "ptr \<Rightarrow> unit tmsprog" where
  "drop_peer p =
     (if p \<noteq> 0
      then andThen (conn_at p) (\<lambda>a. andThen (erase_entry (c_sock_fd a)) (\<lambda>_. delete_conn p))
      else ret ())"

text \<open>The part of \<^verbatim>\<open>RemoveConn\<close> for a tunnel or an agent that has a user and a stream.\<close>

definition close_stream :: "ptr \<Rightarrow> unit tmsprog" where
  "close_stream p =
     andThen (conn_at p) (\<lambda>c.
     andThen (ReportOrAccumulate (c_user c) (c_scb c)) (\<lambda>_.
     andThen (if c_type c = t_tunnel then
                andThen (upd_scb (c_scb c) (\<lambda>b. b\<lparr>s_tunnel_conn := 0\<rparr>)) (\<lambda>_.
                andThen (scb_at (c_scb c)) (\<lambda>b. drop_peer (s_agent_conn b)))
              else if c_type c = t_agent then
                andThen (upd_scb (c_scb c) (\<lambda>b. b\<lparr>s_agent_conn := 0\<rparr>)) (\<lambda>_.
                andThen (scb_at (c_scb c)) (\<lambda>b. drop_peer (s_tunnel_conn b)))
              else ret ()) (\<lambda>_.
     andThen (conn_at p) (\<lambda>c.
     andThen (ReleaseSCB (c_user c) (c_scb c)) (\<lambda>_.
     upd_conn p (\<lambda>c. c\<lparr>c_user := 0\<rparr>))))))"

definition remove_found :: "u64 \<Rightarrow> ptr \<Rightarrow> int tmsprog" where
  "remove_found fd p =
     andThen (conn_at p) (\<lambda>c.
     andThen (if c_type c = t_center then
                modify (\<lambda>s. s\<lparr>CenterConnPool := remove1 p (CenterConnPool s)\<rparr>)
              else if c_type c = t_agent \<or> c_type c = t_tunnel then
                if c_user c \<noteq> 0 \<and> c_scb c \<noteq> 0 then close_stream p else ret ()
              else ret ()) (\<lambda>_.
     andThen (andThen (delete_conn p) (\<lambda>_. erase_entry fd)) (\<lambda>_. ret 0)))"

definition RemoveConn :: "u64 \<Rightarrow> int tmsprog" where
  "RemoveConn fd =
     (if sint fd < 0 then ret (- 1)
      else andThen (gets (\<lambda>s. map_find fd (ConnMap s))) (\<lambda>r. case r of
          None \<Rightarrow> ret 0
        | Some p \<Rightarrow> remove_found fd p))"

definition InformShutdownUser :: "u64 \<Rightarrow> int tmsprog" where
  "InformShutdownUser agent_fd =
     (if sint agent_fd < 0 then ret (- 1)
      else
        andThen (gets (\<lambda>s. map_find agent_fd (ConnMap s))) (\<lambda>r. case r of
          None \<Rightarrow> ret (- 1)
        | Some p \<Rightarrow>
            andThen (conn_at p) (\<lambda>c.
            if c_type c = t_agent \<and> c_user c \<noteq> 0 then
              andThen (ReportOrAccumulate (c_user c) (c_scb c)) (\<lambda>_.
              andThen (erase_entry agent_fd) (\<lambda>_.
              andThen (scb_at (c_scb c)) (\<lambda>b.
              andThen (drop_peer (s_tunnel_conn b)) (\<lambda>_.
              andThen (conn_at p) (\<lambda>c.
              andThen (upd_scb (c_scb c) (\<lambda>b. b\<lparr>s_agent_conn := 0\<rparr>)) (\<lambda>_.
              andThen (upd_conn p (\<lambda>c. c\<lparr>c_scb := 0, c_user := 0\<rparr>)) (\<lambda>_. ret 0)))))))
            else ret (- 1))))"

definition RecursiveRecycle :: "ptr \<Rightarrow> unit tmsprog" where
  "RecursiveRecycle scb =
     andThen (scb_at scb) (\<lambda>b.
     andThen (if s_agent_conn b \<noteq> 0
              then andThen (conn_at (s_agent_conn b)) (\<lambda>a. ret (c_sock_fd a = s_agent_fd b))
              else ret False) (\<lambda>agent.
     if agent then andThen (RemoveConn (s_agent_fd b)) (\<lambda>_. ret ())
     else
       andThen (if s_tunnel_conn b \<noteq> 0
                then andThen (conn_at (s_tunnel_conn b)) (\<lambda>t. ret (c_sock_fd t = s_tunn_fd b))
                else ret False) (\<lambda>tunnel.
       if tunnel then andThen (RemoveConn (s_tunn_fd b)) (\<lambda>_. ret ()) else ret ())))"

subsection \<open>Setting a stream up\<close>

text \<open>\<^verbatim>\<open>User::CreateSCB\<close>: the new block and the two connections are tied together.\<close>

definition tie_stream :: "ptr \<Rightarrow> ptr \<Rightarrow> ptr \<Rightarrow> Connect \<Rightarrow> ptr \<Rightarrow> ptr tmsprog" where
  "tie_stream u tunnel agent t q =
     andThen (upd_scb q (\<lambda>b. b\<lparr>s_user := u, s_dest_port := c_dest_port t, s_tunnel_conn := tunnel,
                               s_tunn_fd := c_sock_fd t\<rparr>)) (\<lambda>_.
     andThen gettimeofday (\<lambda>now.
     andThen (upd_scb q (\<lambda>b. b\<lparr>s_last_active_time := now\<rparr>)) (\<lambda>_.
     andThen (upd_conn tunnel (\<lambda>c. c\<lparr>c_user := u, c_scb := q\<rparr>)) (\<lambda>_.
     andThen (if agent \<noteq> 0 then
                andThen (conn_at agent) (\<lambda>a.
                andThen (upd_scb q (\<lambda>b. b\<lparr>s_agent_conn := agent, s_agent_fd := c_sock_fd a\<rparr>)) (\<lambda>_.
                upd_conn agent (\<lambda>c. c\<lparr>c_user := u, c_scb := q\<rparr>)))
              else ret ()) (\<lambda>_.
     andThen (scb_at q) (\<lambda>b.
     andThen (upd_user u (\<lambda>x. x\<lparr>u_scb_tree := map_insert (s_scbid b) q (u_scb_tree x)\<rparr>)) (\<lambda>_.
     ret q)))))))"

definition CreateSCB :: "ptr \<Rightarrow> ptr \<Rightarrow> ptr \<Rightarrow> ptr tmsprog" where
  "CreateSCB u tunnel agent =
     andThen (conn_at tunnel) (\<lambda>t.
     if c_scb t \<noteq> 0 then ret (c_scb t)
     else andThen NewSCB (tie_stream u tunnel agent t))"

definition tie_agent :: "ptr \<Rightarrow> ptr \<Rightarrow> ptr \<Rightarrow> u16 \<Rightarrow> Connect \<Rightarrow> Connect \<Rightarrow> ptr tmsprog" where
  "tie_agent u tunnel agent port t a =
     (if c_scb t \<noteq> 0 then
        andThen (upd_scb (c_scb t) (\<lambda>b. b\<lparr>s_dest_port := port, s_agent_conn := agent,
                                           s_agent_fd := c_sock_fd a\<rparr>)) (\<lambda>_.
        andThen (upd_conn agent (\<lambda>c. c\<lparr>c_user := u, c_scb := c_scb t\<rparr>)) (\<lambda>_.
        ret (c_scb t)))
      else CreateSCB u tunnel agent)"

definition ConnectWebServer :: "ptr \<Rightarrow> ptr \<Rightarrow> u32 \<Rightarrow> u16 \<Rightarrow> ptr tmsprog" where
  "ConnectWebServer u tunnel ip port =
     andThen (CreateAgentConn ip port) (\<lambda>agent.
     if agent = 0 then
       if tunnel \<noteq> 0 then
         andThen (SendTmsMsg tunnel (enc_ConnectHostRsp \<lparr>hp_rsp_code = RC_FAIL, hp_forward_id = 0\<rparr>)) (\<lambda>_.
         ret 0)
       else ret 0
     else
       andThen (conn_at tunnel) (\<lambda>t.
       andThen (conn_at agent) (\<lambda>a.
       andThen (tie_agent u tunnel agent port t a) (\<lambda>scb.
       andThen (gets Epoll_FD) (\<lambda>e.
       andThen (AddEvent e (c_sock_fd a) (EPOLLOUT OR EPOLLET)) (\<lambda>_.
       andThen (SendTmsMsg tunnel (enc_ConnectHostRsp \<lparr>hp_rsp_code = RC_PROG, hp_forward_id = 0\<rparr>)) (\<lambda>_.
       ret scb)))))))"

subsection \<open>Keeping tokens alive\<close>

text \<open>\<^verbatim>\<open>IncreaseExpireTime\<close> runs in a second thread that \<^verbatim>\<open>main\<close> does not start. Its counter \<^verbatim>\<open>i\<close> is
  not initialised: its first value is an argument here.\<close>

fun keep_alive_loop :: "ptr \<Rightarrow> bytes \<Rightarrow> (UserId \<times> ptr) list \<Rightarrow> int \<Rightarrow> int tmsprog" where
  "keep_alive_loop c t [] i = ret i"
| "keep_alive_loop c t (u # us) i =
     (if i = 16 then andThen (SendTmsMsg c t) (\<lambda>_. keep_alive_loop c t us 0)
      else keep_alive_loop c t us i)"

definition IncreaseExpireTime :: "int \<Rightarrow> int tmsprog" where
  "IncreaseExpireTime i =
     (let t = enc_KeepAliveToken \<lparr>ka_app = replicate 16 0, ka_mobile = replicate 16 0\<rparr> in
      andThen ExpireLocalUser (\<lambda>_.
      andThen GetCenterConn (\<lambda>c.
      andThen (gets UserMap) (\<lambda>us.
      andThen (keep_alive_loop c t us i) (\<lambda>i.
      andThen (if (if 0 < i \<and> i < 16 then 16 else i) > 0 then SendTmsMsg c t else ret 0) (\<lambda>_. ret 0))))))"

subsection \<open>The invariant of stream set-up and take-down\<close>

lemma ok_erase_entry: "tms.ok (erase_entry fd) s"
  unfolding erase_entry_def by (rule ok_ConnMap_erase)

lemma ok_drop_peer: "tms.ok (drop_peer p) s"
proof -
  have "tms.ok (andThen (erase_entry (c_sock_fd a)) (\<lambda>_. delete_conn p)) s" if "h_conns s p = Some a" for a
  proof (intro tms.ok_andThen ok_erase_entry ok_delete_conn notI)
    fix x s' fd
    assume wf: "tms_wf s'" and run: "erase_entry (c_sock_fd a) s = Inr (x, s')" and fd: "map_find fd (ConnMap s') = Some p"
    have s': "s' = s\<lparr>ConnMap := map_erase (c_sock_fd a) (ConnMap s)\<rparr>"
      using run unfolding erase_entry_def modify_apply by blast
    obtain c where "h_conns s' p = Some c" "c_sock_fd c = fd"
      using wf_ConnMap [OF wf fd] by blast
    with that s' fd show False by simp
  qed
  then show ?thesis
    unfolding drop_peer_def
    by (intro tms.ok_if tms.ok_ret tms.ok_andThen [OF ok_heap_get]) auto
qed

lemma ok_close_stream: "tms.ok (close_stream p) s"
  unfolding close_stream_def
  by (auto intro!: tms.ok_andThen tms_ok billing_ok ok_drop_peer ok_upd_scb ok_upd_conn
      simp: scb_ok_def conn_ok_def refs_defs)

lemma ok_remove_found:
  assumes p: "map_find fd (ConnMap s) = Some p"
  shows "tms.ok (remove_found fd p) s"
  unfolding remove_found_def
proof (rule tms.ok_andThen [OF ok_heap_get], rule tms.ok_andThen, goal_cases)
  case (1 c s0)
  show ?case by (auto intro!: tms_ok ok_close_stream)
next
  case (2 c s0 x t)
  then have wf: "tms_wf s" and c: "h_conns s p = Some c" and g: "grows s t" by auto
  have p': "p < h_next s" using wf_heap(1) [OF wf c] by simp
  obtain d where "h_conns s p = Some d" "c_sock_fd d = fd"
    using wf_ConnMap [OF wf p] by blast
  with c have "c_sock_fd c' = fd" if "h_conns t p = Some c'" for c'
    using growsD(4) [OF g p' that] by auto
  then show ?case
    unfolding erase_entry_def by (intro tms.ok_andThen ok_delete_erase tms.ok_ret)
qed

lemma ok_RemoveConn: "tms.ok (RemoveConn fd) s"
  unfolding RemoveConn_def
  by (auto intro!: tms.ok_if tms.ok_ret tms.ok_andThen tms.ok_gets ok_remove_found split: option.splits)

lemma ok_InformShutdownUser: "tms.ok (InformShutdownUser fd) s"
  unfolding InformShutdownUser_def
  by (auto intro!: tms.ok_andThen tms_ok billing_ok ok_drop_peer ok_erase_entry ok_upd_scb ok_upd_conn
      simp: scb_ok_def conn_ok_def refs_defs split: option.splits)

lemma ok_RecursiveRecycle: "tms.ok (RecursiveRecycle q) s"
  unfolding RecursiveRecycle_def
  by (auto intro!: tms.ok_andThen tms_ok ok_RemoveConn)

lemma ok_upd_conn_refs:
  assumes "live_user s u" "live_scb s q"
  shows "tms.ok (upd_conn p (\<lambda>c. c\<lparr>c_user := u, c_scb := q\<rparr>)) s"
  using assms by (intro ok_upd_conn) (auto simp: conn_ok_def refs_defs)

lemma ok_tie_stream:
  assumes u: "live_user s u" and q: "live_scb s q"
  shows "tms.ok (tie_stream u tunnel agent c q) s"
proof -
  have tree: "tms.ok (upd_user u (\<lambda>x. x\<lparr>u_scb_tree := map_insert i q (u_scb_tree x)\<rparr>)) t" if "live_scb t q" for i t
    using that set_map_insert [of i q] by (intro ok_upd_user) (fastforce simp: user_ok_def)
  have user: "tms.ok (upd_scb q (\<lambda>b. b\<lparr>s_user := u, s_dest_port := dp, s_tunnel_conn := tunnel, s_tunn_fd := tf\<rparr>)) s" for dp tf
    using u by (intro ok_upd_scb) (auto simp: scb_ok_def refs_defs)
  show ?thesis
    unfolding tie_stream_def using u q
    by (intro tms.ok_andThen user tree ok_upd_conn_refs tms_ok ok_upd_scb; (assumption | elim grows_refs | simp add: scb_ok_def))
qed

lemma ok_CreateSCB: "live_user s u \<Longrightarrow> tms.ok (CreateSCB u tunnel agent) s"
  unfolding CreateSCB_def
  by (auto intro!: tms.ok_if tms.ok_ret tms.ok_andThen [OF ok_heap_get] tms.ok_andThen [OF ok_NewSCB] ok_tie_stream
      intro: NewSCB_live grows_refs)

lemma ok_ConnectWebServer:
  assumes u: "live_user s u"
  shows "tms.ok (ConnectWebServer u tunnel ip port) s"
proof -
  have agent: "tms.ok (upd_conn agent (\<lambda>c. c\<lparr>c_user := u, c_scb := c_scb t\<rparr>)) s'"
    if "tms_wf s'" "live_user s' u" "c_scb t \<noteq> 0" "live_scb s' (c_scb t)" for agent t s'
    using that by (intro ok_upd_conn) (auto simp: conn_ok_def refs_defs)
  have scb: "live_scb s' (c_scb t)" if "tms_wf s'" "h_conns s' p = Some t" "c_scb t \<noteq> 0" for s' p t
    using wf_heap(1) [OF that(1,2)] that(3) by (auto simp: conn_ok_def refs_defs)
  have tie: "tms.ok (tie_agent u tunnel agent port t a) s'"
    if "live_user s' u" "h_conns s' p = Some t" for s' p t a agent
    unfolding tie_agent_def
    using that scb [of s' p t]
    by (auto intro!: tms.ok_if tms.ok_andThen ok_upd_scb agent tms.ok_ret ok_CreateSCB
        simp: scb_ok_def intro: grows_refs)
  show ?thesis
    unfolding ConnectWebServer_def
    by (auto intro!: tms.ok_if tms.ok_andThen [OF ok_Create(4)] tms.ok_andThen [OF ok_heap_get] tms.ok_andThen [OF tie]
        tms.ok_andThen [OF tms.ok_gets] tms.ok_andThen [OF ok_events(1)] tms.ok_andThen [OF ok_SendTmsMsg]
        tms.ok_ret intro: grows_refs(4) u)
qed

lemma ok_keep_alive_loop: "tms.ok (keep_alive_loop c t us i) s"
  by (induction us arbitrary: i s) (auto intro!: tms.ok_andThen tms_ok ok_SendTmsMsg)

lemma ok_IncreaseExpireTime: "tms.ok (IncreaseExpireTime i) s"
  unfolding IncreaseExpireTime_def Let_def
  by (auto intro!: tms.ok_andThen tms_ok ok_SendTmsMsg ok_keep_alive_loop billing_ok)

end
