(* ===== verification/Dns.thy ===== *)
theory Dns
  imports Wire
begin

text \<open>
  The DNS codec of tms (\<^verbatim>\<open>DnsCache.cpp\<close>): \<^verbatim>\<open>req_fill\<close> writes a query, \<^verbatim>\<open>res_parse\<close> reads a
  reply out of the receive buffer. Reads outside the buffer are faults.
\<close>

abbreviation (input) dot :: byte where "dot \<equiv> 0x2E"

subsection \<open>Queries\<close>

text \<open>The 12 bytes of \<^verbatim>\<open>dns_hdr\<close> with \<^verbatim>\<open>qid\<close>, \<^verbatim>\<open>rd = 1\<close> and \<^verbatim>\<open>qdcount = htons(1)\<close> set.\<close>

definition dns_qid :: "u32 \<Rightarrow> u16" where
  "dns_qid rv = ucast (drop_bit 16 rv XOR (rv OR 0xFFFF))"

definition dns_query_hdr :: "u32 \<Rightarrow> bytes" where
  "dns_query_hdr rv = st16 (dns_qid rv) @ [1, 0] @ st16 (htons 1) @ replicate 6 0"

text \<open>The loop over the host name: \<open>sec\<close> is the section since the last dot. A section is
  written as its length, truncated to a byte, and its bytes.\<close>

fun put_host :: "bytes \<Rightarrow> bytes \<Rightarrow> bytes" where
  "put_host [] sec = word_of_nat (length sec) # sec"
| "put_host (c # cs) sec =
     (if c = dot then (word_of_nat (length sec) # sec) @ put_host cs []
      else put_host cs (sec @ [c]))"

definition req_fill :: "u32 \<Rightarrow> bytes \<Rightarrow> bytes" where
  "req_fill rv host = dns_query_hdr rv @ put_host host [] @ [0] @ [0, 1, 0, 1]"

lemma length_put_host: "length (put_host cs sec) = length sec + length cs + 1"
  by (induction cs sec rule: put_host.induct) auto

lemma length_req_fill: "length (req_fill rv host) = length host + 18"
  by (simp add: req_fill_def dns_query_hdr_def length_put_host)

subsection \<open>Replies\<close>

definition be16 :: "bytes \<Rightarrow> nat \<Rightarrow> nat" where
  "be16 m i = unat (htons (ld16 m i))"

text \<open>The \<^verbatim>\<open>do ... while (1)\<close> loop over the sections of a name. No compression pointers: any
  non-zero byte is a length.\<close>

function get_host :: "bytes \<Rightarrow> nat \<Rightarrow> bytes \<Rightarrow> fault + (bytes \<times> nat)" where
  "get_host m i s =
     (if length m \<le> i then Inl OutOfBounds
      else let n = unat (m ! i) in
        if n = 0 then Inr (s, i + 1)
        else if length m < i + 1 + n then Inl OutOfBounds
        else get_host m (i + 1 + n) ((if s = [] then [] else s @ [dot]) @ ldn m (i + 1) n))"
  by pat_completeness auto
termination
  by (relation "measure (\<lambda>(m, i, s). length m - i)") auto

declare get_host.simps [simp del]

fun get_questions :: "nat \<Rightarrow> bytes \<Rightarrow> nat \<Rightarrow> fault + ((bytes \<times> u32) list \<times> nat)" where
  "get_questions 0 m i = Inr ([], i)"
| "get_questions (Suc q) m i =
     (case get_host m i [] of Inl f \<Rightarrow> Inl f
      | Inr (s, j) \<Rightarrow>
          (case get_questions q m (j + 4) of Inl f \<Rightarrow> Inl f
           | Inr (rs, k) \<Rightarrow> Inr ((s, 0) # rs, k)))"

text \<open>The loop over the answers. A record that is not of type A is skipped without counting
  it; the first address ends the loop and becomes the address of the first question.\<close>

function get_answers :: "nat \<Rightarrow> nat \<Rightarrow> bytes \<Rightarrow> nat \<Rightarrow> (bytes \<times> u32) list \<Rightarrow> fault + (bytes \<times> u32) list" where
  "get_answers answers k m i rs =
     (if answers \<le> k then Inr rs
      else if length m < i + 12 then Inl OutOfBounds
      else let len = be16 m (i + 10); j = i + 12 in
        if be16 m (i + 2) \<noteq> 1 then get_answers answers k m (j + len) rs
        else if len = 4 then
          if length m < j + 4 then Inl OutOfBounds
          else Inr (rs[0 := (fst (rs ! 0), htonl (ld32 m j))])
        else get_answers answers (k + 1) m (j + len) rs)"
  by pat_completeness auto
termination
  by (relation "measure (\<lambda>(answers, k, m, i, rs). length m - i)") auto

declare get_answers.simps [simp del]

definition res_parse :: "bytes \<Rightarrow> fault + (bytes \<times> u32) list" where
  "res_parse m =
     (if length m < 12 then Inl OutOfBounds
      else let questions = be16 m 4; answers = be16 m 6 in
        case get_questions questions m 12 of Inl f \<Rightarrow> Inl f
        | Inr (rs, i) \<Rightarrow> if questions = 0 then Inr rs else get_answers answers 0 m i rs)"

subsection \<open>Names survive the codec\<close>

text \<open>A host name as its sections.\<close>

fun join_dots :: "bytes list \<Rightarrow> bytes" where
  "join_dots [] = []"
| "join_dots [l] = l"
| "join_dots (l # ls) = l @ dot # join_dots ls"

definition sections_ok :: "bytes list \<Rightarrow> bool" where
  "sections_ok ls \<longleftrightarrow> ls \<noteq> [] \<and> (\<forall>l \<in> set ls. l \<noteq> [] \<and> length l < 256 \<and> dot \<notin> set l)"

definition put_sections :: "bytes list \<Rightarrow> bytes" where
  "put_sections ls = concat (map (\<lambda>l. word_of_nat (length l) # l) ls)"

lemma put_host_section:
  "dot \<notin> set l \<Longrightarrow> put_host (l @ cs) sec = put_host cs (sec @ l)"
  by (induction l arbitrary: sec) auto

lemma put_host_join: "sections_ok ls \<Longrightarrow> put_host (join_dots ls) [] = put_sections ls"
proof (induction ls rule: join_dots.induct)
  case (2 l)
  then show ?case
    using put_host_section [of l "[]" "[]"] by (simp add: sections_ok_def put_sections_def)
next
  case (3 l l' ls)
  then have "sections_ok (l' # ls)" "dot \<notin> set l"
    by (auto simp: sections_ok_def)
  with 3 show ?case
    using put_host_section [of l "dot # join_dots (l' # ls)" "[]"] by (simp add: put_sections_def)
qed (simp add: sections_ok_def)

lemma get_host_step:
  assumes "length p = i" "0 < length l" "length l < 256"
  shows "get_host (p @ (word_of_nat (length l) # l) @ r) i s =
    get_host (p @ (word_of_nat (length l) # l) @ r) (i + 1 + length l) ((if s = [] then [] else s @ [dot]) @ l)"
  using assms by (simp add: get_host.simps [of _ i s] nth_append ldn_def unat_of_nat Let_def)

lemma get_host_sections:
  "sections_ok ls \<Longrightarrow> length p = i \<Longrightarrow>
   get_host (p @ put_sections ls @ 0 # r) i s =
     Inr ((if s = [] then [] else s @ [dot]) @ join_dots ls, i + length (put_sections ls) + 1)"
proof (induction ls arbitrary: p i s rule: join_dots.induct)
  case (2 l)
  then have l: "0 < length l" "length l < 256" by (auto simp: sections_ok_def)
  from get_host_step [OF "2.prems"(2) l, of "0 # r" s] l "2.prems"(2) show ?case
    by (simp add: put_sections_def get_host.simps [of _ "Suc (i + length l)"] nth_append)
next
  case (3 l l' ls)
  then have l: "0 < length l" "length l < 256" and rest: "sections_ok (l' # ls)"
    by (auto simp: sections_ok_def)
  let ?q = "p @ word_of_nat (length l) # l" and ?s = "(if s = [] then [] else s @ [dot]) @ l"
  have "get_host (?q @ put_sections (l' # ls) @ 0 # r) (i + 1 + length l) ?s =
     Inr ((if ?s = [] then [] else ?s @ [dot]) @ join_dots (l' # ls),
       i + 1 + length l + length (put_sections (l' # ls)) + 1)"
    using "3.prems"(2) by (intro "3.IH" rest) simp
  with get_host_step [OF "3.prems"(2) l, of "put_sections (l' # ls) @ 0 # r" s] l show ?case
    by (auto simp: put_sections_def)
qed (simp add: sections_ok_def)

subsection \<open>Replies of a name server\<close>

text \<open>The wire format of a reply to one question (RFC 1035): header, the question echoed, and
  resource records with a compressed name.\<close>

definition net16 :: "nat \<Rightarrow> bytes" where
  "net16 n = rev (to_le 2 n)"

definition dns_rr :: "nat \<Rightarrow> bytes \<Rightarrow> bytes \<Rightarrow> bytes" where
  "dns_rr ty ttl data = [0xC0, 0x0C] @ net16 ty @ [0, 1] @ ttl @ net16 (length data) @ data"

definition rr_ok :: "nat \<times> bytes \<times> bytes \<Rightarrow> bool" where
  "rr_ok r = (case r of (ty, ttl, data) \<Rightarrow> ty < 65536 \<and> length ttl = 4 \<and> length data < 65536)"

definition dns_reply :: "u32 \<Rightarrow> bytes \<Rightarrow> (nat \<times> bytes \<times> bytes) list \<Rightarrow> bytes" where
  "dns_reply rv host rrs =
     (st16 (dns_qid rv) @ [0x81, 0x80] @ net16 1 @ net16 (length rrs) @ replicate 4 0)
     @ put_host host [] @ [0] @ [0, 1, 0, 1] @ concat (map (\<lambda>(ty, ttl, data). dns_rr ty ttl data) rrs)"

lemma be16_net16: "length p = i \<Longrightarrow> n < 65536 \<Longrightarrow> be16 (p @ net16 n @ r) i = n"
  using from_le_less_len(1) [of "rev (to_le 2 n)"] to_le_from_le [of "rev (to_le 2 n)"]
  by (simp add: be16_def ld16_def net16_def htons_def from_le_to_le unat_of_nat)

lemma length_net16 [simp]: "length (net16 n) = 2"
  by (simp add: net16_def)

lemma dns_rr_fields:
  assumes "length p = i" "rr_ok (ty, ttl, data)"
  shows "be16 (p @ dns_rr ty ttl data @ r) (i + 2) = ty"
    "be16 (p @ dns_rr ty ttl data @ r) (i + 10) = length data"
    "length (dns_rr ty ttl data) = 12 + length data"
    "ldn (p @ dns_rr ty ttl data @ r) (i + 12) (length data) = data"
proof -
  show "length (dns_rr ty ttl data) = 12 + length data"
    using assms by (simp add: dns_rr_def rr_ok_def)
  show "be16 (p @ dns_rr ty ttl data @ r) (i + 2) = ty"
    using assms be16_net16 [of "p @ [0xC0, 0x0C]" "i + 2" ty] by (simp add: dns_rr_def rr_ok_def)
  show "be16 (p @ dns_rr ty ttl data @ r) (i + 10) = length data"
    using assms be16_net16 [of "p @ [0xC0, 0x0C] @ net16 ty @ [0, 1] @ ttl" "i + 10" "length data"]
    by (simp add: dns_rr_def rr_ok_def)
  show "ldn (p @ dns_rr ty ttl data @ r) (i + 12) (length data) = data"
    using assms by (simp add: dns_rr_def rr_ok_def ldn_def)
qed

lemma get_answers_other:
  assumes "length p = i" "rr_ok (ty, ttl, data)" "ty \<noteq> 1" "k < a"
  shows "get_answers a k (p @ dns_rr ty ttl data @ r) i rs =
    get_answers a k (p @ dns_rr ty ttl data @ r) (i + length (dns_rr ty ttl data)) rs"
  using assms dns_rr_fields(1,2) [OF assms(1,2), of r] dns_rr_fields(3) [OF assms(1,2)]
  by (simp add: get_answers.simps [of a k _ i] Let_def add.assoc)


abbreviation "rr_bytes rrs \<equiv> concat (map (\<lambda>(ty, ttl, data). dns_rr ty ttl data) rrs)"

lemma get_answers_skip:
  "\<forall>r \<in> set rrs. rr_ok r \<and> fst r \<noteq> 1 \<Longrightarrow> k < a \<Longrightarrow> length p = i \<Longrightarrow>
   get_answers a k (p @ rr_bytes rrs @ q) i rs =
     get_answers a k (p @ rr_bytes rrs @ q) (i + length (rr_bytes rrs)) rs"
proof (induction rrs arbitrary: p i)
  case Nil
  then show ?case by simp
next
  case (Cons x rrs)
  obtain ty ttl data where x: "x = (ty, ttl, data)" by (cases x)
  let ?p = "p @ dns_rr ty ttl data"
  have "get_answers a k (?p @ rr_bytes rrs @ q) (i + length (dns_rr ty ttl data)) rs =
     get_answers a k (?p @ rr_bytes rrs @ q) (i + length (dns_rr ty ttl data) + length (rr_bytes rrs)) rs"
    using Cons.prems by (intro Cons.IH) auto
  with get_answers_other [of p i ty ttl data k a "rr_bytes rrs @ q" rs] Cons.prems x show ?case
    by (simp add: add.assoc)
qed

lemma res_parse_reply:
  assumes "sections_ok ls" "length rrs < 65536"
  shows "res_parse (dns_reply rv (join_dots ls) rrs @ q) =
    (let p = dns_reply rv (join_dots ls) [] in
     get_answers (length rrs) 0
       ((st16 (dns_qid rv) @ [0x81, 0x80] @ net16 1 @ net16 (length rrs) @ replicate 4 0)
        @ put_host (join_dots ls) [] @ [0] @ [0, 1, 0, 1] @ rr_bytes rrs @ q) (length p) [(join_dots ls, 0)])"
proof -
  let ?h = "st16 (dns_qid rv) @ [0x81, 0x80] @ net16 1 @ net16 (length rrs) @ replicate 4 0"
  let ?m = "?h @ put_sections ls @ 0 # [0, 1, 0, 1] @ rr_bytes rrs @ q"
  have m: "dns_reply rv (join_dots ls) rrs @ q = ?m"
    using assms by (simp add: dns_reply_def put_host_join)
  have "be16 ?m 4 = 1" "be16 ?m 6 = length rrs"
    using be16_net16 [of "st16 (dns_qid rv) @ [0x81, 0x80]" 4 1]
      be16_net16 [of "st16 (dns_qid rv) @ [0x81, 0x80] @ net16 1" 6 "length rrs"] assms(2)
    by simp_all
  moreover have "get_questions 1 ?m 12 = Inr ([(join_dots ls, 0)], 12 + length (put_sections ls) + 5)"
    using get_host_sections [OF assms(1), of ?h 12 "[0, 1, 0, 1] @ rr_bytes rrs @ q" "[]"]
    by (simp add: eval_nat_numeral)
  ultimately show ?thesis
    unfolding m res_parse_def
    using assms by (simp add: dns_reply_def put_host_join Let_def)
qed


subsection \<open>What a name server answers\<close>








lemma be16_zero: "length p \<le> i \<Longrightarrow> be16 (p @ replicate n 0) i = 0"
proof -
  assume "length p \<le> i"
  then have "take 2 (drop i (p @ replicate n 0)) = replicate (min 2 (n - (i - length p))) 0"
    by simp
  moreover have "from_le (replicate k 0) = 0" for k
    by (induction k) auto
  ultimately have "ld16 (p @ replicate n 0) i = 0"
    by (simp add: ld16_def)
  moreover have "htons 0 = 0"
    by (simp add: htons_def numeral_2_eq_2)
  ultimately show ?thesis
    by (simp add: be16_def)
qed

lemma get_answers_zeros:
  "length p \<le> i \<Longrightarrow> k < a \<Longrightarrow> get_answers a k (p @ replicate n 0) i rs = Inl OutOfBounds"
proof (induction "length (p @ replicate n 0) - i" arbitrary: i rule: less_induct)
  case less
  show ?case
  proof (cases "length (p @ replicate n 0) < i + 12")
    case True
    with less.prems show ?thesis by (simp add: get_answers.simps [of a k _ i])
  next
    case False
    then have "get_answers a k (p @ replicate n 0) (i + 12) rs = Inl OutOfBounds"
      using less.prems by (intro less.hyps) auto
    with False less.prems be16_zero [of p "i + 2" n] be16_zero [of p "i + 10" n] show ?thesis
      by (simp add: get_answers.simps [of a k _ i] Let_def)
  qed
qed

text \<open>C7: a reply without any A record (for example an IPv6-only or an alias-only answer) is
  read past its end: records of other types are not counted, so the loop goes on through the
  zeroed rest of the receive buffer and reads outside it.\<close>

theorem dns_no_address_overrun:
  assumes host: "sections_ok ls"
    and other: "rrs \<noteq> []" "\<forall>r \<in> set rrs. rr_ok r \<and> fst r \<noteq> 1" "length rrs < 65536"
  shows "res_parse (dns_reply rv (join_dots ls) rrs @ replicate n 0) = Inl OutOfBounds"
proof -
  let ?h = "st16 (dns_qid rv) @ [0x81, 0x80] @ net16 1 @ net16 (length rrs) @ replicate 4 0"
  let ?p = "?h @ put_host (join_dots ls) [] @ [0] @ [0, 1, 0, 1]"
  let ?n = "length (dns_reply rv (join_dots ls) [])"
  have n: "length ?p = ?n" by (simp add: dns_reply_def)
  have pos: "0 < length rrs" using other(1) by simp
  have "res_parse (dns_reply rv (join_dots ls) rrs @ replicate n 0) =
      get_answers (length rrs) 0 (?p @ rr_bytes rrs @ replicate n 0) ?n [(join_dots ls, 0)]"
    using res_parse_reply [OF host other(3), of rv "replicate n 0"] by (simp add: Let_def)
  also have "\<dots> = get_answers (length rrs) 0 (?p @ rr_bytes rrs @ replicate n 0) (?n + length (rr_bytes rrs)) [(join_dots ls, 0)]"
    using pos n by (intro get_answers_skip other)
  also have "\<dots> = Inl OutOfBounds"
    using get_answers_zeros [of "?p @ rr_bytes rrs" "?n + length (rr_bytes rrs)" 0 "length rrs" n] n pos
    by simp
  finally show ?thesis .
qed

theorem dns_no_address_overrun_witness:
  "res_parse (dns_reply 7 (ascii ''v6'') [(28, [0, 0, 0, 9], replicate 16 1)] @ replicate 8000 0) = Inl OutOfBounds"
proof -
  have "sections_ok [ascii ''v6'']"
    by (simp add: sections_ok_def ascii_def)
  then show ?thesis
    using dns_no_address_overrun [of "[ascii ''v6'']" "[(28, [0, 0, 0, 9], replicate 16 1)]" 7 8000]
    by (simp add: rr_ok_def)
qed

end
