(* ===== verification/TmsDns.thy ===== *)
theory TmsDns
  imports TmsConn Dns
begin

text \<open>
  The name cache of tms (\<^verbatim>\<open>DnsCache.cpp\<close>) and the handling of replies of the name server:
  streams wait for a name in a multimap; a reply enters the name in the cache and connects the
  waiting streams to the address.
\<close>

definition AddWaitLists :: "bytes \<Rightarrow> ptr \<Rightarrow> unit tmsprog" where
  "AddWaitLists host scb =
     andThen (scb_at scb) (\<lambda>b.
     andThen (user_at (s_user b)) (\<lambda>u.
     andThen (modify (\<lambda>s. s\<lparr>waiting_scb := mm_insert host (UserId (u_mobile u) (u_app u), s_scbid b) (waiting_scb s)\<rparr>)) (\<lambda>_.
     modify (\<lambda>s. s\<lparr>expiring_scb := mm_insert (fst (s_last_active_time b)) (UserId (u_mobile u) (u_app u), s_scbid b) (expiring_scb s)\<rparr>))))"

definition dns_fail_rsp :: bytes where
  "dns_fail_rsp = enc_LoginRsp (LoginRsp_init\<lparr>lp_rsp_code := HOST_NOT_EXIST\<rparr>)"

text \<open>One round of the loop in \<^verbatim>\<open>InformClients\<close>.\<close>

definition inform_stream :: "ptr \<Rightarrow> ptr \<Rightarrow> u32 \<Rightarrow> unit tmsprog" where
  "inform_stream user scb ip =
     andThen (scb_at scb) (\<lambda>b.
     if ip \<noteq> 0 then
       if s_tunnel_conn b = 0 then ret ()
       else
         andThen (ConnectWebServer user (s_tunnel_conn b) ip (s_dest_port b)) (\<lambda>s.
         if s = 0 then
           andThen (scb_at scb) (\<lambda>b.
           andThen (SendTmsMsg (s_tunnel_conn b) dns_fail_rsp) (\<lambda>_. ret ()))
         else ret ())
     else andThen (SendTmsMsg (s_tunnel_conn b) dns_fail_rsp) (\<lambda>_. ret ()))"

definition inform_one :: "u32 \<Rightarrow> USCBId \<Rightarrow> unit tmsprog" where
  "inform_one ip w =
     andThen (gets (\<lambda>s. map_find (fst w) (UserMap s))) (\<lambda>r. case r of
       None \<Rightarrow> ret ()
     | Some user \<Rightarrow>
         andThen (user_at user) (\<lambda>u.
         case map_find (snd w) (u_scb_tree u) of
           None \<Rightarrow> ret ()
         | Some scb \<Rightarrow> if scb = 0 then ret () else inform_stream user scb ip))"

definition InformClients :: "bytes \<Rightarrow> u32 \<Rightarrow> unit tmsprog" where
  "InformClients host ip =
     andThen (gets (\<lambda>s. mm_range host (waiting_scb s))) (\<lambda>ws.
     andThen (foreach ws (inform_one ip)) (\<lambda>_.
     modify (\<lambda>s. s\<lparr>waiting_scb := mm_erase host (waiting_scb s)\<rparr>)))"

text \<open>The keys are signed times.\<close>

definition ExpireWaitLists :: "unit tmsprog" where
  "ExpireWaitLists =
     andThen gettimeofday (\<lambda>tv.
     modify (\<lambda>s. s\<lparr>expiring_scb := dropWhile (\<lambda>e. sint (fst e) < sint (fst tv) - 5) (expiring_scb s)\<rparr>))"

definition DnsUpdate :: "(bytes \<times> u32) list \<Rightarrow> unit tmsprog" where
  "DnsUpdate rs = foreach rs (\<lambda>r. modify (\<lambda>s. s\<lparr>Cache := map_set (fst r) (snd r) (Cache s)\<rparr>))"

text \<open>A datagram is read into the front of the buffer; what it does not cover is left from
  earlier reads.\<close>

definition dns_datagram :: "ptr \<Rightarrow> bytes \<Rightarrow> unit tmsprog" where
  "dns_datagram p d =
     andThen (upd_conn p (\<lambda>c. c\<lparr>c_buff := blit (c_buff c) 0 d\<rparr>)) (\<lambda>_.
     andThen (conn_at p) (\<lambda>c.
     case res_parse (c_buff c) of
       Inl f \<Rightarrow> fail f
     | Inr rs \<Rightarrow> andThen (DnsUpdate rs) (\<lambda>_. foreach rs (\<lambda>r. InformClients (fst r) (snd r)))))"

text \<open>\<^verbatim>\<open>DnsRecvEvent\<close>: a read takes one datagram and drops what does not fit; the value is that
  of the last read.\<close>

fun DnsRecvEvent :: "ptr \<Rightarrow> bytes list \<Rightarrow> int tmsprog" where
  "DnsRecvEvent p [] = andThen (conn_at p) (\<lambda>_. ret (- 1))"
| "DnsRecvEvent p (d # ds) =
     andThen (conn_at p) (\<lambda>_.
     if d = [] then ret 0
     else andThen (dns_datagram p (take sizeof_buff d)) (\<lambda>_. DnsRecvEvent p ds))"

subsection \<open>The invariant\<close>

lemma wf_waiting:
  assumes "tms_wf s" "mm_wf w"
  shows "tms_wf (s\<lparr>waiting_scb := w\<rparr>)" "grows s (s\<lparr>waiting_scb := w\<rparr>)"
  using assms by (simp_all add: tms_wf_defs refs_defs)

lemma wf_expiring:
  assumes "tms_wf s" "mm_wf w"
  shows "tms_wf (s\<lparr>expiring_scb := w\<rparr>)" "grows s (s\<lparr>expiring_scb := w\<rparr>)"
  using assms by (simp_all add: tms_wf_defs refs_defs)

lemma wf_mm: "tms_wf s \<Longrightarrow> mm_wf (waiting_scb s) \<and> mm_wf (expiring_scb s)"
  by (simp add: tms_wf_def lists_ok_def)

lemma ok_AddWaitLists: "tms.ok (AddWaitLists h q) s"
  unfolding AddWaitLists_def
  by (intro tms.ok_andThen ok_heap_get tms.ok_modify conjI wf_waiting wf_expiring mm_wf_insert) (simp_all add: wf_mm)

lemma ok_inform_stream: "live_user s u \<Longrightarrow> tms.ok (inform_stream u q ip) s"
  unfolding inform_stream_def
  by (auto intro!: tms.ok_if tms.ok_andThen [OF ok_heap_get] tms.ok_andThen [OF ok_ConnectWebServer]
      tms.ok_andThen [OF ok_SendTmsMsg] tms.ok_ret)

lemma ok_inform_one: "tms.ok (inform_one ip w) s"
  unfolding inform_one_def
  by (auto intro!: tms.ok_andThen tms_ok ok_inform_stream simp: live_user_def split: option.splits)

lemma ok_InformClients: "tms.ok (InformClients h ip) s"
  unfolding InformClients_def
  by (intro tms.ok_andThen tms.ok_gets tms.ok_foreach ok_inform_one tms.ok_modify conjI wf_waiting mm_wf_erase)
    (simp_all add: wf_mm)

lemma mm_wf_dropWhile: "mm_wf m \<Longrightarrow> mm_wf (dropWhile P m)"
  unfolding mm_wf_def by (induction m) auto

lemma ok_ExpireWaitLists: "tms.ok ExpireWaitLists s"
  unfolding ExpireWaitLists_def
  by (intro tms.ok_andThen ok_sys tms.ok_modify conjI wf_expiring mm_wf_dropWhile) (simp_all add: wf_mm)

lemma ok_DnsUpdate: "tms.ok (DnsUpdate rs) s"
  unfolding DnsUpdate_def by (intro tms.ok_foreach ok_pools)

lemma ok_dns_datagram: "length d \<le> sizeof_buff \<Longrightarrow> tms.ok (dns_datagram p d) s"
  unfolding dns_datagram_def
  by (auto intro!: tms.ok_andThen ok_upd_conn tms_ok ok_DnsUpdate tms.ok_foreach ok_InformClients
      simp: conn_ok_def split: sum.splits)

lemma ok_DnsRecvEvent: "tms.ok (DnsRecvEvent p ds) s"
  by (induction ds arbitrary: s) (auto intro!: tms.ok_andThen tms_ok ok_dns_datagram)

end
