(* ===== verification/TmsMsg.thy ===== *)
theory TmsMsg
  imports TmsDns
begin

text \<open>
  The messages tms handles (\<^verbatim>\<open>Connect::HandleRecvMsg\<close>): one definition per case of its
  switch. The message is read in place in the receive buffer of the connection, so a field
  outside the received length is whatever an earlier message left there.
\<close>

subsection \<open>Host names\<close>

text \<open>\<^verbatim>\<open>IpOrHost\<close>; \<^verbatim>\<open>char\<close> is signed.\<close>

fun ip_scan :: "bytes \<Rightarrow> nat \<Rightarrow> int" where
  "ip_scan [] point_count = (if point_count = 3 then 0 else - 1)"
| "ip_scan (c # cs) point_count =
     (if c = dot then ip_scan cs (point_count + 1)
      else if sint c < 0x30 \<and> sint c > 0x39 then - 1
      else ip_scan cs point_count)"

definition IpOrHost :: "bytes \<Rightarrow> int" where
  "IpOrHost host = ip_scan host 0"

subsection \<open>LOGIN_REQ\<close>

definition send_rsp :: "ptr \<Rightarrow> LoginRsp \<Rightarrow> int tmsprog" where
  "send_rsp p rsp = SendTmsMsg p (enc_LoginRsp rsp)"

text \<open>The request is copied into the connection. The token is copied up to its NUL into 32
  bytes and a NUL is written behind the host name.\<close>

definition login_store :: "ptr \<Rightarrow> unit tmsprog" where
  "login_store p =
     andThen (conn_at p) (\<lambda>c.
     let m = c_buff c; r = dec_LoginReq m; n = unat (lq_host_len r); tok = drop 18 m in
     andThen (require OutOfBounds (0 \<in> set tok \<and> c_strlen tok + 1 \<le> sizeof_token)) (\<lambda>_.
     andThen (require OutOfBounds (LoginReq_host + n < sizeof_buff)) (\<lambda>_.
     upd_conn p (\<lambda>c. c\<lparr>c_app := lq_app r, c_mobile := lq_mobile r, c_dest_port := lq_port r,
       c_token := blit (c_token c) 0 (take (c_strlen tok + 1) tok),
       c_buff := m[LoginReq_host + n := 0], c_curr_host := ldn m LoginReq_host n\<rparr>))))"

text \<open>The query goes out in a buffer of 512 bytes.\<close>

definition login_query :: "ptr \<Rightarrow> ptr \<Rightarrow> bytes \<Rightarrow> unit tmsprog" where
  "login_query u p host =
     andThen sys_random (\<lambda>rv.
     andThen (require OutOfBounds (length (req_fill rv host) \<le> 512)) (\<lambda>_.
     andThen (CreateSCB u p 0) (\<lambda>s.
     andThen (AddWaitLists host s) (\<lambda>_.
     andThen GetDnsConn (\<lambda>d.
     andThen (SendMsg d (req_fill rv host)) (\<lambda>_. ret ()))))))"

text \<open>The connection to the web server; the result is false when it could not be started.\<close>

definition login_connect :: "ptr \<Rightarrow> ptr \<Rightarrow> bytes \<Rightarrow> u16 \<Rightarrow> bool tmsprog" where
  "login_connect u p host port =
     (if IpOrHost host = 0 then
        andThen (gets (\<lambda>s. os_inet_addr s (c_str host))) (\<lambda>ip_be.
        andThen (ConnectWebServer u p (htonl ip_be) port) (\<lambda>s. ret (s \<noteq> 0)))
      else
        andThen (gets (\<lambda>s. map_find host (Cache s))) (\<lambda>r. case r of
          Some ip \<Rightarrow> andThen (ConnectWebServer u p ip port) (\<lambda>s. ret (s \<noteq> 0))
        | None \<Rightarrow> andThen (login_query u p host) (\<lambda>_. ret True)))"

definition handle_login :: "ptr \<Rightarrow> int tmsprog" where
  "handle_login p =
     andThen (login_store p) (\<lambda>_.
     andThen (conn_at p) (\<lambda>c.
     andThen (if c_mobile c = 0 \<or> c_curr_host c = []
              then send_rsp p (LoginRsp_init\<lparr>lp_rsp_code := PARAMET_ERR\<rparr>) else ret 0) (\<lambda>_.
     andThen GetCenterConn (\<lambda>cn.
     andThen (SendTmsMsg cn (enc_ReadTokenReq \<lparr>tq_cid = c_sock_fd c, tq_app = c_app c,
                tq_mobile = c_mobile c, tq_token = ldn (c_buff c) 18 32\<rparr>)) (\<lambda>_.
     andThen (RetrieveUser (UserId (c_mobile c) (c_app c))) (\<lambda>u.
     andThen (upd_conn p (\<lambda>c. c\<lparr>c_user := u\<rparr>)) (\<lambda>_.
     andThen (login_connect u p (c_curr_host c) (c_dest_port c)) (\<lambda>started.
     if started
     then andThen (send_rsp p (LoginRsp_init\<lparr>lp_rsp_code := RC_PROG\<rparr>)) (\<lambda>_. ret 0)
     else ret (- 1)))))))))"

subsection \<open>BEGIN_TRANSMIT\<close>

text \<open>The forward id of the stream has 64 bits, the one in the message 32.\<close>

definition handle_begin :: "ptr \<Rightarrow> int tmsprog" where
  "handle_begin p =
     andThen (conn_at p) (\<lambda>c.
     if c_scb c = 0 then ret (- 1)
     else
       andThen (scb_at (c_scb c)) (\<lambda>b.
       if s_forward_id b = ucast (bt_forward_id (dec_BeginTransmit (c_buff c))) \<and> s_agent_conn b \<noteq> 0
       then andThen (upd_conn p (\<lambda>c. c\<lparr>c_cstate := s_forward, c_stillneedtoread := of_nat sizeof_buff\<rparr>)) (\<lambda>_. ret 0)
       else ret 0))"

subsection \<open>READ_TOKEN_RSP\<close>

text \<open>\<^verbatim>\<open>int cid = r->cid\<close> keeps 32 bits, which the call of \<^verbatim>\<open>GetConn\<close> sign-extends again.\<close>

definition cid_fd :: "u64 \<Rightarrow> u64" where
  "cid_fd cid = scast (ucast cid :: u32)"

definition token_reject :: "ptr \<Rightarrow> u16 \<Rightarrow> unit tmsprog" where
  "token_reject client rc =
     andThen (send_rsp client (LoginRsp_init\<lparr>lp_rsp_code := rc\<rparr>)) (\<lambda>_.
     andThen (upd_conn client (\<lambda>c. c\<lparr>c_exit := 1\<rparr>)) (\<lambda>_.
     andThen (conn_at client) (\<lambda>c.
     andThen (RemoveConn (c_sock_fd c)) (\<lambda>_. ret ()))))"

definition syn_tuple :: "ptr \<Rightarrow> unit tmsprog" where
  "syn_tuple client =
     andThen (conn_at client) (\<lambda>c.
     andThen getpeername (\<lambda>peer.
     andThen GetDpiConn (\<lambda>d.
     if d = 0 then ret ()
     else
       andThen (SendTmsMsg d (enc_SynUserTuple \<lparr>su_app = c_app c, su_mobile = c_mobile c,
                  su_src_ip_be = (case peer of None \<Rightarrow> 0 | Some (ip, _) \<Rightarrow> ip),
                  su_src_port_be = (case peer of None \<Rightarrow> 0 | Some (_, pt) \<Rightarrow> pt)\<rparr>)) (\<lambda>_. ret ()))))"

text \<open>The stream is validated and takes over the traffic from before the login.\<close>

definition token_mark :: "ptr \<Rightarrow> Connect \<Rightarrow> u64 \<Rightarrow> unit tmsprog" where
  "token_mark client c balance =
     andThen (upd_scb (c_scb c) (\<lambda>b. b\<lparr>s_status := u_validated\<rparr>)) (\<lambda>_.
     andThen (upd_user (c_user c) (\<lambda>u. u\<lparr>u_balance := balance\<rparr>)) (\<lambda>_.
     andThen (upd_scb (c_scb c) (\<lambda>b. b\<lparr>s_traffic := s_traffic b + c_traffic_tmp c\<rparr>)) (\<lambda>_.
     upd_conn client (\<lambda>c. c\<lparr>c_traffic_tmp := 0\<rparr>))))"

definition token_accept :: "ptr \<Rightarrow> u64 \<Rightarrow> unit tmsprog" where
  "token_accept client balance =
     andThen (upd_conn client (\<lambda>c. c\<lparr>c_sdk_verified := 1\<rparr>)) (\<lambda>_.
     andThen (conn_at client) (\<lambda>c.
     if c_scb c = 0 then andThen (RemoveConn (c_sock_fd c)) (\<lambda>_. ret ())
     else
       andThen (token_mark client c balance) (\<lambda>_.
       andThen (scb_at (c_scb c)) (\<lambda>b.
       andThen (send_rsp client
                  (if s_connected b \<noteq> 0
                   then LoginRsp_init\<lparr>lp_rsp_code := RC_READY, lp_avalable_traffic := balance,
                          lp_forward_id := s_forward_id b\<rparr>
                   else LoginRsp_init\<lparr>lp_rsp_code := TOKEN_VERIFIED, lp_avalable_traffic := balance\<rparr>)) (\<lambda>_.
       syn_tuple client)))))"

text \<open>\<^verbatim>\<open>strcmp\<close> of the stored and the received token.\<close>

definition token_equal :: "Connect \<Rightarrow> bytes \<Rightarrow> bool" where
  "token_equal client m \<longleftrightarrow> c_str (c_token client) = c_str (drop 36 m)"

definition handle_token :: "ptr \<Rightarrow> int tmsprog" where
  "handle_token p =
     andThen (conn_at p) (\<lambda>c.
     let m = c_buff c; r = dec_ReadTokenRsp m in
     andThen (GetConn (cid_fd (tp_cid r))) (\<lambda>client.
     if client = 0 then ret 0
     else
       andThen (conn_at client) (\<lambda>cl.
       andThen (require OutOfBounds (tp_rsp_code r \<noteq> 0 \<or> 0 \<in> set (c_token cl))) (\<lambda>_.
       andThen (if tp_rsp_code r \<noteq> 0 \<or> \<not> token_equal cl m
                then token_reject client (tp_rsp_code r)
                else token_accept client (tp_balance r)) (\<lambda>_. ret 0)))))"

subsection \<open>TRAFFIC_REPORT_RSP and the switch\<close>

definition handle_traffic_rsp :: "ptr \<Rightarrow> int tmsprog" where
  "handle_traffic_rsp p =
     andThen (conn_at p) (\<lambda>c.
     let r = dec_TrafficReportRsp (c_buff c) in
     andThen (gets (\<lambda>s. map_find (UserId (tx_mobile r) (tx_app r)) (UserMap s))) (\<lambda>x. case x of
       None \<Rightarrow> ret 0
     | Some u \<Rightarrow> andThen (TrafficReply u) (\<lambda>_. ret 0)))"

definition HandleRecvMsg :: "ptr \<Rightarrow> u32 \<Rightarrow> int tmsprog" where
  "HandleRecvMsg p msglen =
     (if msglen < 4 then ret (- 1)
      else
        andThen (conn_at p) (\<lambda>c.
        let i = msg_id (c_buff c) in
        if i = LOGIN_REQ then handle_login p
        else if i = BEGIN_TRANSMIT then handle_begin p
        else if i = READ_TOKEN_RSP then handle_token p
        else if i = TRAFFIC_REPORT_RSP then handle_traffic_rsp p
        else ret 0))"

subsection \<open>The invariant\<close>

lemma ok_send_rsp: "tms.ok (send_rsp p r) s"
  unfolding send_rsp_def by (rule ok_SendTmsMsg)

lemma ok_login_store: "tms.ok (login_store p) s"
  unfolding login_store_def Let_def
  by (auto intro!: tms.ok_andThen tms_ok ok_upd_conn length_blit simp: conn_ok_def split: if_splits)

lemma ok_login_query: "live_user s u \<Longrightarrow> tms.ok (login_query u p h) s"
  unfolding login_query_def
  by (auto intro!: tms.ok_andThen tms_ok ok_CreateSCB ok_AddWaitLists ok_SendMsg intro: grows_refs)

lemma ok_login_connect: "live_user s u \<Longrightarrow> tms.ok (login_connect u p h port) s"
  unfolding login_connect_def
  by (auto intro!: tms.ok_if tms.ok_andThen [OF tms.ok_gets] tms.ok_andThen [OF ok_ConnectWebServer]
      tms.ok_andThen [OF ok_login_query] tms.ok_ret split: option.splits)

lemma ok_upd_user_field:
  assumes "live_user s u"
  shows "tms.ok (upd_conn p (\<lambda>c. c\<lparr>c_user := u\<rparr>)) s"
  using assms by (intro ok_upd_conn) (auto simp: conn_ok_def refs_defs)

lemma ok_handle_login: "tms.ok (handle_login p) s"
  unfolding handle_login_def
  by (auto intro!: tms.ok_if tms.ok_ret tms.ok_andThen [OF ok_login_store] tms.ok_andThen [OF ok_heap_get]
      tms.ok_andThen [OF tms.ok_if] tms.ok_andThen [OF ok_front_of] tms.ok_andThen [OF ok_SendTmsMsg]
      tms.ok_andThen [OF ok_RetrieveUser] tms.ok_andThen [OF ok_upd_user_field]
      tms.ok_andThen [OF ok_login_connect] tms.ok_andThen [OF ok_send_rsp] ok_send_rsp
      dest: RetrieveUser_live intro: grows_refs)

lemma ok_handle_begin: "tms.ok (handle_begin p) s"
  unfolding handle_begin_def
  by (auto intro!: tms.ok_andThen tms_ok ok_upd_conn simp: conn_ok_def)

lemma ok_token_reject: "tms.ok (token_reject p rc) s"
  unfolding token_reject_def
  by (auto intro!: tms.ok_andThen tms_ok ok_upd_conn ok_send_rsp ok_RemoveConn simp: conn_ok_def)

lemma ok_syn_tuple: "tms.ok (syn_tuple p) s"
  unfolding syn_tuple_def
  by (auto intro!: tms.ok_andThen tms_ok ok_SendTmsMsg)

lemma ok_token_mark: "tms.ok (token_mark p c bal) s"
  unfolding token_mark_def
  by (auto intro!: tms.ok_andThen tms_ok ok_upd_conn ok_upd_scb ok_upd_user
      simp: conn_ok_def scb_ok_def user_ok_def)

lemma ok_token_accept: "tms.ok (token_accept p bal) s"
  unfolding token_accept_def
  by (auto intro!: tms.ok_andThen tms_ok ok_upd_conn ok_token_mark ok_send_rsp ok_RemoveConn
      ok_syn_tuple simp: conn_ok_def)

lemma ok_handle_token: "tms.ok (handle_token p) s"
  unfolding handle_token_def Let_def
  by (auto intro!: tms.ok_andThen tms_ok ok_GetConn ok_token_reject ok_token_accept)

lemma ok_handle_traffic_rsp: "tms.ok (handle_traffic_rsp p) s"
  unfolding handle_traffic_rsp_def Let_def
  by (auto intro!: tms.ok_andThen tms_ok ok_TrafficReply split: option.splits)

lemma ok_HandleRecvMsg: "tms.ok (HandleRecvMsg p n) s"
  unfolding HandleRecvMsg_def Let_def
  by (intro tms.ok_if tms.ok_ret tms.ok_andThen [OF ok_heap_get] ok_handle_login ok_handle_begin
      ok_handle_token ok_handle_traffic_rsp)

end
