(* ===== verification/TmsRecv.thy ===== *)
theory TmsRecv
  imports TmsMsg Framing
begin

text \<open>
  Reading from connections (\<^verbatim>\<open>StreamRecvEvent\<close>, \<^verbatim>\<open>HandleRecvEvent\<close>), the writable event
  (\<^verbatim>\<open>HandleEPOEvent\<close>) and the event loop of \<^verbatim>\<open>main.cpp\<close>. What a descriptor delivers is the list
  of chunks a sequence of reads returns.
\<close>

subsection \<open>Packets\<close>

text \<open>What \<^verbatim>\<open>StreamRecvEvent\<close> does to the connection with the bytes of one read in a state other
  than forwarding, up to the call of \<^verbatim>\<open>HandleRecvMsg\<close>.\<close>

definition stream_input :: "bytes \<Rightarrow> Connect \<Rightarrow> rx_event \<times> Connect" where
  "stream_input d c =
     (let c1 = c\<lparr>c_buff := blit (c_buff c) (unat (c_offset c)) d\<rparr> in
      if length (c_buff c) < unat (c_offset c) + length d then (Overflow, c)
      else if length d < unat (c_stillneedtoread c) then
        (More, c1\<lparr>c_offset := c_offset c + of_nat (length d),
                   c_stillneedtoread := c_stillneedtoread c - of_nat (length d)\<rparr>)
      else case c_cstate c of
        s_header \<Rightarrow>
          let h = dec_hdr (c_buff c1) in
          if delim0 h \<noteq> VALIDATER0 \<or> delim1 h \<noteq> VALIDATER1 then (BadPacket, c1\<lparr>c_h := h\<rparr>)
          else (GotHeader, c1\<lparr>c_h := h\<lparr>hlen := htons (hlen h)\<rparr>, c_cstate := s_body, c_offset := 0,
                              c_stillneedtoread := htons (hlen h)\<rparr>)
      | s_body \<Rightarrow>
          (Message (take (unat (hlen (c_h c))) (c_buff c1)),
           c1\<lparr>c_cstate := s_header, c_stillneedtoread := of_nat sizeof_hdr, c_offset := 0\<rparr>)
      | _ \<Rightarrow> (GotHeader, c1))"

text \<open>The charge for a message, after it has been handled. The loop goes on with \<open>None\<close> and
  returns with \<open>Some\<close>.\<close>

definition charge_msg :: "ptr \<Rightarrow> nat \<Rightarrow> int option tmsprog" where
  "charge_msg p len =
     andThen (conn_at p) (\<lambda>c.
     andThen (gets (\<lambda>s. word_of_int (TrafficEst (build_accurate s) (int len + int sizeof_hdr)))) (\<lambda>n.
     if c_sdk_verified c \<noteq> 0 \<and> c_user c \<noteq> 0 then
       andThen (RecordTraffic (c_user c) (c_scb c) n) (\<lambda>r. ret (if r = - 1 then Some r else None))
     else if c_type c = t_tunnel then
       andThen (upd_conn p (\<lambda>c. c\<lparr>c_traffic_tmp := c_traffic_tmp c + n\<rparr>)) (\<lambda>_. ret None)
     else ret None))"

subsection \<open>Forwarding\<close>

definition forward_down :: "ptr \<Rightarrow> Connect \<Rightarrow> SCB \<Rightarrow> nat \<Rightarrow> int option tmsprog" where
  "forward_down p c b len =
     andThen (conn_at (s_tunnel_conn b)) (\<lambda>t.
     andThen (sys_send (c_sock_fd t) (take len (c_buff c))) (\<lambda>wrote.
     andThen (if wrote \<noteq> - 1
              then andThen (gets build_accurate) (\<lambda>acc.
                   RecordTraffic (c_user c) (c_scb c) (word_of_int (TrafficEst acc wrote)))
              else ret 0) (\<lambda>r.
     if r \<noteq> 0 then ret (Some (- 1))
     else if wrote \<noteq> int len then
       (let w = (if wrote = - 1 then 0 else nat wrote) in
        andThen (upd_conn p (\<lambda>c. c\<lparr>c_datalen := of_nat (len - w), c_offset := of_nat w,
                                    c_status := sta_hangup\<rparr>)) (\<lambda>_.
        andThen (gets Epoll_FD) (\<lambda>e.
        andThen (RemoveEvent e (c_sock_fd c) EPOLLIN) (\<lambda>r.
        ret (Some (if r \<noteq> 0 then - 1 else - 2))))))
     else ret None)))"

definition forward_up :: "Connect \<Rightarrow> SCB \<Rightarrow> nat \<Rightarrow> int option tmsprog" where
  "forward_up c b len =
     andThen (gets build_accurate) (\<lambda>acc.
     andThen (RecordTraffic (c_user c) (c_scb c) (word_of_int (TrafficEst acc (int len)))) (\<lambda>r.
     if r \<noteq> 0 then ret (Some (- 1))
     else
       andThen (conn_at (s_agent_conn b)) (\<lambda>a.
       andThen (sys_send (c_sock_fd a) (take len (c_buff c))) (\<lambda>_. ret None))))"

text \<open>The error branches print fields of the user.\<close>

definition forward_step :: "ptr \<Rightarrow> bytes \<Rightarrow> int option tmsprog" where
  "forward_step p d =
     andThen (conn_at p) (\<lambda>c.
     andThen (require OutOfBounds (unat (c_offset c) + length d \<le> sizeof_buff)) (\<lambda>_.
     andThen (upd_conn p (\<lambda>c. c\<lparr>c_buff := blit (c_buff c) (unat (c_offset c)) d\<rparr>)) (\<lambda>_.
     andThen (conn_at p) (\<lambda>c.
     if c_scb c = 0 then ret (Some 0)
     else
       andThen (scb_at (c_scb c)) (\<lambda>b.
       if s_tunnel_conn b = 0 \<or> s_agent_conn b = 0
       then andThen (user_at (c_user c)) (\<lambda>_. ret (Some 0))
       else if c_type c = t_agent then forward_down p c b (length d)
       else if c_type c = t_tunnel then forward_up c b (length d)
       else ret None)))))"

subsection \<open>The receive loop\<close>

definition stream_step :: "ptr \<Rightarrow> bytes \<Rightarrow> int option tmsprog" where
  "stream_step p d =
     andThen (conn_at p) (\<lambda>c.
     if c_cstate c = s_forward then forward_step p d
     else case stream_input d c of (ev, c') \<Rightarrow>
       (case ev of
          Overflow \<Rightarrow> fail OutOfBounds
        | More \<Rightarrow> andThen (upd_conn p (\<lambda>_. c')) (\<lambda>_. ret (Some (- 2)))
        | BadPacket \<Rightarrow> andThen (upd_conn p (\<lambda>_. c')) (\<lambda>_. ret (Some (- 1)))
        | GotHeader \<Rightarrow> andThen (upd_conn p (\<lambda>_. c')) (\<lambda>_. ret None)
        | Message m \<Rightarrow>
            andThen (upd_conn p (\<lambda>_. c')) (\<lambda>_.
            andThen (HandleRecvMsg p (ucast (hlen (c_h c')))) (\<lambda>_.
            charge_msg p (length d)))))"

text \<open>The result is the value of the function and the input that is left unread.\<close>

function StreamRecvEvent :: "ptr \<Rightarrow> bytes list \<Rightarrow> (int \<times> bytes list) tmsprog" where
  "StreamRecvEvent p cs =
     andThen (conn_at p) (\<lambda>c.
     if fst (read_chunk (unat (c_stillneedtoread c)) cs) = []
     then ret (read_ret (unat (c_stillneedtoread c)) cs, snd (read_chunk (unat (c_stillneedtoread c)) cs))
     else
       andThen (stream_step p (fst (read_chunk (unat (c_stillneedtoread c)) cs))) (\<lambda>r.
       case r of
         Some v \<Rightarrow> ret (v, snd (read_chunk (unat (c_stillneedtoread c)) cs))
       | None \<Rightarrow> StreamRecvEvent p (snd (read_chunk (unat (c_stillneedtoread c)) cs))))"
  by pat_completeness auto
termination
  by (relation "measure (\<lambda>(p, cs). unread cs)") (auto simp: read_chunk_decreases)

declare StreamRecvEvent.simps [simp del]

definition HandleRecvEvent :: "u64 \<Rightarrow> bytes list \<Rightarrow> (int \<times> bytes list) tmsprog" where
  "HandleRecvEvent fd cs =
     andThen (gets (\<lambda>s. map_find fd (ConnMap s))) (\<lambda>r. case r of
       None \<Rightarrow> ret (- 2, cs)
     | Some p \<Rightarrow>
         andThen (conn_at p) (\<lambda>c.
         andThen (if c_type c = t_dns then andThen (DnsRecvEvent p cs) (\<lambda>v. ret (v, []))
                  else StreamRecvEvent p cs) (\<lambda>(v, rest).
         if v \<noteq> - 1 then
           andThen (conn_at p) (\<lambda>c.
           if c_exit c \<noteq> 0 then andThen (RemoveConn (c_sock_fd c)) (\<lambda>_. ret (v, rest))
           else ret (v, rest))
         else ret (v, rest))))"

subsection \<open>Writable connections\<close>

text \<open>The connection to a web server is established. The status is set to the number of
  \<^verbatim>\<open>s_forward\<close>, which is also that of \<^verbatim>\<open>sta_inprogress\<close>.\<close>

definition agent_established :: "u64 \<Rightarrow> ptr \<Rightarrow> int tmsprog" where
  "agent_established fd p =
     andThen (upd_conn p (\<lambda>c. c\<lparr>c_status := sta_online, c_agent_status := 1\<rparr>)) (\<lambda>_.
     andThen (conn_at p) (\<lambda>c.
     andThen (if c_scb c \<noteq> 0 then andThen (scb_at (c_scb c)) (\<lambda>b. ret (s_tunnel_conn b)) else ret 0) (\<lambda>t.
     if t \<noteq> 0 then
       andThen (upd_conn t (\<lambda>c. c\<lparr>c_agent_status := 1\<rparr>)) (\<lambda>_.
       andThen NewForwardId (\<lambda>i.
       andThen (upd_scb (c_scb c) (\<lambda>b. b\<lparr>s_forward_id := i, s_connected := 1\<rparr>)) (\<lambda>_.
       andThen (scb_at (c_scb c)) (\<lambda>b.
       andThen (if s_status b \<noteq> 0 then
                  andThen (upd_conn p (\<lambda>c. c\<lparr>c_status := 2\<rparr>)) (\<lambda>_.
                  andThen (user_at (c_user c)) (\<lambda>u.
                  send_rsp (s_tunnel_conn b) \<lparr>lp_rsp_code = RC_READY, lp_avalable_traffic = u_balance u,
                    lp_forward_id = s_forward_id b\<rparr>))
                else
                  send_rsp (s_tunnel_conn b) \<lparr>lp_rsp_code = AGENT_ESTASBLISHED,
                    lp_avalable_traffic = 0, lp_forward_id = s_forward_id b\<rparr>) (\<lambda>_.
       andThen (gets Epoll_FD) (\<lambda>e.
       andThen (ModifyEvent e fd (EPOLLIN OR EPOLLET)) (\<lambda>_. ret 0)))))))
     else andThen (erase_entry fd) (\<lambda>_. ret (- 1)))))"

text \<open>Download data that did not fit in the socket is written on. \<^verbatim>\<open>datalen\<close> is left as it is
  when everything has been written.\<close>

definition flush_mark :: "ptr \<Rightarrow> Connect \<Rightarrow> int \<Rightarrow> unit tmsprog" where
  "flush_mark ac a w =
     (if w = int (unat (c_datalen a)) then
        andThen (upd_conn ac (\<lambda>a. a\<lparr>c_offset := 0, c_stillneedtoread := of_nat sizeof_buff,
                                     c_status := sta_online\<rparr>)) (\<lambda>_.
        andThen (gets Epoll_FD) (\<lambda>e.
        andThen (AddEvent e (c_sock_fd a) EPOLLIN) (\<lambda>_. ret ())))
      else if w > 0 then
        upd_conn ac (\<lambda>a. a\<lparr>c_offset := c_offset a + word_of_int w,
                            c_datalen := c_datalen a - word_of_int w\<rparr>)
      else ret ())"

definition flush_download :: "u64 \<Rightarrow> ptr \<Rightarrow> int tmsprog" where
  "flush_download fd p =
     andThen (conn_at p) (\<lambda>c.
     andThen (scb_at (c_scb c)) (\<lambda>b.
     andThen (conn_at (s_agent_conn b)) (\<lambda>a.
     if c_datalen a = 0 then ret 0
     else
       andThen (require OutOfBounds (unat (c_offset a) + unat (c_datalen a) \<le> sizeof_buff)) (\<lambda>_.
       andThen (sys_send fd (ldn (c_buff a) (unat (c_offset a)) (unat (c_datalen a)))) (\<lambda>w.
       andThen (flush_mark (s_agent_conn b) a w) (\<lambda>_.
       if w > 0 then
         andThen (conn_at p) (\<lambda>c.
         andThen (gets build_accurate) (\<lambda>acc.
         andThen (RecordTraffic (c_user c) (c_scb c) (word_of_int (TrafficEst acc w))) (\<lambda>r.
         ret (if r = - 1 then - 1 else 0))))
       else ret 0))))))"

definition HandleEPOEvent :: "u64 \<Rightarrow> int tmsprog" where
  "HandleEPOEvent fd =
     andThen (gets (\<lambda>s. map_find fd (ConnMap s))) (\<lambda>r. case r of
       None \<Rightarrow> ret (- 2)
     | Some p \<Rightarrow>
         andThen (conn_at p) (\<lambda>c.
         if c_status c = sta_inprogress then agent_established fd p
         else if c_cstate c \<noteq> s_forward then ret (- 2)
         else if c_type c \<noteq> t_tunnel then ret 0
         else flush_download fd p))"

subsection \<open>The event loop\<close>

text \<open>\<^verbatim>\<open>main\<close> takes an event with its descriptor; \<open>err\<close> is the variable of that name, which is not
  initialised and keeps the last socket error. The reaction to a readable descriptor says
  whether the loop goes on to the next event (\<^verbatim>\<open>goto NextEvent\<close>). The \<^verbatim>\<open>do ... while\<close> loop has
  fuel; one round is enough, see \<open>recv_loop_once\<close>.\<close>

fun recv_loop :: "nat \<Rightarrow> u64 \<Rightarrow> u64 \<Rightarrow> int \<Rightarrow> bytes list \<Rightarrow> bool option tmsprog" where
  "recv_loop 0 events fd err cs = ret None"
| "recv_loop (Suc n) events fd err cs =
     andThen (HandleRecvEvent fd cs) (\<lambda>(r, rest).
     if r = - 2 then ret (Some True)
     else if r = - 1 then
       andThen get_errno (\<lambda>e.
       if e = EAGAIN then ret (Some True)
       else if events AND EPOLLERR \<noteq> 0 then
         andThen (InformShutdownUser fd) (\<lambda>_.
         andThen (RemoveConn fd) (\<lambda>_.
         andThen (sys_close fd) (\<lambda>_. ret (Some True))))
       else andThen (RemoveConn fd) (\<lambda>_. ret (Some True)))
     else if r = 0 then
       if err \<noteq> EINTR then andThen (RemoveConn fd) (\<lambda>_. ret (Some True)) else ret (Some False)
     else if err = EINTR then recv_loop n events fd err rest
     else ret (Some False))"

text \<open>The descriptor is unsigned, so a failed \<^verbatim>\<open>accept\<close> (-1) also passes the test.\<close>

definition accept_event :: "u64 \<Rightarrow> unit tmsprog" where
  "accept_event listen_fd =
     andThen HandleAcceptEvent (\<lambda>newfd.
     if 0 < (word_of_int newfd :: u64) then
       andThen (gets Epoll_FD) (\<lambda>e.
       andThen (AddEvent e (word_of_int newfd) (EPOLLIN OR EPOLLOUT OR EPOLLET)) (\<lambda>_. ret ()))
     else ret ())"

definition in_event :: "u64 \<Rightarrow> u64 \<Rightarrow> u64 \<Rightarrow> int \<Rightarrow> bytes list \<Rightarrow> bool tmsprog" where
  "in_event m_socket events fd err cs =
     (if fd = m_socket then andThen (accept_event fd) (\<lambda>_. ret False)
      else andThen (recv_loop 1 events fd err cs) (\<lambda>r. ret (r = Some True)))"

definition out_event :: "u64 \<Rightarrow> int tmsprog" where
  "out_event fd =
     andThen (answer 0 4095) (\<lambda>err.
     if err = 0 \<or> err = EAGAIN then
       andThen (HandleEPOEvent fd) (\<lambda>r.
       andThen (if r = - 1 then sys_shutdown fd else ret ()) (\<lambda>_. ret err))
     else ret err)"

definition handle_event :: "u64 \<Rightarrow> u64 \<Rightarrow> u64 \<Rightarrow> bytes list \<Rightarrow> int \<Rightarrow> int tmsprog" where
  "handle_event m_socket events fd cs err =
     andThen (if events AND EPOLLIN \<noteq> 0 then in_event m_socket events fd err cs else ret False) (\<lambda>next_event.
     if next_event then ret err
     else if events AND EPOLLOUT \<noteq> 0 then out_event fd
     else ret err)"

text \<open>The part of \<^verbatim>\<open>main\<close> before the loop that builds the fixed connections.\<close>

definition main_connect :: "(ptr tmsprog) \<Rightarrow> bool tmsprog" where
  "main_connect create =
     andThen create (\<lambda>p.
     if p = 0 then ret False
     else
       andThen (conn_at p) (\<lambda>c.
       andThen (gets Epoll_FD) (\<lambda>e.
       andThen (AddEvent e (c_sock_fd c) (EPOLLIN OR EPOLLET)) (\<lambda>_. ret True))))"

definition main_init :: "u64 \<Rightarrow> u64 \<Rightarrow> bool tmsprog" where
  "main_init epfd m_socket =
     andThen (modify (\<lambda>s. s\<lparr>Epoll_FD := epfd\<rparr>)) (\<lambda>_.
     andThen (sys_epoll (EpollAdd m_socket (EPOLLIN OR EPOLLET))) (\<lambda>r.
     if r = - 1 then ret False
     else
       andThen (gets os_inet_addr) (\<lambda>inet_addr.
       andThen (main_connect (CreateDnsConn (inet_addr (ascii ''114.114.114.114'')) 53)) (\<lambda>ok.
       if \<not> ok then ret False
       else
         andThen (main_connect (CreateCenterConn (inet_addr (ascii ''127.0.0.1'')) 10170)) (\<lambda>ok.
         if \<not> ok then ret False
         else main_connect (CreateDpiConn (inet_addr (ascii ''127.0.0.1'')) 10160))))))"

subsection \<open>The invariant\<close>

lemma stream_input_fields:
  assumes "stream_input d c = (e, c')"
  shows "c_sock_fd c' = c_sock_fd c \<and> c_scb c' = c_scb c \<and> c_user c' = c_user c \<and> c_token c' = c_token c"
    and "length (c_buff c) = sizeof_buff \<Longrightarrow> length (c_buff c') = sizeof_buff"
  using assms by (auto simp: stream_input_def Let_def split: if_splits Trans_stat.splits)

lemma ok_stream_put:
  assumes "stream_input d c = (e, c')" "h_conns s p = Some c"
  shows "tms.ok (upd_conn p (\<lambda>_. c')) s"
  using assms stream_input_fields [OF assms(1)] by (intro ok_upd_conn) (auto simp: conn_ok_def)

lemma ok_charge_msg: "tms.ok (charge_msg p n) s"
  unfolding charge_msg_def
  by (auto intro!: tms.ok_andThen tms_ok ok_RecordTraffic ok_upd_conn simp: conn_ok_def)

lemma ok_forward_down: "tms.ok (forward_down p c b n) s"
  unfolding forward_down_def Let_def
  by (auto intro!: tms.ok_andThen tms_ok ok_RecordTraffic ok_upd_conn ok_events simp: conn_ok_def)

lemma ok_forward_up: "tms.ok (forward_up c b n) s"
  unfolding forward_up_def
  by (auto intro!: tms.ok_andThen tms_ok ok_RecordTraffic)

lemma ok_forward_step: "tms.ok (forward_step p d) s"
  unfolding forward_step_def
  by (auto intro!: tms.ok_andThen tms_ok ok_forward_down ok_forward_up ok_upd_conn simp: conn_ok_def split: if_splits)

lemma ok_stream_step: "tms.ok (stream_step p d) s"
  unfolding stream_step_def
  by (auto intro!: tms.ok_andThen [OF ok_heap_get] ok_forward_step tms.ok_fail tms.ok_ret ok_charge_msg
      tms.ok_andThen [OF ok_stream_put] tms.ok_andThen [OF ok_HandleRecvMsg] split: prod.splits rx_event.splits)

lemma ok_StreamRecvEvent: "tms.ok (StreamRecvEvent p cs) s"
proof (induction p cs arbitrary: s rule: StreamRecvEvent.induct)
  case (1 p cs)
  show ?case
    unfolding StreamRecvEvent.simps [of p cs]
    by (auto intro!: tms.ok_andThen [OF ok_heap_get] tms.ok_andThen [OF ok_stream_step] tms.ok_ret 1
        split: option.splits)
qed

lemma ok_HandleRecvEvent: "tms.ok (HandleRecvEvent fd cs) s"
  unfolding HandleRecvEvent_def
  by (auto intro!: tms.ok_andThen tms_ok ok_DnsRecvEvent ok_StreamRecvEvent ok_RemoveConn split: option.splits)

lemma ok_agent_established: "tms.ok (agent_established fd p) s"
  unfolding agent_established_def
  by (auto intro!: tms.ok_andThen tms_ok ok_upd_conn ok_upd_scb ok_NewForwardId ok_send_rsp ok_events ok_erase_entry
      simp: conn_ok_def scb_ok_def)

lemma ok_flush_download: "tms.ok (flush_download fd p) s"
  unfolding flush_download_def flush_mark_def
  by (auto intro!: tms.ok_andThen tms_ok ok_upd_conn ok_RecordTraffic ok_events simp: conn_ok_def)

lemma ok_HandleEPOEvent: "tms.ok (HandleEPOEvent fd) s"
  unfolding HandleEPOEvent_def
  by (auto intro!: tms.ok_andThen tms_ok ok_agent_established ok_flush_download split: option.splits)

lemma ok_recv_loop: "tms.ok (recv_loop n events fd err cs) s"
  by (induction n events fd err cs arbitrary: s rule: recv_loop.induct)
    (auto intro!: tms.ok_andThen tms_ok ok_HandleRecvEvent ok_InformShutdownUser ok_RemoveConn)

lemma ok_handle_event: "tms.ok (handle_event m events fd cs err) s"
  unfolding handle_event_def in_event_def out_event_def accept_event_def
  by (auto intro!: tms.ok_andThen tms_ok ok_recv_loop ok_HandleAcceptEvent ok_HandleEPOEvent ok_events
      simp del: recv_loop.simps)

lemma ok_main_init: "tms.ok (main_init epfd m) s"
  unfolding main_init_def main_connect_def
  by (auto intro!: tms.ok_andThen tms_ok ok_Create ok_events)

subsection \<open>Packets arrive whole\<close>

text \<open>The packet reader of a connection.\<close>

definition get_rx :: "Connect \<Rightarrow> rx" where
  "get_rx c = \<lparr>rx_cstate = c_cstate c, rx_h = c_h c, rx_stillneedtoread = c_stillneedtoread c,
     rx_offset = c_offset c, rx_datalen = c_datalen c, rx_buff = c_buff c\<rparr>"

definition put_rx :: "rx \<Rightarrow> Connect \<Rightarrow> Connect" where
  "put_rx r c = c\<lparr>c_cstate := rx_cstate r, c_h := rx_h r, c_stillneedtoread := rx_stillneedtoread r,
     c_offset := rx_offset r, c_datalen := rx_datalen r, c_buff := rx_buff r\<rparr>"

interpretation tms_rx: rx_part get_rx put_rx sizeof_buff
  by unfold_locales (simp_all add: get_rx_def put_rx_def)

lemma stream_input_part: "stream_input d c = tms_rx.part_input d c"
  by (cases c) (simp add: stream_input_def tms_rx.part_input_eq rx_input_def get_rx_def put_rx_def Let_def split: Trans_stat.split)

abbreviation "tms_need c \<equiv> unat (c_stillneedtoread c)"

definition tms_at_header :: "Connect \<Rightarrow> bool" where
  "tms_at_header c \<longleftrightarrow> c_cstate c = s_header \<and> c_offset c = 0 \<and> c_stillneedtoread c = 6
     \<and> length (c_buff c) = sizeof_buff"

lemma tms_recv_part: "stream_recv tms_need stream_input = stream_recv (\<lambda>c. rx_need (get_rx c)) tms_rx.part_input"
proof -
  have "stream_input = tms_rx.part_input" by (simp add: fun_eq_iff stream_input_part)
  moreover have "(\<lambda>c. rx_need (get_rx c)) = tms_need" by (simp add: fun_eq_iff get_rx_def)
  ultimately show ?thesis by simp
qed

text \<open>C3: Whatever pieces the kernel delivers a tunnel's byte stream in, a connection that waits for
  a header hands \<^verbatim>\<open>HandleRecvMsg\<close> the messages that were framed by the sender, in order,
  unchanged, none lost and none invented, and then waits for the next header. Messages are up to the
  8192 bytes of the receive buffer.\<close>

theorem tunnel_messages_delivered:
  assumes "tms_at_header c" and "[] \<notin> set cs"
    and "\<forall>m \<in> set ms. m \<noteq> [] \<and> length m \<le> sizeof_buff"
    and "concat cs = concat (map frame ms)"
  shows "stream_recv tms_need stream_input cs c = (ms, Waiting)"
proof -
  have "\<forall>m \<in> set ms. m \<noteq> [] \<and> length m \<le> sizeof_buff \<and> length m < 65536"
    using assms(3) by auto
  then show ?thesis
    using tms_rx.frames.recv_stream [of c cs] assms parse_concat_frames [of ms sizeof_buff]
    by (auto simp: tms_recv_part tms_at_header_def rx_at_header_def get_rx_def)
qed

theorem tunnel_messages_delivered_witness:
  "stream_recv tms_need stream_input [[0x86, 0x68, 0], [2, 0, 0, 7], [8, 0x86], [0x68, 0, 1, 0, 0, 9]]
     (demo_conn 5 t_tunnel) = ([[7, 8], [9]], Waiting)"
  by (rule tunnel_messages_delivered [where ms = "[[7, 8], [9]]"])
    (simp_all add: tms_at_header_def demo_conn_def Connect_init_def frame_def enc_hdr_def hdr_init_def
      st16_def htons_def to_le_eval)

end
