(* ===== verification/TmsAuth.thy ===== *)
theory TmsAuth
  imports TmsRecv
begin

text \<open>
  Authentication in tms. A connection is authenticated when \<^verbatim>\<open>sdk_verified\<close> is set, a stream
  when its \<^verbatim>\<open>status\<close> is. \<open>gains X\<close> says that a step authenticates nobody outside \<open>X\<close>; every
  operation but the handler of the token reply satisfies it for every \<open>X\<close>, which gives the
  theorem on who is authenticated and by what message.
\<close>

datatype principal = Conn ptr | Stream ptr

fun authed :: "tms \<Rightarrow> principal \<Rightarrow> bool" where
  "authed s (Conn p) \<longleftrightarrow> (\<exists>c. h_conns s p = Some c \<and> c_sdk_verified c \<noteq> 0)"
| "authed s (Stream q) \<longleftrightarrow> (\<exists>b. h_scbs s q = Some b \<and> s_status b \<noteq> 0)"

definition gains :: "principal set \<Rightarrow> tms \<Rightarrow> tms \<Rightarrow> bool" where
  "gains X s t \<longleftrightarrow> (\<forall>x. authed t x \<longrightarrow> authed s x \<or> x \<in> X)"

interpretation auth: safe_steps "\<lambda>_. True" "gains X" for X
  by unfold_locales (auto simp: gains_def)

subsection \<open>Steps that authenticate nobody\<close>

lemma gains_same: "h_conns t = h_conns s \<Longrightarrow> h_scbs t = h_scbs s \<Longrightarrow> gains X s t"
  unfolding gains_def by (metis authed.simps principal.exhaust)

lemma gains_frame: "keeps h_conns m \<Longrightarrow> keeps h_scbs m \<Longrightarrow> auth.ok X m s"
  by (auto intro!: auth.okI gains_same dest: keepsD)

lemma gains_modify:
  "(\<And>s. h_conns (f s) = h_conns s) \<Longrightarrow> (\<And>s. h_scbs (f s) = h_scbs s) \<Longrightarrow> auth.ok X (modify f) s"
  by (intro gains_frame keeps_modify) auto

lemma gains_upd_conn: "(\<And>c. Conn p \<notin> X \<Longrightarrow> c_sdk_verified (f c) \<noteq> 0 \<Longrightarrow> c_sdk_verified c \<noteq> 0) \<Longrightarrow> auth.ok X (upd_conn p f) s"
  by (auto intro!: auth.okI simp: upd_eq_Inr gains_def elim!: authed.elims split: if_splits)

lemma gains_upd_scb: "(\<And>b. Stream q \<notin> X \<Longrightarrow> s_status (f b) \<noteq> 0 \<Longrightarrow> s_status b \<noteq> 0) \<Longrightarrow> auth.ok X (upd_scb q f) s"
  by (auto intro!: auth.okI simp: upd_eq_Inr gains_def elim!: authed.elims split: if_splits)

lemma gains_upd_user: "auth.ok X (upd_user u f) s"
  by (intro gains_frame keeps_upd) auto

lemma gains_heap:
  "auth.ok X (heap_get h p) s" "auth.ok X (front_of f) s"
  "auth.ok X new_conn s" "auth.ok X (new_scb i) s" "auth.ok X new_user s" "auth.ok X (free_conn p) s"
  by (auto intro!: auth.okI simp: gains_def Connect_init_def SCB_init_def free_conn_def elim!: authed.elims split: if_splits)

lemma gains_sys:
  "auth.ok X (sys_send fd b) s" "auth.ok X (sys_close fd) s" "auth.ok X (sys_shutdown fd) s" "auth.ok X sys_fd s"
  "auth.ok X (sys_connect fd a pt) s" "auth.ok X (sys_epoll e) s" "auth.ok X gettimeofday s" "auth.ok X getpeername s"
  "auth.ok X get_errno s" "auth.ok X sys_random s" "auth.ok X (emit e) s" "auth.ok X (answer lo hi) s" "auth.ok X tick s"
  by (auto intro!: auth.okI gains_same)

lemmas gains_prim = auth.ok_andThen auth.ok_intros auth.ok_foreach gains_heap gains_sys gains_modify
  gains_upd_conn gains_upd_scb gains_upd_user

lemma gains_scb: "auth.ok X NewSCB s" "auth.ok X (RecycleSCB q) s"
  unfolding NewSCB_def RecycleSCB_def
  by (auto intro!: gains_prim simp: SCB_Reset_def split: list.splits)

lemma gains_RecordTraffic: "auth.ok X (RecordTraffic u q n) s"
  unfolding RecordTraffic_def by (auto intro!: gains_prim)

lemma gains_copy_host: "auth.ok X (copy_host h) s"
  unfolding copy_host_def by (auto intro!: gains_prim)

lemma gains_report:
  "auth.ok X (ReportOrAccumulate u q) s" "auth.ok X (ReportAccumulated u) s" "auth.ok X (TrafficReply u) s"
  unfolding ReportOrAccumulate_def ReportAccumulated_def TrafficReply_def set_accu_start_def
  by (auto intro!: gains_prim gains_copy_host)

lemma gains_users: "auth.ok X (RetrieveUser i) s" "auth.ok X (ReleaseSCB u q) s" "auth.ok X NewForwardId s"
  unfolding RetrieveUser_def ReleaseSCB_def NewForwardId_def
  by (auto intro!: gains_prim gains_scb split: option.splits)

lemma gains_events: "auth.ok X (AddEvent e fd ev) s" "auth.ok X (RemoveEvent e fd ev) s" "auth.ok X (ModifyEvent e fd ev) s"
  unfolding AddEvent_def RemoveEvent_def ModifyEvent_def by (auto intro!: gains_prim)

lemma gains_send: "auth.ok X (SendMsg p m) s" "auth.ok X (SendTmsMsg p m) s" "auth.ok X (send_rsp p r) s"
  unfolding send_rsp_def SendMsg_def SendTmsMsg_def by (auto intro!: gains_prim gains_RecordTraffic)

lemma gains_erase_entry: "auth.ok X (erase_entry fd) s"
  unfolding erase_entry_def by (auto intro!: gains_prim)

lemma gains_delete_conn: "auth.ok X (delete_conn p) s"
  unfolding delete_conn_def dtor_def by (auto intro!: gains_prim gains_events)

lemma gains_accept: "auth.ok X HandleAcceptEvent s"
  unfolding HandleAcceptEvent_def accept_conn_def
  by (auto intro!: gains_prim simp: Connect_Reset_def split: option.splits)

lemma gains_enter_conn: "(\<And>c. c_sdk_verified (f c) = c_sdk_verified c) \<Longrightarrow> auth.ok X (enter_conn fd f) s"
  unfolding enter_conn_def by (auto intro!: gains_prim)

lemma gains_CreateAgentConn: "auth.ok X (CreateAgentConn ip port) s"
  unfolding CreateAgentConn_def by (auto intro!: gains_prim gains_enter_conn)

lemma gains_remove: "auth.ok X (drop_peer p) s" "auth.ok X (RemoveConn fd) s" "auth.ok X (InformShutdownUser fd) s"
  unfolding RemoveConn_def remove_found_def close_stream_def InformShutdownUser_def drop_peer_def
  by (auto intro!: gains_prim gains_report gains_users gains_erase_entry gains_delete_conn split: option.splits)

lemma gains_CreateSCB: "auth.ok X (CreateSCB u t a) s"
  unfolding CreateSCB_def tie_stream_def by (auto intro!: gains_prim gains_scb)

lemma gains_ConnectWebServer: "auth.ok X (ConnectWebServer u t ip port) s"
  unfolding ConnectWebServer_def tie_agent_def
  by (auto intro!: gains_prim gains_CreateAgentConn gains_CreateSCB gains_send gains_events)

lemma gains_InformClients: "auth.ok X (InformClients h ip) s"
  unfolding InformClients_def inform_one_def inform_stream_def
  by (auto intro!: gains_prim gains_ConnectWebServer gains_send split: option.splits)

lemma gains_dns_datagram: "auth.ok X (dns_datagram p d) s"
  unfolding dns_datagram_def DnsUpdate_def
  by (auto intro!: gains_prim gains_InformClients split: sum.splits)

lemma gains_DnsRecvEvent: "auth.ok X (DnsRecvEvent p ds) s"
  by (induction ds arbitrary: s) (auto intro!: gains_prim gains_dns_datagram)

lemma gains_HandleEPOEvent: "auth.ok X (HandleEPOEvent fd) s"
  unfolding HandleEPOEvent_def agent_established_def flush_download_def flush_mark_def
  by (auto intro!: gains_prim gains_users gains_send gains_events gains_erase_entry gains_RecordTraffic split: option.splits)

lemma gains_login: "auth.ok X (handle_login p) s"
  unfolding handle_login_def login_store_def login_connect_def login_query_def AddWaitLists_def Let_def
  by (auto intro!: gains_prim gains_users gains_send gains_ConnectWebServer gains_CreateSCB split: option.splits)

lemma gains_begin: "auth.ok X (handle_begin p) s"
  unfolding handle_begin_def by (auto intro!: gains_prim)

lemma gains_traffic_rsp: "auth.ok X (handle_traffic_rsp p) s"
  unfolding handle_traffic_rsp_def Let_def by (auto intro!: gains_prim gains_report split: option.splits)

lemma gains_forward: "auth.ok X (forward_step p d) s"
  unfolding forward_step_def forward_down_def forward_up_def Let_def
  by (auto intro!: gains_prim gains_RecordTraffic gains_events)

subsection \<open>The token reply\<close>

text \<open>The message \<open>m\<close> is a token reply that accepts \<open>x\<close>: its code is 0, the connection it names
  is in the table, and that connection has the same token (or \<open>x\<close> is the stream of it).\<close>

definition accepts :: "tms \<Rightarrow> bytes \<Rightarrow> principal \<Rightarrow> bool" where
  "accepts s m x \<longleftrightarrow> msg_id m = READ_TOKEN_RSP \<and> tp_rsp_code (dec_ReadTokenRsp m) = 0
     \<and> (\<exists>q cl. map_find (cid_fd (tp_cid (dec_ReadTokenRsp m))) (ConnMap s) = Some q
          \<and> h_conns s q = Some cl \<and> token_equal cl m \<and> (x = Conn q \<or> x = Stream (c_scb cl)))"

lemma gains_token_accept:
  assumes "Conn q \<in> X" "Stream (c_scb cl) \<in> X" "h_conns s q = Some cl"
  shows "auth.ok X (token_accept q bal) s"
  unfolding token_accept_def token_mark_def syn_tuple_def
  using assms by (auto intro!: gains_prim gains_remove gains_send simp: upd_eq_Inr)

lemma gains_token_reject: "auth.ok X (token_reject q rc) s"
  unfolding token_reject_def by (auto intro!: gains_prim gains_remove gains_send)

lemma gains_token:
  assumes "h_conns s p = Some c" "msg_id (c_buff c) = READ_TOKEN_RSP" "{x. accepts s (c_buff c) x} \<subseteq> X"
  shows "auth.ok X (handle_token p) s"
  unfolding handle_token_def Let_def GetConn_def
  using assms
  by (auto intro!: gains_prim gains_token_reject gains_token_accept simp: accepts_def split: option.splits if_splits)

lemma gains_HandleRecvMsg:
  assumes "\<And>c. h_conns s p = Some c \<Longrightarrow> {x. accepts s (c_buff c) x} \<subseteq> X"
  shows "auth.ok X (HandleRecvMsg p n) s"
  unfolding HandleRecvMsg_def Let_def
  using assms
  by (auto intro!: gains_prim gains_login gains_begin gains_token gains_traffic_rsp)


text \<open>Receiving a message does not change who the client is: its token and its stream.\<close>

lemma accepts_input:
  assumes "h_conns s p = Some c" "stream_input d c = (e, c')"
  shows "accepts (s\<lparr>h_conns := (h_conns s)(p \<mapsto> c')\<rparr>) m x = accepts s m x"
  using assms stream_input_fields(1) [OF assms(2)]
  by (auto simp: accepts_def token_equal_def split: if_splits)

lemma stream_input_verified: "stream_input d c = (e, c') \<Longrightarrow> c_sdk_verified c' = c_sdk_verified c"
  by (auto simp: stream_input_def Let_def split: if_splits Trans_stat.splits)

lemma gains_charge: "auth.ok X (charge_msg p n) s"
  unfolding charge_msg_def by (auto intro!: gains_prim gains_RecordTraffic)

lemma gains_put:
  assumes "h_conns s p = Some c" "stream_input d c = (e, c')"
  shows "auth.ok X (upd_conn p (\<lambda>_. c')) s"
  using assms stream_input_verified [OF assms(2)]
  by (auto intro!: auth.okI simp: upd_eq_Inr gains_def elim!: authed.elims split: if_splits)

lemma gains_stream_step:
  assumes "\<And>c c' m. h_conns s p = Some c \<Longrightarrow> stream_input d c = (Message m, c') \<Longrightarrow> {x. accepts s (c_buff c') x} \<subseteq> X"
  shows "auth.ok X (stream_step p d) s"
proof -
  have msg: "auth.ok X (HandleRecvMsg p n) t"
    if "h_conns s p = Some c" "stream_input d c = (Message m, c')" "upd_conn p (\<lambda>_. c') s = Inr (u, t)" for c c' m n t u
  proof (rule gains_HandleRecvMsg)
    fix b assume "h_conns t p = Some b"
    with that have "b = c'" "t = s\<lparr>h_conns := (h_conns s)(p \<mapsto> c')\<rparr>" by (auto simp: upd_eq_Inr)
    with that assms [OF that(1,2)] show "{x. accepts t (c_buff b) x} \<subseteq> X"
      by (simp add: accepts_input)
  qed
  show ?thesis
    unfolding stream_step_def
    by (auto intro!: auth.ok_andThen auth.ok_intros gains_heap gains_forward gains_charge gains_put msg
        split: prod.splits rx_event.splits)
qed

text \<open>C4: a connection or a stream becomes authenticated only by a token reply: when a piece of
  input \<open>d\<close> on a connection makes \<open>x\<close> authenticated, that piece completed a message
  \<^verbatim>\<open>READ_TOKEN_RSP\<close> with code 0 which names a connection that sent the same token in its login,
  and \<open>x\<close> is that connection or its stream.\<close>

theorem token_authenticates:
  assumes "stream_step p d s = Inr (r, t)" "authed t x" "\<not> authed s x"
  shows "\<exists>c c' m. h_conns s p = Some c \<and> stream_input d c = (Message m, c') \<and> accepts s (c_buff c') x"
proof (rule ccontr)
  assume none: "\<not> ?thesis"
  have "auth.ok (- {x}) (stream_step p d) s"
    by (rule gains_stream_step) (use none in auto)
  from auth.okD [OF this _ assms(1)] have "gains (- {x}) s t" by simp
  with assms(2,3) show False by (auto simp: gains_def)
qed

text \<open>C16: nothing else authenticates: an event of the main loop that is not input on a stream
  connection (a new connection, a writable socket, a reply of the name server) leaves the set
  of authenticated connections and streams as it is, or smaller.\<close>

theorem no_other_authentication:
  assumes "handle_event m_socket events fd cs err s = Inr (e, t)" "authed t x"
    and "events AND EPOLLIN = 0 \<or> fd = m_socket
      \<or> (\<exists>p c. map_find fd (ConnMap s) = Some p \<and> h_conns s p = Some c \<and> c_type c = t_dns)"
  shows "authed s x"
proof -
  have out: "auth.ok {} (out_event fd) s" for s fd
    unfolding out_event_def by (auto intro!: gains_prim gains_HandleEPOEvent)
  have acc: "auth.ok {} (accept_event fd) s" for s fd
    unfolding accept_event_def by (auto intro!: gains_prim gains_accept gains_events)
  have dns: "auth.ok {} (HandleRecvEvent fd cs) s"
    if "map_find fd (ConnMap s) = Some p" "h_conns s p = Some c" "c_type c = t_dns" for p c
    unfolding HandleRecvEvent_def using that
    by (auto intro!: gains_prim gains_DnsRecvEvent gains_remove split: option.splits)
  have "auth.ok {} (handle_event m_socket events fd cs err) s"
    unfolding handle_event_def in_event_def
    using assms(3) by (auto intro!: gains_prim out acc dns gains_remove simp: split_def)
  from auth.okD [OF this _ assms(1)] assms(2) show ?thesis by (simp add: gains_def)
qed

subsection \<open>Runs that do not fault\<close>

lemma faultless_upd:
  "h_conns s p = Some c \<Longrightarrow> p \<noteq> 0 \<Longrightarrow> faultless (upd_conn p f) s"
  "live_scb s q \<Longrightarrow> faultless (upd_scb q g) s" "live_user s u \<Longrightarrow> faultless (upd_user u k) s"
  by (auto simp: faultless_def refs_defs)

lemma RecordTraffic_run:
  assumes "live_scb s q" "live_user s u"
  obtains b x where "h_scbs s q = Some b" "h_users s u = Some x"
    "RecordTraffic u q n s =
      Inr (if s_status b = u_validated \<and> sint (u_balance x - n) < 4000 then - 1 else 0,
        s\<lparr>h_scbs := (h_scbs s)(q \<mapsto> b\<lparr>s_traffic := s_traffic b + n\<rparr>),
          h_users := (h_users s)(u \<mapsto> x\<lparr>u_balance := u_balance x - n\<rparr>)\<rparr>)"
  using assms by (auto simp: refs_defs RecordTraffic_def)

lemma faultless_RecordTraffic: "ref_scb s q \<Longrightarrow> live_user s u \<Longrightarrow> faultless (RecordTraffic u q n) s"
  by (auto simp: refs_defs RecordTraffic_def faultless_def)

lemma faultless_SendTmsMsg:
  assumes "tms_wf s" "h_conns s p = Some c" "length m \<le> 1018"
  shows "faultless (SendTmsMsg p m) s"
proof -
  have p: "0 < p" "ref_scb s (c_scb c)" "ref_user s (c_user c)"
    using wf_heap(1) [OF assms(1,2)] by (auto simp: conn_ok_def)
  have charge: "faultless (andThen (RecordTraffic (c_user c) (c_scb c) n) k) (s\<lparr>os_tick := i, os_log := l\<rparr>)"
    if "c_user c \<noteq> 0" "\<And>t r. h_conns t = h_conns s \<Longrightarrow> faultless (k r) t" for n k i l
  proof (rule faultless_andThen)
    show "faultless (RecordTraffic (c_user c) (c_scb c) n) (s\<lparr>os_tick := i, os_log := l\<rparr>)"
      using p that(1) by (intro faultless_RecordTraffic) (auto simp: refs_defs)
    show "faultless (k r) t" if "RecordTraffic (c_user c) (c_scb c) n (s\<lparr>os_tick := i, os_log := l\<rparr>) = Inr (r, t)" for r t
      using that \<open>\<And>t r. h_conns t = h_conns s \<Longrightarrow> faultless (k r) t\<close>
      by (auto simp: RecordTraffic_def andThen_eq_Inr_iff upd_eq_Inr split: if_splits)
  qed
  show ?thesis
    using assms p by (auto simp: SendTmsMsg_def faultless_def intro!: charge [unfolded faultless_def])
qed

text \<open>What sending leaves alone: a connection may only be told to exit.\<close>

definition conn_core :: "tms \<Rightarrow> ptr \<Rightarrow> Connect option" where
  "conn_core s p = map_option (\<lambda>c. c\<lparr>c_exit := 0\<rparr>) (h_conns s p)"

definition scb_core :: "tms \<Rightarrow> ptr \<Rightarrow> SCB option" where
  "scb_core s q = map_option (\<lambda>b. b\<lparr>s_traffic := 0\<rparr>) (h_scbs s q)"

lemma core_upd [simp]:
  "conn_core (s\<lparr>h_scbs := hs\<rparr>) = conn_core s" "conn_core (s\<lparr>h_users := hu\<rparr>) = conn_core s"
  "conn_core (s\<lparr>os_log := l\<rparr>) = conn_core s" "conn_core (s\<lparr>os_tick := i\<rparr>) = conn_core s"
  "scb_core (s\<lparr>h_conns := hc\<rparr>) = scb_core s" "scb_core (s\<lparr>h_users := hu\<rparr>) = scb_core s"
  "scb_core (s\<lparr>os_log := l\<rparr>) = scb_core s" "scb_core (s\<lparr>os_tick := i\<rparr>) = scb_core s"
  by (simp_all add: conn_core_def scb_core_def fun_eq_iff)

abbreviation "send_frame s \<equiv> (conn_core s, scb_core s, ConnMap s, DnsConnPool s, DpiConnPool s, CenterConnPool s)"

lemma keeps_exit: "keeps send_frame (upd_conn p (\<lambda>c. c\<lparr>c_exit := x\<rparr>))"
  by (auto simp: keeps_def upd_eq_Inr conn_core_def fun_eq_iff)

lemma keeps_RecordTraffic: "keeps send_frame (RecordTraffic u q n)"
proof -
  have "keeps send_frame (upd_scb q (\<lambda>b. b\<lparr>s_traffic := s_traffic b + n\<rparr>))"
    by (auto simp: keeps_def upd_eq_Inr scb_core_def fun_eq_iff)
  moreover have "keeps send_frame (upd_user u (\<lambda>x. x\<lparr>u_balance := u_balance x - n\<rparr>))"
    by (intro keeps_upd) simp
  ultimately show ?thesis
    unfolding RecordTraffic_def by (intro keeps_andThen keeps_if keeps_heap_get keeps_ret)
qed

lemma keeps_SendTmsMsg: "keeps send_frame (SendTmsMsg p m)"
proof -
  have "keeps send_frame (sys_send fd b)" for fd b by (auto simp: keeps_def)
  then show ?thesis
    unfolding SendTmsMsg_def using keeps_RecordTraffic keeps_exit
    by (intro keeps_andThen keeps_if keeps_require keeps_heap_get keeps_gets keeps_ret)
qed

lemma SendTmsMsg_keeps:
  assumes "SendTmsMsg p m s = Inr (r, t)"
  shows "conn_core t = conn_core s" "scb_core t = scb_core s" "ConnMap t = ConnMap s"
    "DnsConnPool t = DnsConnPool s" "DpiConnPool t = DpiConnPool s" "CenterConnPool t = CenterConnPool s"
  using keepsD [OF keeps_SendTmsMsg assms] by simp_all

lemma conn_core_at:
  assumes "conn_core t p = conn_core s p" "h_conns s p = Some c"
  obtains c' where "h_conns t p = Some c'" "c_sdk_verified c' = c_sdk_verified c" "c_scb c' = c_scb c"
    "c_user c' = c_user c" "c_type c' = c_type c" "c_sock_fd c' = c_sock_fd c" "c_token c' = c_token c" "c_buff c' = c_buff c"
proof -
  have "map_option (\<lambda>c. c\<lparr>c_exit := 0\<rparr>) (h_conns t p) = Some (c\<lparr>c_exit := 0\<rparr>)"
    using assms by (simp add: conn_core_def)
  then obtain c' where c': "h_conns t p = Some c'" "c'\<lparr>c_exit := 0\<rparr> = c\<lparr>c_exit := 0\<rparr>" by blast
  note eq = arg_cong [OF c'(2), of c_sdk_verified] arg_cong [OF c'(2), of c_scb] arg_cong [OF c'(2), of c_user]
    arg_cong [OF c'(2), of c_type] arg_cong [OF c'(2), of c_sock_fd] arg_cong [OF c'(2), of c_token] arg_cong [OF c'(2), of c_buff]
  show thesis by (rule that [OF c'(1)]) (use eq in simp_all)
qed

lemma scb_core_SomeD:
  assumes "scb_core t = scb_core s" "h_scbs s q = Some b"
  obtains b' where "h_scbs t q = Some b'" "s_status b' = s_status b" "s_agent_conn b' = s_agent_conn b"
proof -
  have "map_option (\<lambda>b. b\<lparr>s_traffic := 0\<rparr>) (h_scbs t q) = Some (b\<lparr>s_traffic := 0\<rparr>)"
    using fun_cong [OF assms(1), of q] assms(2) by (simp add: scb_core_def)
  then obtain b' where b': "h_scbs t q = Some b'" "b'\<lparr>s_traffic := 0\<rparr> = b\<lparr>s_traffic := 0\<rparr>" by blast
  show thesis
    by (rule that [OF b'(1)]) (use arg_cong [OF b'(2), of s_status] arg_cong [OF b'(2), of s_agent_conn] in simp_all)
qed

lemma SendTmsMsg_run:
  assumes "tms_wf s" "h_conns s p = Some c" "length m \<le> 1018"
  obtains r t where "SendTmsMsg p m s = Inr (r, t)" "tms_wf t" "conn_core t = conn_core s"
    "scb_core t = scb_core s" "DpiConnPool t = DpiConnPool s"
proof -
  obtain r t where run: "SendTmsMsg p m s = Inr (r, t)"
    using faultless_SendTmsMsg [OF assms] by (rule faultlessE)
  then show thesis
    using that tms.okD [OF ok_SendTmsMsg assms(1) run] SendTmsMsg_keeps [OF run] by blast
qed

lemma length_enc_SynUserTuple: "length (enc_SynUserTuple r) = 24"
  by (simp add: enc_SynUserTuple_def)

lemma syn_tuple_run:
  assumes "tms_wf s" "h_conns s p = Some c" "DpiConnPool s = d # ds" "h_conns s d = Some dc"
  obtains t where "syn_tuple p s = Inr ((), t)" "conn_core t = conn_core s" "scb_core t = scb_core s"
proof -
  let ?s = "s\<lparr>os_tick := Suc (os_tick s)\<rparr>"
  have wf: "tms_wf ?s" "h_conns ?s d = Some dc" using assms by simp_all
  have pd: "0 < p" "0 < d" using wf_heap(1) [OF assms(1)] assms(2,4) by blast+
  let ?m = "enc_SynUserTuple \<lparr>su_app = c_app c, su_mobile = c_mobile c,
      su_src_ip_be = (case os_peer s (os_tick s) of None \<Rightarrow> 0 | Some (ip, _) \<Rightarrow> ip),
      su_src_port_be = (case os_peer s (os_tick s) of None \<Rightarrow> 0 | Some (_, pt) \<Rightarrow> pt)\<rparr>"
  have "length ?m \<le> 1018" by (simp add: length_enc_SynUserTuple)
  from SendTmsMsg_run [OF wf this] obtain r t
    where "SendTmsMsg d ?m ?s = Inr (r, t)" "conn_core t = conn_core ?s" "scb_core t = scb_core ?s" by blast
  with assms pd show thesis by (intro that [of t]) (simp_all add: syn_tuple_def)
qed

lemma token_mark_run:
  assumes wf: "tms_wf s" and c: "h_conns s q = Some c" "c_scb c \<noteq> 0" "c_user c \<noteq> 0"
  obtains t b where "token_mark q c bal s = Inr ((), t)" "tms_wf t"
    "h_conns t = (h_conns s)(q \<mapsto> c\<lparr>c_traffic_tmp := 0\<rparr>)" "h_scbs t (c_scb c) = Some b"
    "s_status b = u_validated" "DpiConnPool t = DpiConnPool s"
proof -
  have q: "0 < q" "live_scb s (c_scb c)" "live_user s (c_user c)"
    using wf_heap(1) [OF wf c(1)] c by (auto simp: conn_ok_def refs_defs)
  then obtain b u where bu: "h_scbs s (c_scb c) = Some b" "h_users s (c_user c) = Some u"
    by (auto simp: refs_defs)
  let ?b = "b\<lparr>s_status := u_validated, s_traffic := s_traffic b + c_traffic_tmp c\<rparr>"
  let ?t = "s\<lparr>h_scbs := (h_scbs s)(c_scb c \<mapsto> ?b), h_users := (h_users s)(c_user c \<mapsto> u\<lparr>u_balance := bal\<rparr>),
    h_conns := (h_conns s)(q \<mapsto> c\<lparr>c_traffic_tmp := 0\<rparr>)\<rparr>"
  have run: "token_mark q c bal s = Inr ((), ?t)"
    using q c bu by (simp add: token_mark_def)
  from tms.okD [OF ok_token_mark wf run] show thesis by (intro that [OF run, of ?b]) simp_all
qed

text \<open>Accepting a token up to the message to the dpi.\<close>

lemma token_accept_sends:
  assumes wf: "tms_wf s" and cl: "h_conns s q = Some cl" "c_scb cl \<noteq> 0" "c_user cl \<noteq> 0"
  obtains s1 s2 b1 where "token_accept q bal s = syn_tuple q s2" "tms_wf s2" "conn_core s2 = conn_core s1" "scb_core s2 = scb_core s1"
    "DpiConnPool s2 = DpiConnPool s" "h_conns s1 = (h_conns s)(q \<mapsto> cl\<lparr>c_sdk_verified := 1, c_traffic_tmp := 0\<rparr>)"
    "h_scbs s1 (c_scb cl) = Some b1" "s_status b1 = u_validated"
proof -
  have q: "0 < q" using wf_heap(1) [OF wf cl(1)] by simp
  let ?c = "cl\<lparr>c_sdk_verified := 1\<rparr>"
  let ?s = "s\<lparr>h_conns := (h_conns s)(q \<mapsto> ?c)\<rparr>"
  have s: "upd_conn q (\<lambda>c. c\<lparr>c_sdk_verified := 1\<rparr>) s = Inr ((), ?s)" using q cl by simp
  have wfs: "tms_wf ?s"
    using tms.okD [OF ok_upd_conn wf s] by (simp add: conn_ok_def)
  obtain s1 b1 where s1: "token_mark q ?c bal ?s = Inr ((), s1)" "tms_wf s1"
    "h_conns s1 = (h_conns s)(q \<mapsto> ?c\<lparr>c_traffic_tmp := 0\<rparr>)" "h_scbs s1 (c_scb cl) = Some b1"
    "s_status b1 = u_validated" "DpiConnPool s1 = DpiConnPool s"
    using token_mark_run [OF wfs, of q ?c] cl by auto
  have c1: "h_conns s1 q = Some (?c\<lparr>c_traffic_tmp := 0\<rparr>)" by (simp add: s1(3))
  let ?rsp = "(if s_connected b1 \<noteq> 0
    then LoginRsp_init\<lparr>lp_rsp_code := RC_READY, lp_avalable_traffic := bal, lp_forward_id := s_forward_id b1\<rparr>
    else LoginRsp_init\<lparr>lp_rsp_code := TOKEN_VERIFIED, lp_avalable_traffic := bal\<rparr>)"
  have "length (enc_LoginRsp ?rsp) \<le> 1018" by (simp add: enc_LoginRsp_def)
  from SendTmsMsg_run [OF s1(2) c1 this] obtain r s2 where run2: "send_rsp q ?rsp s1 = Inr (r, s2)" "tms_wf s2"
    "conn_core s2 = conn_core s1" "scb_core s2 = scb_core s1" "DpiConnPool s2 = DpiConnPool s1"
    unfolding send_rsp_def by blast
  have c_at: "conn_at q ?s = Inr (?c, ?s)" "c_scb ?c = c_scb cl" using q by simp_all
  have b_at: "scb_at (c_scb cl) s1 = Inr (b1, s1)" using cl(2) s1(4) by simp
  have "token_accept q bal s = syn_tuple q s2"
    by (simp only: token_accept_def andThen_Inr s c_at cl(2) if_False s1(1) b_at run2(1))
  then show thesis
    by (rule that [OF _ run2(2-4)]) (use run2(5) s1(3-6) in simp_all)
qed

lemma token_accept_run:
  assumes wf: "tms_wf s" and cl: "h_conns s q = Some cl" "c_scb cl \<noteq> 0" "c_user cl \<noteq> 0"
    and dpi: "DpiConnPool s = d # ds" "h_conns s d = Some dc"
  obtains t where "token_accept q bal s = Inr ((), t)" "authed t (Conn q)" "authed t (Stream (c_scb cl))"
    "\<And>x. x \<noteq> q \<Longrightarrow> conn_core t x = conn_core s x"
proof -
  let ?c = "cl\<lparr>c_sdk_verified := 1, c_traffic_tmp := 0\<rparr>"
  obtain s1 s2 b1 where run: "token_accept q bal s = syn_tuple q s2" "tms_wf s2" "conn_core s2 = conn_core s1" "scb_core s2 = scb_core s1"
    "DpiConnPool s2 = DpiConnPool s" "h_conns s1 = (h_conns s)(q \<mapsto> ?c)" "h_scbs s1 (c_scb cl) = Some b1" "s_status b1 = u_validated"
    by (rule token_accept_sends [OF wf cl])
  have c1: "h_conns s1 q = Some ?c" by (simp add: run(6))
  obtain d1 where d1: "h_conns s1 d = Some d1" using dpi by (cases "d = q") (simp_all add: run(6))
  obtain c2 where c2: "h_conns s2 q = Some c2" using conn_core_at [OF fun_cong [OF run(3)] c1] by blast
  obtain d2 where d2: "h_conns s2 d = Some d2" using conn_core_at [OF fun_cong [OF run(3)] d1] by blast
  obtain t where run3: "syn_tuple q s2 = Inr ((), t)" "conn_core t = conn_core s2" "scb_core t = scb_core s2"
    using syn_tuple_run [OF run(2) c2 _ d2] run(5) dpi(1) by metis
  have "token_accept q bal s = Inr ((), t)" using run(1) run3(1) by simp
  moreover have core: "conn_core t = conn_core s1" "scb_core t = scb_core s1"
    using run(3,4) run3(2,3) by simp_all
  have "authed t (Conn q)"
    by (rule conn_core_at [OF fun_cong [OF core(1)] c1]) simp
  moreover have "authed t (Stream (c_scb cl))"
    by (rule scb_core_SomeD [OF core(2) run(7)]) (simp add: run(8))
  moreover have "conn_core t x = conn_core s x" if "x \<noteq> q" for x
    using that by (simp add: core(1)) (simp add: conn_core_def run(6))
  ultimately show thesis by (rule that)
qed

lemma token_accept_dangling:
  assumes wf: "tms_wf s" and cl: "h_conns s q = Some cl" "c_scb cl \<noteq> 0" "c_user cl \<noteq> 0"
    and dpi: "DpiConnPool s = d # ds" "h_conns s d = None" "d \<noteq> 0"
  shows "token_accept q bal s = Inl Dangling"
proof -
  let ?c = "cl\<lparr>c_sdk_verified := 1, c_traffic_tmp := 0\<rparr>"
  obtain s1 s2 b1 where run: "token_accept q bal s = syn_tuple q s2" "tms_wf s2" "conn_core s2 = conn_core s1" "scb_core s2 = scb_core s1"
    "DpiConnPool s2 = DpiConnPool s" "h_conns s1 = (h_conns s)(q \<mapsto> ?c)" "h_scbs s1 (c_scb cl) = Some b1" "s_status b1 = u_validated"
    by (rule token_accept_sends [OF wf cl])
  have "h_conns s1 q = Some ?c" by (simp add: run(6))
  then obtain c2 where c2: "h_conns s2 q = Some c2" using conn_core_at [OF fun_cong [OF run(3)]] by blast
  have "conn_core s1 d = None" using dpi cl(1) by (cases "d = q") (simp_all add: conn_core_def run(6))
  then have "h_conns s2 d = None" by (simp add: run(3) [symmetric]) (simp add: conn_core_def)
  moreover have "q \<noteq> 0" using wf_heap(1) [OF wf cl(1)] by simp
  ultimately show ?thesis
    using c2 run(5) dpi by (simp add: run(1) syn_tuple_def SendTmsMsg_def length_enc_SynUserTuple)
qed

text \<open>A token reply authenticates the connection it names, whatever connection it comes from.\<close>

lemma handle_token_run:
  assumes wf: "tms_wf s" and c: "h_conns s p = Some c" and acc: "accepts s (c_buff c) (Conn q)"
    and cl: "h_conns s q = Some cl" "c_scb cl \<noteq> 0" "c_user cl \<noteq> 0" "0 \<in> set (c_token cl)"
    and dpi: "DpiConnPool s = d # ds" "h_conns s d = Some dc" and n: "4 \<le> n"
  shows "\<exists>t. HandleRecvMsg p n s = Inr (0, t) \<and> authed t (Conn q) \<and> authed t (Stream (c_scb cl))
    \<and> (\<forall>x. x \<noteq> q \<longrightarrow> conn_core t x = conn_core s x)"
proof -
  obtain t where "token_accept q (tp_balance (dec_ReadTokenRsp (c_buff c))) s = Inr ((), t)"
    "authed t (Conn q)" "authed t (Stream (c_scb cl))" "\<And>x. x \<noteq> q \<Longrightarrow> conn_core t x = conn_core s x"
    using token_accept_run [OF wf cl(1-3) dpi] by blast
  moreover have "0 < p" "0 < q" using wf_heap(1) [OF wf] c cl(1) by blast+
  ultimately show ?thesis
    using assms by (auto simp: HandleRecvMsg_def handle_token_def GetConn_def accepts_def Let_def word_less_nat_alt word_le_nat_alt)
qed


lemma c_str_append: "0 \<in> set m \<Longrightarrow> c_str (m @ r) = c_str m"
  unfolding c_str_def by (rule takeWhile_append1) simp_all

lemma take_bit_below:
  fixes x :: int
  assumes "take_bit n x < 2 ^ m" "m \<le> n"
  shows "take_bit m x = take_bit n x"
proof -
  have "take_bit m x = take_bit m (take_bit n x)" using assms(2) by (simp add: take_bit_take_bit min_absorb1)
  also have "\<dots> = take_bit n x" using assms(1) by (intro take_bit_int_eq_self) simp_all
  finally show ?thesis .
qed

lemma cid_fd_id: "fd < 2 ^ 31 \<Longrightarrow> cid_fd fd = fd"
  unfolding cid_fd_def
proof transfer
  fix fd :: int
  assume a: "take_bit LENGTH(64) fd < take_bit LENGTH(64) (2 ^ 31)"
  then have b: "take_bit 31 fd = take_bit 64 fd" by (intro take_bit_below) simp_all
  then have "\<not> bit fd 31"
    using a bit_take_bit_iff [of 64 fd 31] by (simp add: b [symmetric] bit_take_bit_iff)
  with b show "take_bit LENGTH(64) (signed_take_bit (LENGTH(32) - Suc 0) (take_bit LENGTH(64) fd)) = take_bit LENGTH(64) fd"
    by (simp add: signed_take_bit_eq_if_positive take_bit_take_bit bit_take_bit_iff)
qed

text \<open>C5: \<^verbatim>\<open>HandleRecvMsg\<close> does not ask where a token reply comes from: a client whose login is
  pending authenticates itself by sending the reply on its own tunnel, with its own descriptor
  and token and any balance.\<close>

theorem client_authenticates_itself:
  assumes "tms_wf s" "map_find (c_sock_fd c) (ConnMap s) = Some p" "h_conns s p = Some c"
    and "c_type c = t_tunnel" "c_scb c \<noteq> 0" "c_user c \<noteq> 0" "0 \<in> set (c_token c)" "c_sock_fd c < 2 ^ 31"
    and "DpiConnPool s = d # ds" "h_conns s d = Some dc"
    and msg: "c_buff c = enc_ReadTokenRsp \<lparr>tp_rsp_code = 0, tp_cid = c_sock_fd c, tp_app = a, tp_mobile = mo,
      tp_balance = bal, tp_token = c_token c\<rparr> @ rest"
  shows "\<exists>t. HandleRecvMsg p 68 s = Inr (0, t) \<and> authed t (Conn p) \<and> authed t (Stream (c_scb c))"
proof -
  have len: "length (c_token c) = 32"
    using wf_heap(1) [OF assms(1,3)] by (simp add: conn_ok_def)
  have "accepts s (c_buff c) (Conn p)"
    using assms len by (simp add: accepts_def cid_fd_id) (simp add: token_equal_def enc_ReadTokenRsp_def msg_id_def ld_defs c_str_append)
  from handle_token_run [OF assms(1,3) this assms(3,5,6,7,9,10), of 68] show ?thesis by auto
qed


text \<open>The message as it lies in a receive buffer, and the running process with it in the buffer of
  a connection.\<close>

definition demo_reply :: bytes where
  "demo_reply = enc_ReadTokenRsp \<lparr>tp_rsp_code = 0, tp_cid = 5, tp_app = 1, tp_mobile = 100, tp_balance = 9000,
     tp_token = replicate 32 0\<rparr>"

definition demo_with :: "ptr \<Rightarrow> (Connect \<Rightarrow> Connect) \<Rightarrow> tms" where
  "demo_with p f = demo\<lparr>h_conns := (h_conns demo)(p \<mapsto> f (the (h_conns demo p)))\<rparr>"

lemma length_demo_reply [simp]: "length demo_reply = 68"
  by (simp add: demo_reply_def enc_ReadTokenRsp_def)

lemma demo_simps [simp]:
  "ConnMap demo = [(5, 1), (6, 2), (7, 5), (8, 6), (9, 7)]" "DpiConnPool demo = [7]" "CenterConnPool demo = [5]"
  "h_conns demo (Suc 0) = Some ((demo_conn 5 t_tunnel)\<lparr>c_user := 4, c_scb := 3, c_mobile := 100, c_app := 1\<rparr>)"
  "h_conns demo 5 = Some (demo_conn 7 t_center)" "h_conns demo 7 = Some (demo_conn 9 t_dpi)"
  by (simp_all add: demo_def)

lemma demo_conn_simps [simp]:
  "c_sock_fd (demo_conn fd ty) = fd" "c_type (demo_conn fd ty) = ty" "c_token (demo_conn fd ty) = replicate 32 0"
  "c_sdk_verified (demo_conn fd ty) = 0" "length (c_buff (demo_conn fd ty)) = sizeof_buff"
  "c_scb (demo_conn fd ty) = 0" "c_user (demo_conn fd ty) = 0" "c_offset (demo_conn fd ty) = 0"
  by (simp_all add: demo_conn_def Connect_init_def)

lemma wf_demo_with:
  assumes "h_conns demo p = Some c" "conn_ok demo c \<Longrightarrow> conn_ok demo (f c)" "c_sock_fd (f c) = c_sock_fd c"
  shows "tms_wf (demo_with p f)"
proof -
  have run: "upd_conn p f demo = Inr ((), demo_with p f)"
    using wf_heap(1) [OF tms_wf_demo assms(1)] assms(1) by (simp add: demo_with_def)
  show ?thesis
    by (rule tms.okD [OF ok_upd_conn tms_wf_demo run, THEN conjunct1]) (use assms in \<open>auto dest: wf_heap(1) [OF tms_wf_demo]\<close>)
qed

theorem client_authenticates_itself_witness:
  "\<exists>t. HandleRecvMsg 1 68 (demo_with 1 (\<lambda>c. c\<lparr>c_buff := demo_reply @ replicate 8124 0\<rparr>)) = Inr (0, t)
     \<and> authed t (Conn 1) \<and> authed t (Stream 3)"
proof -
  let ?f = "\<lambda>c. c\<lparr>c_buff := demo_reply @ replicate 8124 0\<rparr>"
  have wf: "tms_wf (demo_with 1 ?f)"
    by (rule wf_demo_with [OF demo_simps(4) [folded One_nat_def]]) (simp_all add: conn_ok_def)
  have "\<exists>t. HandleRecvMsg 1 68 (demo_with 1 ?f) = Inr (0, t) \<and> authed t (Conn 1)
    \<and> authed t (Stream (c_scb (?f (the (h_conns demo 1)))))"
    by (rule client_authenticates_itself [OF wf, where d = 7 and ds = "[]" and a = 1 and mo = 100 and bal = 9000
        and rest = "replicate 8124 0"])
      (simp_all add: demo_with_def map_find_def demo_reply_def)
  then show ?thesis by simp
qed

text \<open>Examples: the reply arrives on the connection to the traffic recorder; a connection is
  accepted.\<close>

definition demo_body :: "Connect \<Rightarrow> Connect" where
  "demo_body c = c\<lparr>c_cstate := s_body, c_stillneedtoread := 68, c_h := hdr_init\<lparr>hlen := 68\<rparr>\<rparr>"

lemma msg_id_reply: "msg_id (demo_reply @ z) = READ_TOKEN_RSP" "drop 36 demo_reply = replicate 32 0"
  "tp_rsp_code (dec_ReadTokenRsp (demo_reply @ z)) = 0" "tp_cid (dec_ReadTokenRsp (demo_reply @ z)) = 5"
  by (simp_all add: demo_reply_def) (simp_all add: enc_ReadTokenRsp_def msg_id_def ld_defs)

lemma demo_stream_step:
  "\<exists>t. stream_step 5 demo_reply (demo_with 5 demo_body) = Inr (None, t) \<and> authed t (Conn 1)"
proof -
  let ?s = "demo_with 5 demo_body"
  let ?c = "demo_body (demo_conn 7 t_center)"
  define c where "c = ?c\<lparr>c_buff := demo_reply @ drop 68 (c_buff ?c), c_cstate := s_header, c_stillneedtoread := 6\<rparr>"
  let ?t = "?s\<lparr>h_conns := (h_conns ?s)(5 \<mapsto> c)\<rparr>"
  have s: "h_conns ?s 5 = Some ?c" by (simp add: demo_with_def)
  have input: "stream_input demo_reply ?c = (Message demo_reply, c)"
    by (simp add: stream_input_def demo_body_def c_def Let_def blit_0)
  have wf: "tms_wf ?t"
    using tms.okD [OF ok_stream_put [OF input s], of "()" ?t] s
      wf_demo_with [OF demo_simps(5), of demo_body] by (simp add: demo_body_def conn_ok_def)
  have acc: "accepts ?t (c_buff c) (Conn 1)"
    by (auto simp: accepts_def demo_with_def map_find_def c_def cid_fd_id msg_id_reply token_equal_def c_str_append)
  obtain t where t: "HandleRecvMsg 5 68 ?t = Inr (0, t)" "authed t (Conn 1)" "conn_core t 5 = conn_core ?t 5"
    using handle_token_run [OF wf _ acc, where p = 5 and d = 7 and ds = "[]" and dc = "demo_conn 9 t_dpi" and n = 68
        and cl = "(demo_conn 5 t_tunnel)\<lparr>c_user := 4, c_scb := 3, c_mobile := 100, c_app := 1\<rparr>"]
    by (auto simp: demo_with_def)
  obtain c' where "h_conns t 5 = Some c'" "c_sdk_verified c' = 0" "c_type c' = t_center"
    using conn_core_at [OF t(3), of c] by (auto simp: c_def demo_body_def)
  then have "charge_msg 5 68 t = Inr (None, t)" by (simp add: charge_msg_def)
  with t input s show ?thesis
    by (auto simp: stream_step_def c_def demo_body_def)
qed


theorem token_authenticates_witness:
  "\<exists>c c' m. h_conns (demo_with 5 demo_body) 5 = Some c \<and> stream_input demo_reply c = (Message m, c')
     \<and> accepts (demo_with 5 demo_body) (c_buff c') (Conn 1)"
proof -
  obtain t where "stream_step 5 demo_reply (demo_with 5 demo_body) = Inr (None, t)" "authed t (Conn 1)"
    using demo_stream_step by blast
  then show ?thesis
    by (rule token_authenticates) (simp add: demo_with_def)
qed

lemma demo_with_ret [simp]: "os_ret (demo_with p f) n = 0"
  by (simp add: demo_with_def demo_def tms_start_def os_quiet_def os.defs)

theorem no_other_authentication_witness:
  "authed (demo_with 1 (\<lambda>c. c\<lparr>c_sdk_verified := 1\<rparr>)) (Conn 1)"
proof -
  let ?s = "demo_with 1 (\<lambda>c. c\<lparr>c_sdk_verified := 1\<rparr>)"
  have "handle_event 3 EPOLLIN 3 [] 0 ?s = Inr (0, ?s\<lparr>os_tick := Suc (os_tick ?s)\<rparr>)"
    by (simp add: handle_event_def in_event_def accept_event_def HandleAcceptEvent_def next_ret_def andThen_apply)
  then show ?thesis
    by (rule no_other_authentication) (simp_all add: demo_with_def)
qed

end
