(* ===== verification/TmsRun.thy ===== *)
theory TmsRun
  imports TmsAuth
begin

text \<open>
  The tms process as a whole: the states its event loop reaches, and the loop around
  \<^verbatim>\<open>HandleRecvEvent\<close>.
\<close>

subsection \<open>Reachable states\<close>

text \<open>The process starts with the fixed connections and then handles events, in any order and with
  any input and any answers of the operating system.\<close>

inductive tms_reach :: "u64 \<Rightarrow> tms \<Rightarrow> bool" for m_socket where
  start: "\<forall>n. length (os_junk os n) = sizeof_buff \<Longrightarrow> main_init epfd m_socket (tms_start os b) = Inr (True, s)
    \<Longrightarrow> tms_reach m_socket s"
| event: "tms_reach m_socket s \<Longrightarrow> handle_event m_socket events fd cs err s = Inr (err', t) \<Longrightarrow> tms_reach m_socket t"

text \<open>C1: in every state the event loop reaches, whatever the peers send and the operating system answers, each entry
  of the connection table is a live connection with that descriptor, so that no freed connection is in the table; each entry of the
  user table is a live user with that identity; the stream and user pointers of every connection and the user pointer of every
  stream control block are null or live, and every block in the tree of a user and on the free and watch lists is live; buffers and tokens have
  their sizes; and a user without an outstanding report holds no accumulated traffic. Nothing is said of the pointers from a
  block to its two connections and of the elements of the connection pools: these are not always live, see \<open>dead_dpi_connection\<close>.\<close>

theorem tms_reach_wf: "tms_reach m_socket s \<Longrightarrow> tms_wf s"
proof (induction rule: tms_reach.induct)
  case (start os epfd b s)
  from tms.okD [OF ok_main_init tms_wf_start [OF start(1)] start(2)] show ?case ..
next
  case (event s events fd cs err err' t)
  from tms.okD [OF ok_handle_event event.IH event.hyps(2)] show ?case ..
qed

definition os_count :: os where
  "os_count = os_quiet\<lparr>os_ret := \<lambda>n. int n + 4\<rparr>"

definition counting :: "tms \<Rightarrow> bool" where
  "counting s \<longleftrightarrow> os_ret s = (\<lambda>n. int n + 4) \<and> 0 < h_next s"

lemma main_connect_run:
  assumes "counting s"
  shows "\<exists>t. main_connect (CreateDnsConn ip port) s = Inr (True, t) \<and> counting t"
    and "\<exists>t. main_connect (CreateCenterConn ip port) s = Inr (True, t) \<and> counting t"
    and "\<exists>t. main_connect (CreateDpiConn ip port) s = Inr (True, t) \<and> counting t"
  using assms
  by (auto simp: counting_def main_connect_def CreateDnsConn_def CreateCenterConn_def CreateDpiConn_def
      enter_conn_run AddEvent_def next_ret_def andThen_apply)

lemma main_init_run: "\<exists>s. main_init 3 3 (tms_start os_count False) = Inr (True, s)"
proof -
  let ?s = "tms_start os_count False"
  let ?init = "?s\<lparr>Epoll_FD := 3, os_tick := Suc (os_tick ?s), os_log := os_log ?s @ [EpollAdd 3 (EPOLLIN OR EPOLLET)]\<rparr>"
  have "os_ret ?s = (\<lambda>n. int n + 4)"
    by (simp add: tms_start_def os_count_def os_quiet_def os.defs)
  then have s0: "counting ?init" "next_ret (?s\<lparr>Epoll_FD := 3\<rparr>) (- 1) 0 = 0"
    by (simp_all add: counting_def next_ret_def)
  obtain s1 where s1: "main_connect (CreateDnsConn (os_inet_addr ?s (ascii ''114.114.114.114'')) 53) ?init = Inr (True, s1)" "counting s1"
    using main_connect_run(1) [OF s0(1)] by blast
  obtain s2 where s2: "main_connect (CreateCenterConn (os_inet_addr ?s (ascii ''127.0.0.1'')) 10170) s1 = Inr (True, s2)" "counting s2"
    using main_connect_run(2) [OF s1(2)] by blast
  obtain s3 where s3: "main_connect (CreateDpiConn (os_inet_addr ?s (ascii ''127.0.0.1'')) 10160) s2 = Inr (True, s3)"
    using main_connect_run(3) [OF s2(2)] by blast
  show ?thesis
    using s0(2) s1(1) s2(1) s3 by (simp add: main_init_def)
qed

theorem tms_reach_wf_witness: "\<exists>s. tms_reach 3 s \<and> tms_wf s"
proof -
  obtain s where "main_init 3 3 (tms_start os_count False) = Inr (True, s)"
    using main_init_run by blast
  then have "tms_reach 3 s"
    by (rule tms_reach.start [rotated]) (simp add: os_count_def)
  then show ?thesis by (blast intro: tms_reach_wf)
qed

subsection \<open>One round of the receive loop\<close>

lemma yields_events: "yields (\<lambda>r. r = - 1 \<or> r = 0) (RemoveEvent e fd ev)"
  unfolding RemoveEvent_def yields_def by (auto simp: next_ret_def split: if_splits)

lemma yields_RecordTraffic: "yields (\<lambda>r. r = - 1 \<or> r = 0) (RecordTraffic u q n)"
  unfolding RecordTraffic_def by (auto intro!: yields_andThen yields_if)

definition loop_end :: "int option \<Rightarrow> bool" where
  "loop_end r \<longleftrightarrow> r \<in> {None, Some 0, Some (- 1), Some (- 2)}"

lemma yields_charge_msg: "yields loop_end (charge_msg p n)"
  unfolding charge_msg_def
  by (auto intro!: yields_andThen yields_if simp: loop_end_def)

lemma yields_forward_step: "yields loop_end (forward_step p d)"
  unfolding forward_step_def forward_down_def forward_up_def Let_def
  by (auto intro!: yields_andThen yields_if simp: loop_end_def)

lemma yields_stream_step: "yields loop_end (stream_step p d)"
  unfolding stream_step_def
  by (auto intro!: yields_andThen yields_if yields_forward_step yields_charge_msg simp: loop_end_def
      split: prod.splits rx_event.splits)

abbreviation (input) rx_value :: "int \<Rightarrow> bool" where "rx_value v \<equiv> v = 0 \<or> v = - 1 \<or> v = - 2"

lemma read_ret_end: "fst (read_chunk n cs) = [] \<Longrightarrow> rx_value (read_ret n cs)"
  by (auto simp: read_ret_def read_chunk_def split: list.splits if_splits)

lemma yields_StreamRecvEvent: "yields (\<lambda>r. rx_value (fst r)) (StreamRecvEvent p cs)"
proof (induction p cs rule: StreamRecvEvent.induct)
  case (1 p cs)
  show ?case
    unfolding StreamRecvEvent.simps [of p cs]
    by (rule yields_andThen, rule yields_if, simp add: read_ret_end,
        rule yields_andThen2 [OF yields_stream_step])
      (auto simp: loop_end_def intro: 1)
qed

lemma yields_DnsRecvEvent: "yields rx_value (DnsRecvEvent p ds)"
  by (induction ds) (auto intro!: yields_andThen yields_if)

lemma yields_HandleRecvEvent: "yields (\<lambda>r. rx_value (fst r)) (HandleRecvEvent fd cs)"
proof -
  have recv: "yields (\<lambda>r. rx_value (fst r))
    (if b then andThen (DnsRecvEvent p cs) (\<lambda>v. ret (v, [])) else StreamRecvEvent p cs)" for b p
    by (auto intro!: yields_StreamRecvEvent yields_andThen2 [OF yields_DnsRecvEvent])
  show ?thesis
    unfolding HandleRecvEvent_def
    by (rule yields_andThen)
      (auto intro!: yields_andThen yields_if yields_andThen2 [OF recv] split: option.splits)
qed

text \<open>C25: the loop around \<^verbatim>\<open>HandleRecvEvent\<close> in \<^verbatim>\<open>main\<close> ends: its body runs at most once, because
  \<^verbatim>\<open>HandleRecvEvent\<close> never returns a positive number. More fuel does not change the result, and the
  result is never that of an exhausted loop.\<close>

theorem recv_loop_once:
  "recv_loop (Suc n) events fd err cs = recv_loop 1 events fd err cs \<and> yields (\<lambda>r. r \<noteq> None) (recv_loop (Suc n) events fd err cs)"
proof -
  have step: "recv_loop (Suc n) events fd err cs s = recv_loop 1 events fd err cs s
    \<and> (\<forall>r t. recv_loop 1 events fd err cs s = Inr (r, t) \<longrightarrow> r \<noteq> None)" for n s
  proof (cases "HandleRecvEvent fd cs s")
    case (Inr x)
    obtain v rest t where x: "x = ((v, rest), t)" by (metis prod.collapse)
    then have "rx_value v" using yieldsD [OF yields_HandleRecvEvent] Inr by fastforce
    with Inr x show ?thesis by (auto simp: andThen_eq_Inr_iff split: if_splits)
  qed simp
  then show ?thesis unfolding yields_def fun_eq_iff by metis
qed

subsection \<open>Taking a stream down\<close>

definition down_frame where
  "down_frame s = (h_conns s, scb_core s, ConnMap s, Epoll_FD s, scb_free_list s, (\<lambda>u. h_users s u = None))"

lemma down_frame_simps [simp]:
  "down_frame (s\<lparr>os_log := l\<rparr>) = down_frame s" "down_frame (s\<lparr>os_tick := i\<rparr>) = down_frame s"
  by (simp_all add: down_frame_def)

lemma keeps_down_user: "keeps down_frame (upd_user u f)"
  by (auto simp: keeps_def upd_eq_Inr down_frame_def fun_eq_iff split: if_splits)

lemma keeps_down_traffic: "keeps down_frame (upd_scb q (\<lambda>b. b\<lparr>s_traffic := f b\<rparr>))"
  by (auto simp: keeps_def upd_eq_Inr down_frame_def scb_core_def fun_eq_iff)

lemma keeps_down_sys: "keeps down_frame gettimeofday" "keeps down_frame (emit e)"
  by (auto simp: keeps_def)

lemma keeps_ReportOrAccumulate: "keeps down_frame (ReportOrAccumulate u q)"
  unfolding ReportOrAccumulate_def set_accu_start_def copy_host_def
  by (intro keeps_andThen keeps_if keeps_require keeps_heap_get keeps_gets keeps_ret keeps_front_of
      keeps_down_user keeps_down_traffic keeps_down_sys)

lemma faultless_ReportOrAccumulate:
  assumes "tms_wf s" "live_scb s q" "live_user s u" "h_scbs s q = Some b"
    and "s_tunnel_conn b = p" "h_conns s p = Some c" "length (c_curr_host c) < 256" "CenterConnPool s \<noteq> []"
  shows "faultless (ReportOrAccumulate u q) s"
proof -
  obtain x where x: "h_users s u = Some x" using assms(3) by (auto simp: refs_defs)
  obtain ce cs where ce: "CenterConnPool s = ce # cs" using assms(8) by (cases "CenterConnPool s") auto
  have "0 < p" "0 < q" "0 < u" using assms wf_heap(1) [OF assms(1,6)] by (auto simp: refs_defs)
  with assms x ce show ?thesis
    by (auto simp: ReportOrAccumulate_def set_accu_start_def copy_host_def faultless_def andThen_apply)
qed


lemma down_frameD:
  assumes "down_frame t = down_frame s"
  shows "h_conns t = h_conns s" "scb_core t = scb_core s" "ConnMap t = ConnMap s" "Epoll_FD t = Epoll_FD s"
    "scb_free_list t = scb_free_list s" "h_users t u = None \<longleftrightarrow> h_users s u = None"
  using assms by (auto simp: down_frame_def fun_eq_iff)

definition untied :: "Connect \<Rightarrow> SCB \<Rightarrow> SCB" where
  "untied c b = (if c_type c = t_tunnel then b\<lparr>s_tunnel_conn := 0\<rparr> else b\<lparr>s_agent_conn := 0\<rparr>)"

lemma delete_conn_run:
  assumes "p \<noteq> 0" "h_conns s p = Some c" "c_scb c \<noteq> 0" "h_scbs s (c_scb c) = Some b" "c_type c = t_tunnel \<or> c_type c = t_agent"
  obtains t where "delete_conn p s = Inr ((), t)" "h_conns t = (h_conns s)(p := None)"
    "h_scbs t = (h_scbs s)(c_scb c \<mapsto> untied c b)" "ConnMap t = ConnMap s" "scb_free_list t = scb_free_list s" "h_users t = h_users s"
proof -
  have "faultless (delete_conn p) s"
    using assms by (auto simp: delete_conn_def dtor_def free_conn_def RemoveEvent_def faultless_def andThen_apply)
  then obtain t where run: "delete_conn p s = Inr ((), t)" by (auto simp: faultless_def)
  then have "h_conns t = (h_conns s)(p := None) \<and> h_scbs t = (h_scbs s)(c_scb c \<mapsto> untied c b)
    \<and> ConnMap t = ConnMap s \<and> scb_free_list t = scb_free_list s \<and> h_users t = h_users s"
    using assms by (auto simp: delete_conn_def dtor_def free_conn_def RemoveEvent_def untied_def andThen_apply split: if_splits)
  with that run show thesis by blast
qed

lemma close_stream_run:
  assumes wf: "tms_wf s" and p: "h_conns s p = Some c" "c_type c = t_tunnel" "p \<noteq> 0"
    and c: "c_user c \<noteq> 0" "c_scb c = q" "q \<noteq> 0" "length (c_curr_host c) < 256" "CenterConnPool s \<noteq> []"
    and b: "h_scbs s q = Some b" "s_tunnel_conn b = p" "s_agent_conn b = a"
    and a: "a \<noteq> p" "a \<noteq> 0" "h_conns s a = Some ca" "c_type ca = t_agent" "c_scb ca = q"
  obtains t b' where "close_stream p s = Inr ((), t)" "h_conns t = (h_conns s)(a := None, p \<mapsto> c\<lparr>c_user := 0\<rparr>)"
    "ConnMap t = map_erase (c_sock_fd ca) (ConnMap s)" "scb_free_list t = scb_free_list s @ [q]"
    "h_scbs t q = Some (SCB_Reset b')"
proof -
  have live: "live_scb s q" "live_user s (c_user c)"
    using wf_heap(1) [OF wf p(1)] c by (auto simp: conn_ok_def refs_defs)
  have "faultless (ReportOrAccumulate (c_user c) q) s"
    by (rule faultless_ReportOrAccumulate [OF wf live b(1,2) p(1) c(4,5)])
  then obtain r s1 where run1: "ReportOrAccumulate (c_user c) q s = Inr (r, s1)" by (rule faultlessE)
  note fr = down_frameD [OF keepsD [OF keeps_ReportOrAccumulate run1]]
  obtain b1 where b1: "h_scbs s1 q = Some b1" "s_agent_conn b1 = a"
    using scb_core_SomeD [OF fr(2) b(1)] b(3) by metis
  obtain u1 where u1: "h_users s1 (c_user c) = Some u1"
    using fr(6) live(2) by (cases "h_users s1 (c_user c)") (auto simp: refs_defs)
  define s3 where "s3 = s1\<lparr>h_scbs := (h_scbs s1)(q \<mapsto> b1\<lparr>s_tunnel_conn := 0\<rparr>), ConnMap := map_erase (c_sock_fd ca) (ConnMap s1)\<rparr>"
  obtain s4 where s4: "delete_conn a s3 = Inr ((), s4)" "h_conns s4 = (h_conns s3)(a := None)"
    "h_scbs s4 = (h_scbs s3)(q \<mapsto> untied ca (b1\<lparr>s_tunnel_conn := 0\<rparr>))" "ConnMap s4 = ConnMap s3"
    "scb_free_list s4 = scb_free_list s3" "h_users s4 = h_users s3"
    using delete_conn_run [of a s3 ca "b1\<lparr>s_tunnel_conn := 0\<rparr>"] a c fr(1) by (auto simp: s3_def)
  let ?b = "untied ca (b1\<lparr>s_tunnel_conn := 0\<rparr>)"
  let ?t = "s4\<lparr>h_scbs := (h_scbs s4)(q \<mapsto> SCB_Reset ?b), scb_free_list := scb_free_list s4 @ [q],
    h_conns := (h_conns s4)(p \<mapsto> c\<lparr>c_user := 0\<rparr>)\<rparr>"
  have drop: "drop_peer a (s1\<lparr>h_scbs := (h_scbs s1)(q \<mapsto> b1\<lparr>s_tunnel_conn := 0\<rparr>)\<rparr>) = Inr ((), s4)"
    using a fr(1) s4(1) by (simp add: drop_peer_def erase_entry_def s3_def)
  have at4: "h_conns s4 p = Some c" "h_users s4 (c_user c) = Some u1" "h_scbs s4 q = Some ?b"
    using s4 p a u1 fr(1) by (simp_all add: s3_def)
  have "close_stream p s = Inr ((), ?t)"
    using p c b run1 b1 drop at4 fr(1) by (simp add: close_stream_def ReleaseSCB_def RecycleSCB_def)
  then show thesis
    by (rule that) (use s4 fr a in \<open>simp_all add: s3_def\<close>)
qed


text \<open>C21: when a client goes away, everything of its stream goes with it: the tunnel and the agent
  connection are deleted, neither descriptor is in the connection table any more, and the stream
  control block is back on the free list with no reference to the connections or the user.\<close>

theorem RemoveConn_stream:
  assumes wf: "tms_wf s" and p: "map_find fd (ConnMap s) = Some p" "h_conns s p = Some c" "c_type c = t_tunnel" "0 \<le> sint fd"
    and c: "c_user c \<noteq> 0" "c_scb c = q" "q \<noteq> 0" "length (c_curr_host c) < 256" "CenterConnPool s \<noteq> []"
    and b: "h_scbs s q = Some b" "s_tunnel_conn b = p" "s_agent_conn b = a"
    and a: "a \<noteq> p" "a \<noteq> 0" "h_conns s a = Some ca" "c_type ca = t_agent" "c_scb ca = q"
  shows "\<exists>t b'. RemoveConn fd s = Inr (0, t) \<and> h_conns t p = None \<and> h_conns t a = None
    \<and> map_find fd (ConnMap t) = None \<and> map_find (c_sock_fd ca) (ConnMap t) = None
    \<and> q \<in> set (scb_free_list t) \<and> h_scbs t q = Some b'
    \<and> s_user b' = 0 \<and> s_tunnel_conn b' = 0 \<and> s_agent_conn b' = 0 \<and> s_status b' = 0"
proof -
  have p0: "p \<noteq> 0" using wf_heap(1) [OF wf p(2)] by simp
  obtain s1 b1 where s1: "close_stream p s = Inr ((), s1)" "h_conns s1 = (h_conns s)(a := None, p \<mapsto> c\<lparr>c_user := 0\<rparr>)"
    "ConnMap s1 = map_erase (c_sock_fd ca) (ConnMap s)" "scb_free_list s1 = scb_free_list s @ [q]"
    "h_scbs s1 q = Some (SCB_Reset b1)"
    by (rule close_stream_run [OF wf p(2,3) p0 c b a])
  obtain s2 where s2: "delete_conn p s1 = Inr ((), s2)" "h_conns s2 = (h_conns s1)(p := None)"
    "h_scbs s2 = (h_scbs s1)(q \<mapsto> untied (c\<lparr>c_user := 0\<rparr>) (SCB_Reset b1))" "ConnMap s2 = ConnMap s1" "scb_free_list s2 = scb_free_list s1"
    using delete_conn_run [of p s1 "c\<lparr>c_user := 0\<rparr>" "SCB_Reset b1"] p0 p(3) c s1(2,5) by auto
  have run: "RemoveConn fd s = Inr (0, s2\<lparr>ConnMap := map_erase fd (ConnMap s2)\<rparr>)"
    using p p0 c s1(1) s2(1) by (simp add: RemoveConn_def remove_found_def erase_entry_def)
  show ?thesis
    by (rule exI [of _ "s2\<lparr>ConnMap := map_erase fd (ConnMap s2)\<rparr>"],
        rule exI [of _ "untied (c\<lparr>c_user := 0\<rparr>) (SCB_Reset b1)"], intro conjI, rule run)
      (use s1 s2 a p(3) in \<open>simp_all add: untied_def SCB_Reset_def map_find_erase\<close>)
qed

theorem RemoveConn_stream_witness:
  "\<exists>t b'. RemoveConn 5 demo = Inr (0, t) \<and> h_conns t 1 = None \<and> h_conns t 2 = None
    \<and> map_find 5 (ConnMap t) = None \<and> map_find 6 (ConnMap t) = None
    \<and> 3 \<in> set (scb_free_list t) \<and> h_scbs t 3 = Some b'
    \<and> s_user b' = 0 \<and> s_tunnel_conn b' = 0 \<and> s_agent_conn b' = 0 \<and> s_status b' = 0"
proof -
  let ?c = "(demo_conn 5 t_tunnel)\<lparr>c_user := 4, c_scb := 3, c_mobile := 100, c_app := 1\<rparr>"
  let ?ca = "(demo_conn 6 t_agent)\<lparr>c_user := 4, c_scb := 3, c_cstate := s_forward, c_stillneedtoread := 8192\<rparr>"
  let ?b = "(SCB_init 1)\<lparr>s_user := 4, s_tunnel_conn := 1, s_tunn_fd := 5, s_agent_conn := 2, s_agent_fd := 6\<rparr>"
  have ca: "h_conns demo 2 = Some ?ca" "h_scbs demo 3 = Some ?b" by (simp_all add: demo_def)
  have host: "c_curr_host ?c = []" by (simp add: demo_conn_def Connect_init_def)
  show ?thesis
    using RemoveConn_stream [OF tms_wf_demo, of 5 1 ?c 3 ?b 2 ?ca] ca host by (simp add: map_find_def)
qed

subsection \<open>The pool of dpi connections\<close>

text \<open>C14: when the connection to the dpi is gone, the next accepted token is fatal: \<^verbatim>\<open>RemoveConn\<close> deletes the connection but
  leaves it in the pool, where the code that takes it out is commented out, and accepting the token of any client with a stream then uses the
  freed connection to tell the dpi of the client.\<close>

theorem dead_dpi_connection:
  assumes wf: "tms_wf s" and d: "map_find fd (ConnMap s) = Some d" "h_conns s d = Some dc" "c_type dc = t_dpi" "0 \<le> sint fd"
    and pool: "DpiConnPool s = d # ds"
    and cl: "h_conns s q = Some cl" "q \<noteq> d" "c_scb cl \<noteq> 0" "c_user cl \<noteq> 0"
  shows "\<exists>t. RemoveConn fd s = Inr (0, t) \<and> h_conns t d = None \<and> DpiConnPool t = d # ds \<and> token_accept q bal t = Inl Dangling"
proof -
  have d0: "d \<noteq> 0" using wf_heap(1) [OF wf d(2)] by simp
  have "\<exists>t. RemoveConn fd s = Inr (0, t) \<and> h_conns t = (h_conns s)(d := None) \<and> DpiConnPool t = DpiConnPool s"
    using d d0
    by (auto simp: RemoveConn_def remove_found_def delete_conn_def dtor_def free_conn_def RemoveEvent_def erase_entry_def andThen_apply)
  then obtain t where t: "RemoveConn fd s = Inr (0, t)" "h_conns t = (h_conns s)(d := None)" "DpiConnPool t = DpiConnPool s" by blast
  have "tms_wf t" using tms.okD [OF ok_RemoveConn wf t(1)] by simp
  then have "token_accept q bal t = Inl Dangling"
    by (rule token_accept_dangling [where d = d and ds = ds]) (use t cl pool d0 in simp_all)
  with t pool show ?thesis by simp
qed

theorem dead_dpi_connection_witness:
  "\<exists>t. RemoveConn 9 demo = Inr (0, t) \<and> h_conns t 7 = None \<and> DpiConnPool t = [7] \<and> token_accept 1 9000 t = Inl Dangling"
  using dead_dpi_connection [OF tms_wf_demo, of 9 7 "demo_conn 9 t_dpi" "[]" 1
      "(demo_conn 5 t_tunnel)\<lparr>c_user := 4, c_scb := 3, c_mobile := 100, c_app := 1\<rparr>" 9000]
  by (simp add: map_find_def)

end
