(* ===== verification/TmsForward.thy ===== *)
theory TmsForward
  imports TmsAuth
begin

text \<open>
  Forwarding between a client and its web server (\<^verbatim>\<open>StreamRecvEvent\<close> and \<^verbatim>\<open>HandleEPOEvent\<close>): uploads,
  downloads with back-pressure, and the switch to forwarding mode.
\<close>

subsection \<open>Forwarding\<close>

text \<open>A stream in forwarding mode: the tunnel \<open>p\<close> of a client, the agent connection \<open>a\<close> to the web
  server, the block \<open>q\<close> and the user \<open>u\<close> they share.\<close>

definition forwarding :: "tms \<Rightarrow> ptr \<Rightarrow> Connect \<Rightarrow> ptr \<Rightarrow> Connect \<Rightarrow> SCB \<Rightarrow> User \<Rightarrow> bool" where
  "forwarding s p c a ca b u \<longleftrightarrow>
     p \<noteq> 0 \<and> a \<noteq> 0 \<and> p \<noteq> a \<and> h_conns s p = Some c \<and> h_conns s a = Some ca
     \<and> c_type c = t_tunnel \<and> c_type ca = t_agent \<and> c_cstate c = s_forward \<and> c_cstate ca = s_forward
     \<and> c_offset c = 0
     \<and> c_scb c \<noteq> 0 \<and> c_scb ca = c_scb c \<and> h_scbs s (c_scb c) = Some b
     \<and> c_user c \<noteq> 0 \<and> c_user ca = c_user c \<and> h_users s (c_user c) = Some u
     \<and> s_tunnel_conn b = p \<and> s_agent_conn b = a"

definition charge :: "tms \<Rightarrow> int \<Rightarrow> u64" where
  "charge s n = word_of_int (TrafficEst (build_accurate s) n)"

definition refused :: "tms \<Rightarrow> SCB \<Rightarrow> User \<Rightarrow> int \<Rightarrow> bool" where
  "refused s b u n \<longleftrightarrow> s_status b = u_validated \<and> sint (u_balance u - charge s n) < 4000"

lemma send_result_frame [simp]:
  "send_result (s\<lparr>h_conns := hc\<rparr>) d = send_result s d" "send_result (s\<lparr>h_scbs := hs\<rparr>) d = send_result s d"
  "send_result (s\<lparr>h_users := hu\<rparr>) d = send_result s d"
  by (simp_all add: send_result_def)

text \<open>The bytes the kernel has taken for a descriptor, and the downloaded bytes a connection still
  holds for its client.\<close>

definition sent :: "u64 \<Rightarrow> event list \<Rightarrow> bytes" where
  "sent fd log = concat (map (\<lambda>e. case e of Send f bs r \<Rightarrow> if f = fd then take (nat r) bs else [] | _ \<Rightarrow> []) log)"

definition pending :: "Connect \<Rightarrow> bytes" where
  "pending c = ldn (c_buff c) (unat (c_offset c)) (unat (c_datalen c))"

lemma sent_simps [simp]:
  "sent fd (l @ [Send fd bs r]) = sent fd l @ take (nat r) bs" "sent fd (l @ [EpollDel e]) = sent fd l"
  "sent fd (l @ [EpollAdd e ev]) = sent fd l"
  "sent fd (l @ [Send fd bs r, EpollDel e]) = sent fd l @ take (nat r) bs"
  "sent fd (l @ [Send fd bs r, EpollAdd e ev]) = sent fd l @ take (nat r) bs"
  by (simp_all add: sent_def)

lemma send_result_nat: "nat (send_result s d) \<le> length d" "send_result s d \<noteq> - 1 \<Longrightarrow> int (nat (send_result s d)) = send_result s d"
  using send_result_bounds [of s d] by auto

text \<open>C15: what one read of a client in forwarding mode brings is charged in full, before anything is sent. If the balance does not
  allow the charge, nothing is sent and the result is -1. Otherwise the bytes are passed, unchanged, to one \<^verbatim>\<open>send\<close> on the
  socket of the web server, which gets the front that the kernel takes: all of it, a part, or nothing. The result is the same in
  each case, and no connection keeps a part that was not taken: it is lost, although it has been charged.\<close>

theorem upload_forwarded:
  assumes f: "forwarding s p c a ca b u" and d: "length d \<le> sizeof_buff"
  shows "\<exists>t. stream_step p d s = Inr (if refused s b u (int (length d)) then Some (- 1) else None, t)
    \<and> os_log t = os_log s @ (if refused s b u (int (length d)) then [] else [Send (c_sock_fd ca) d (send_result s d)])
    \<and> sent (c_sock_fd ca) (os_log t) = sent (c_sock_fd ca) (os_log s)
        @ (if refused s b u (int (length d)) then [] else take (nat (send_result s d)) d)
    \<and> h_scbs t (c_scb c) = Some (b\<lparr>s_traffic := s_traffic b + charge s (int (length d))\<rparr>)
    \<and> h_users t (c_user c) = Some (u\<lparr>u_balance := u_balance u - charge s (int (length d))\<rparr>)
    \<and> h_conns t = (h_conns s)(p \<mapsto> c\<lparr>c_buff := blit (c_buff c) 0 d\<rparr>)"
  using f d
  by (auto simp: forwarding_def stream_step_def forward_step_def forward_up_def RecordTraffic_def
      refused_def charge_def blit_0 andThen_apply)

lemma pending_rest:
  assumes "length m = sizeof_buff" "length d \<le> sizeof_buff" "w \<le> length d"
  shows "ldn (blit m 0 d) (unat (of_nat w :: u16)) (unat (of_nat (length d - w) :: u16)) = drop w d"
proof -
  have "unat (of_nat w :: u16) = w" "unat (of_nat (length d - w) :: u16) = length d - w"
    using assms by (simp_all add: unat_of_nat del: of_nat_diff)
  then show ?thesis using assms by (simp add: ldn_def blit_0)
qed

text \<open>C17: what a web server sends is passed to the client's socket, and what the kernel takes of it is charged. If that charge
  takes the balance of an authenticated stream below 4000, the result is -1 and the connection keeps no record of a rest: offset and length of the
  held data stay as they were. Otherwise, when the socket did not take all of it (or failed), the agent connection keeps exactly the rest,
  is marked as hung up, and the handler returns to wait for the client's socket to become writable; when it took all, the
  loop goes on.\<close>

theorem download_forwarded:
  assumes f: "forwarding s p c a ca b u" and d: "length d \<le> sizeof_buff" "d \<noteq> []"
    and ca: "c_offset ca = 0" "length (c_buff ca) = sizeof_buff"
  defines "w \<equiv> send_result s d"
  shows "\<exists>r t. stream_step a d s = Inr (r, t)
    \<and> sent (c_sock_fd c) (os_log t) = sent (c_sock_fd c) (os_log s) @ take (nat w) d
    \<and> h_scbs t (c_scb c) = Some (if w = - 1 then b else b\<lparr>s_traffic := s_traffic b + charge s w\<rparr>)
    \<and> (if w \<noteq> - 1 \<and> refused s b u w then r = Some (- 1) \<and> h_conns t a = Some (ca\<lparr>c_buff := blit (c_buff ca) 0 d\<rparr>)
       else (r = None \<longleftrightarrow> w = int (length d))
         \<and> (w \<noteq> int (length d) \<longrightarrow>
             (\<exists>ca'. h_conns t a = Some ca' \<and> pending ca' = drop (nat w) d \<and> c_status ca' = sta_hangup)))"
proof -
  have n: "ldn (blit (c_buff ca) 0 d) (unat (of_nat (nat w) :: u16)) (unat (of_nat (length d - nat w) :: u16)) = drop (nat w) d"
    unfolding w_def by (rule pending_rest [OF ca(2) d(1) send_result_nat(1)])
  show ?thesis
  proof (cases "w = - 1")
    case True
    then show ?thesis
      using f d ca n unfolding w_def
      by (auto simp: forwarding_def stream_step_def forward_step_def forward_down_def RemoveEvent_def
          blit_0 andThen_apply pending_def Let_def)
  next
    case False
    then show ?thesis
      using f d ca n send_result_nat [of s d] unfolding w_def
      by (auto simp: forwarding_def stream_step_def forward_step_def forward_down_def RemoveEvent_def RecordTraffic_def
          refused_def charge_def blit_0 andThen_apply pending_def Let_def)
  qed
qed

definition flushed :: "Connect \<Rightarrow> int \<Rightarrow> Connect" where
  "flushed ca w =
     (if w = int (unat (c_datalen ca))
      then ca\<lparr>c_offset := 0, c_stillneedtoread := of_nat sizeof_buff, c_status := sta_online\<rparr>
      else if w > 0 then ca\<lparr>c_offset := c_offset ca + word_of_int w, c_datalen := c_datalen ca - word_of_int w\<rparr>
      else ca)"

lemma flush_mark_run:
  assumes "h_conns s a = Some ca" "a \<noteq> 0"
  obtains l i where "flush_mark a ca w s = Inr ((), s\<lparr>h_conns := (h_conns s)(a \<mapsto> flushed ca w), os_tick := i, os_log := os_log s @ l\<rparr>)"
    "\<And>fd. sent fd (os_log s @ l) = sent fd (os_log s)"
proof -
  let ?t = "\<lambda>i l. s\<lparr>h_conns := (h_conns s)(a \<mapsto> flushed ca w), os_tick := i, os_log := os_log s @ l\<rparr>"
  have same: "s = s\<lparr>h_conns := (h_conns s)(a \<mapsto> ca), os_tick := os_tick s, os_log := os_log s @ []\<rparr>"
    using assms(1) by (intro tms.equality) (simp_all add: fun_upd_idem)
  consider "w = int (unat (c_datalen ca))" "Epoll_FD s = 0 \<or> c_sock_fd ca = 0"
    | "w = int (unat (c_datalen ca))" "Epoll_FD s \<noteq> 0" "c_sock_fd ca \<noteq> 0"
    | "w \<noteq> int (unat (c_datalen ca))" "w > 0" | "w \<noteq> int (unat (c_datalen ca))" "\<not> w > 0"
    by blast
  then show thesis
  proof cases
    case 1
    then have "flush_mark a ca w s = Inr ((), ?t (os_tick s) [])"
      using assms by (auto simp: flush_mark_def AddEvent_def flushed_def intro!: tms.equality)
    then show thesis by (rule that) simp
  next
    case 2
    then have "flush_mark a ca w s = Inr ((), ?t (Suc (os_tick s)) [EpollAdd (c_sock_fd ca) EPOLLIN])"
      using assms by (simp add: flush_mark_def AddEvent_def flushed_def)
    then show thesis by (rule that) simp
  next
    case 3
    then have "flush_mark a ca w s = Inr ((), ?t (os_tick s) [])"
      using assms by (auto simp: flush_mark_def flushed_def intro!: tms.equality)
    then show thesis by (rule that) simp
  next
    case 4
    then have "flush_mark a ca w s = Inr ((), ?t (os_tick s) [])"
      using same by (simp add: flush_mark_def flushed_def)
    then show thesis by (rule that) simp
  qed
qed


lemma flush_step:
  assumes f: "forwarding s p c a ca b u" and p: "map_find (c_sock_fd c) (ConnMap s) = Some p" "c_status c \<noteq> sta_inprogress"
    and ca: "c_datalen ca \<noteq> 0" "unat (c_offset ca) + unat (c_datalen ca) \<le> sizeof_buff"
  obtains v t b' u' where "HandleEPOEvent (c_sock_fd c) s = Inr (v, t)"
    "sent (c_sock_fd c) (os_log t) = sent (c_sock_fd c) (os_log s) @ take (nat (send_result s (pending ca))) (pending ca)"
    "forwarding t p c a (flushed ca (send_result s (pending ca))) b' u'" "ConnMap t = ConnMap s"
proof -
  let ?w = "send_result s (pending ca)" and ?fd = "c_sock_fd c"
  let ?s = "s\<lparr>os_tick := Suc (os_tick s), os_log := os_log s @ [Send ?fd (pending ca) ?w]\<rparr>"
  have fs: "p \<noteq> 0" "a \<noteq> 0" "p \<noteq> a" "h_conns s p = Some c" "h_conns s a = Some ca" "c_type c = t_tunnel"
    "c_cstate c = s_forward" "c_scb c \<noteq> 0" "h_scbs s (c_scb c) = Some b" "c_user c \<noteq> 0" "h_users s (c_user c) = Some u"
    "s_agent_conn b = a"
    using f unfolding forwarding_def by blast+
  have "h_conns ?s a = Some ca" using fs(5) by simp
  then obtain l i where m: "flush_mark a ca ?w ?s = Inr ((), ?s\<lparr>h_conns := (h_conns ?s)(a \<mapsto> flushed ca ?w), os_tick := i, os_log := os_log ?s @ l\<rparr>)"
    and l: "sent ?fd (os_log ?s @ l) = sent ?fd (os_log ?s)"
    using flush_mark_run fs(2) by metis
  define s2 where "s2 = ?s\<lparr>h_conns := (h_conns ?s)(a \<mapsto> flushed ca ?w), os_tick := i, os_log := os_log ?s @ l\<rparr>"
  have s2: "h_conns s2 = (h_conns s)(a \<mapsto> flushed ca ?w)" "h_scbs s2 = h_scbs s" "h_users s2 = h_users s"
    "sent ?fd (os_log s2) = sent ?fd (os_log s) @ take (nat ?w) (pending ca)" "ConnMap s2 = ConnMap s"
    using l by (simp_all add: s2_def)
  have fl: "c_type (flushed ca w) = c_type ca" "c_cstate (flushed ca w) = c_cstate ca" "c_scb (flushed ca w) = c_scb ca"
    "c_user (flushed ca w) = c_user ca" for w by (simp_all add: flushed_def)
  have run: "HandleEPOEvent ?fd s = (if ?w > 0 then
      andThen (RecordTraffic (c_user c) (c_scb c) (charge s2 ?w)) (\<lambda>r. ret (if r = - 1 then - 1 else 0)) s2 else Inr (0, s2))"
    using fs p ca m [folded s2_def] s2(1) by (simp add: HandleEPOEvent_def flush_download_def charge_def pending_def [symmetric])
  show thesis
  proof (cases "?w > 0")
    case False
    with run f fl s2 show thesis by (intro that [of 0 s2 b u]) (simp_all add: forwarding_def)
  next
    case True
    let ?k = "charge s2 ?w"
    define t where "t = s2\<lparr>h_scbs := (h_scbs s)(c_scb c \<mapsto> b\<lparr>s_traffic := s_traffic b + ?k\<rparr>),
      h_users := (h_users s)(c_user c \<mapsto> u\<lparr>u_balance := u_balance u - ?k\<rparr>)\<rparr>"
    have "\<exists>r. RecordTraffic (c_user c) (c_scb c) ?k s2 = Inr (r, t)"
      using fs s2 by (simp add: RecordTraffic_def t_def)
    then have "\<exists>v. HandleEPOEvent ?fd s = Inr (v, t)" using run True by auto
    with f fl s2 show thesis
      by (elim exE, intro that [where t = t and b' = "b\<lparr>s_traffic := s_traffic b + ?k\<rparr>" and u' = "u\<lparr>u_balance := u_balance u - ?k\<rparr>"])
        (simp_all add: forwarding_def t_def)
  qed
qed


lemma pending_length: "unat (c_offset ca) + unat (c_datalen ca) \<le> length (c_buff ca) \<Longrightarrow> length (pending ca) = unat (c_datalen ca)"
  by (simp add: pending_def ldn_def)

lemma pending_flushed:
  assumes len: "unat (c_offset ca) + unat (c_datalen ca) \<le> sizeof_buff" "length (c_buff ca) = sizeof_buff"
    and w: "w \<noteq> int (length (pending ca))" "w \<le> int (length (pending ca))"
  shows "pending (flushed ca w) = drop (nat w) (pending ca)"
proof (cases "w > 0")
  case True
  let ?n = "nat w"
  have "length (pending ca) = unat (c_datalen ca)" using len by (intro pending_length) simp
  with True w have n: "w = int ?n" "?n < unat (c_datalen ca)" by linarith+
  have o: "unat (c_offset ca + word_of_int w) = unat (c_offset ca) + ?n"
    using n(2) len unat_add_of_nat [of "c_offset ca" ?n] by (subst n(1), subst of_int_of_nat_eq) simp
  have d: "unat (c_datalen ca - word_of_int w) = unat (c_datalen ca) - ?n"
    using n(2) unat_sub_of_nat [of ?n "c_datalen ca"] by (subst n(1), subst of_int_of_nat_eq) simp
  have "w \<noteq> int (unat (c_datalen ca))" using n by linarith
  with True have "flushed ca w = ca\<lparr>c_offset := c_offset ca + word_of_int w, c_datalen := c_datalen ca - word_of_int w\<rparr>"
    unfolding flushed_def by (simp only: if_False if_True)
  then show ?thesis
    unfolding pending_def by (simp add: o d) (simp add: ldn_def drop_take add.commute)
next
  case False
  then have "nat w = 0" "flushed ca w = ca"
    using w(1) pending_length [of ca] len by (simp_all add: flushed_def)
  then show ?thesis by simp
qed

text \<open>C18: when the client's socket becomes writable again, the rest of the downloaded data follows in
  order: what the socket takes is the front of what the agent connection holds, and the
  connection then holds the remainder, as long as there is one.\<close>

theorem download_continued:
  assumes "forwarding s p c a ca b u" "map_find (c_sock_fd c) (ConnMap s) = Some p" "c_status c \<noteq> sta_inprogress"
    and "c_datalen ca \<noteq> 0" "unat (c_offset ca) + unat (c_datalen ca) \<le> sizeof_buff" "length (c_buff ca) = sizeof_buff"
  shows "\<exists>v t ca'. HandleEPOEvent (c_sock_fd c) s = Inr (v, t)
    \<and> sent (c_sock_fd c) (os_log t) = sent (c_sock_fd c) (os_log s) @ take (nat (send_result s (pending ca))) (pending ca)
    \<and> h_conns t a = Some ca'
    \<and> (send_result s (pending ca) \<noteq> int (length (pending ca)) \<longrightarrow>
        pending ca' = drop (nat (send_result s (pending ca))) (pending ca))"
proof -
  obtain v t b' u' where t: "HandleEPOEvent (c_sock_fd c) s = Inr (v, t)"
    "sent (c_sock_fd c) (os_log t) = sent (c_sock_fd c) (os_log s) @ take (nat (send_result s (pending ca))) (pending ca)"
    "forwarding t p c a (flushed ca (send_result s (pending ca))) b' u'"
    by (rule flush_step [OF assms(1-5)])
  let ?w = "send_result s (pending ca)"
  have "h_conns t a = Some (flushed ca ?w)" using t(3) by (simp only: forwarding_def)
  moreover have "pending (flushed ca ?w) = drop (nat ?w) (pending ca)" if "?w \<noteq> int (length (pending ca))"
    by (rule pending_flushed [OF assms(5,6) that send_result_bounds(2)])
  ultimately show ?thesis
    using t(1,2) by (intro exI [of _ v] exI [of _ t] exI [of _ "flushed ca ?w"] conjI impI)
qed

text \<open>C24: after the last of the held data has been written, \<^verbatim>\<open>datalen\<close> is left as it was: the next
  writable event of the client's socket sends bytes from the start of the buffer once more, which
  the client has already got, so the stream it sees is corrupted.\<close>

theorem download_repeated:
  assumes f: "forwarding s p c a ca b u" and p: "map_find (c_sock_fd c) (ConnMap s) = Some p" "c_status c \<noteq> sta_inprogress"
    and ca: "c_datalen ca \<noteq> 0" "unat (c_offset ca) + unat (c_datalen ca) \<le> sizeof_buff" "length (c_buff ca) = sizeof_buff"
    and all: "send_result s (pending ca) = int (length (pending ca))"
  defines "again \<equiv> take (unat (c_datalen ca)) (c_buff ca)"
  shows "\<exists>v t v' t'. HandleEPOEvent (c_sock_fd c) s = Inr (v, t) \<and> HandleEPOEvent (c_sock_fd c) t = Inr (v', t')
    \<and> sent (c_sock_fd c) (os_log t') = sent (c_sock_fd c) (os_log s) @ pending ca @ take (nat (send_result t again)) again"
proof -
  let ?ca = "flushed ca (send_result s (pending ca))"
  have flushed: "c_datalen ?ca = c_datalen ca" "c_offset ?ca = 0" "c_buff ?ca = c_buff ca"
    using all pending_length [of ca] ca by (simp_all add: flushed_def)
  then have again: "pending ?ca = again" by (simp add: pending_def again_def ldn_def)
  obtain v t b' u' where t: "HandleEPOEvent (c_sock_fd c) s = Inr (v, t)"
    "sent (c_sock_fd c) (os_log t) = sent (c_sock_fd c) (os_log s) @ take (nat (send_result s (pending ca))) (pending ca)"
    "forwarding t p c a ?ca b' u'" "ConnMap t = ConnMap s"
    by (rule flush_step [OF f p ca(1,2)])
  have find: "map_find (c_sock_fd c) (ConnMap t) = Some p" using p t(4) by simp
  have "c_datalen ?ca \<noteq> 0" "unat (c_offset ?ca) + unat (c_datalen ?ca) \<le> sizeof_buff"
    using ca flushed by simp_all
  then obtain v' t' where "HandleEPOEvent (c_sock_fd c) t = Inr (v', t')"
    "sent (c_sock_fd c) (os_log t') = sent (c_sock_fd c) (os_log t) @ take (nat (send_result t (pending ?ca))) (pending ?ca)"
    by (rule flush_step [OF t(3) find p(2)])
  with t(1,2) all again show ?thesis
    by (intro exI [of _ v] exI [of _ t] exI [of _ v'] exI [of _ t'] conjI) simp_all
qed


text \<open>C26: \<^verbatim>\<open>BEGIN_TRANSMIT\<close> switches a tunnel to forwarding although neither the connection nor its
  stream is authenticated: the handler compares the forward id only, and the id is sent to the
  client as soon as the web server is connected.\<close>

theorem begin_without_login:
  assumes "h_conns s p = Some c" "p \<noteq> 0" "4 \<le> n" "msg_id (c_buff c) = BEGIN_TRANSMIT"
    and "c_scb c \<noteq> 0" "h_scbs s (c_scb c) = Some b" "s_agent_conn b \<noteq> 0"
    and "s_forward_id b = ucast (bt_forward_id (dec_BeginTransmit (c_buff c)))"
    and "\<not> authed s (Conn p)" "\<not> authed s (Stream (c_scb c))"
  shows "\<exists>t c'. HandleRecvMsg p n s = Inr (0, t) \<and> h_conns t p = Some c' \<and> c_cstate c' = s_forward
    \<and> \<not> authed t (Conn p) \<and> \<not> authed t (Stream (c_scb c))"
  using assms by (auto simp: HandleRecvMsg_def handle_begin_def Let_def word_less_nat_alt word_le_nat_alt)

text \<open>The stream of the example process in forwarding mode, with an operating system that answers
  \<open>r\<close> to every call.\<close>

definition demo_tunnel :: Connect where
  "demo_tunnel = (demo_conn 5 t_tunnel)\<lparr>c_user := 4, c_scb := 3, c_mobile := 100, c_app := 1, c_cstate := s_forward\<rparr>"

definition demo_agent :: "u16 \<Rightarrow> u16 \<Rightarrow> bytes \<Rightarrow> Connect" where
  "demo_agent off n m = (demo_conn 6 t_agent)\<lparr>c_user := 4, c_scb := 3, c_cstate := s_forward, c_stillneedtoread := 8192,
     c_offset := off, c_datalen := n, c_buff := m @ replicate (sizeof_buff - length m) 0\<rparr>"

definition demo_scb :: SCB where
  "demo_scb = (SCB_init 1)\<lparr>s_user := 4, s_tunnel_conn := 1, s_tunn_fd := 5, s_agent_conn := 2, s_agent_fd := 6\<rparr>"

definition demo_user :: User where
  "demo_user = User_init\<lparr>u_mobile := 100, u_app := 1, u_scb_tree := [(1, 3)]\<rparr>"

definition demo_fwd :: "int \<Rightarrow> Connect \<Rightarrow> tms" where
  "demo_fwd r ca = demo\<lparr>os_ret := \<lambda>_. r, h_conns := (h_conns demo)(1 \<mapsto> demo_tunnel, 2 \<mapsto> ca)\<rparr>"

lemma demo_fwd_forwarding: "forwarding (demo_fwd r (demo_agent off n m)) 1 demo_tunnel 2 (demo_agent off n m) demo_scb demo_user"
  by (simp add: forwarding_def demo_fwd_def demo_tunnel_def demo_agent_def demo_scb_def demo_user_def)
    (simp add: demo_def)

lemma demo_fwd_simps [simp]:
  "send_result (demo_fwd r ca) d = max (- 1) (min (int (length d)) r)" "os_log (demo_fwd r ca) = []"
  "ConnMap (demo_fwd r ca) = [(5, 1), (6, 2), (7, 5), (8, 6), (9, 7)]"
  "c_sock_fd demo_tunnel = 5" "c_sock_fd (demo_agent off n m) = 6" "c_scb demo_tunnel = 3" "c_status demo_tunnel = sta_online"
  "\<not> refused (demo_fwd r ca) demo_scb demo_user k"
  by (simp_all add: demo_fwd_def send_result_def demo_tunnel_def demo_agent_def refused_def demo_scb_def SCB_init_def)
    (simp_all add: demo_def demo_conn_def tms_start_def os_quiet_def os.defs)

theorem upload_forwarded_witness:
  "\<exists>t. stream_step 1 [1, 2, 3] (demo_fwd 2 (demo_agent 0 0 [])) = Inr (None, t) \<and> os_log t = [Send 6 [1, 2, 3] 2]
     \<and> sent 6 (os_log t) = [1, 2] \<and> h_conns t 2 = Some (demo_agent 0 0 [])"
  using upload_forwarded [OF demo_fwd_forwarding [of 2 0 0 "[]"], of "[1, 2, 3]"]
  by (auto simp: sent_def) (simp add: demo_fwd_def)

theorem download_forwarded_witness:
  "\<exists>r t ca'. stream_step 2 [1, 2, 3] (demo_fwd 2 (demo_agent 0 0 [])) = Inr (r, t) \<and> sent 5 (os_log t) = [1, 2]
     \<and> h_conns t 2 = Some ca' \<and> pending ca' = [3]"
  using download_forwarded [OF demo_fwd_forwarding [of 2 0 0 "[]"], of "[1, 2, 3]"]
  by (auto simp: demo_agent_def sent_def)

theorem download_continued_witness:
  "\<exists>v t ca'. HandleEPOEvent 5 (demo_fwd 1 (demo_agent 1 2 [1, 2, 3])) = Inr (v, t) \<and> sent 5 (os_log t) = [2]
     \<and> h_conns t 2 = Some ca' \<and> pending ca' = [3]"
  using download_continued [OF demo_fwd_forwarding [of 1 1 2 "[1, 2, 3]"]]
  by (auto simp: demo_agent_def pending_def ldn_def sent_def map_find_def)

theorem download_repeated_witness:
  "\<exists>v t v' t'. HandleEPOEvent 5 (demo_fwd 9 (demo_agent 1 2 [1, 2, 3])) = Inr (v, t) \<and> HandleEPOEvent 5 t = Inr (v', t')
     \<and> sent 5 (os_log t') = [2, 3] @ take (nat (send_result t [1, 2])) [1, 2]"
  using download_repeated [OF demo_fwd_forwarding [of 9 1 2 "[1, 2, 3]"]]
  by (simp add: demo_agent_def pending_def ldn_def sent_def map_find_def)


theorem begin_without_login_witness:
  "\<exists>t c'. HandleRecvMsg 1 6 (demo_with 1 (\<lambda>c. c\<lparr>c_buff := enc_BeginTransmit \<lparr>bt_forward_id = 0\<rparr> @ replicate 8186 0\<rparr>)) = Inr (0, t)
     \<and> h_conns t 1 = Some c' \<and> c_cstate c' = s_forward \<and> \<not> authed t (Conn 1) \<and> \<not> authed t (Stream 3)"
proof -
  let ?f = "\<lambda>c. c\<lparr>c_buff := enc_BeginTransmit \<lparr>bt_forward_id = 0\<rparr> @ replicate 8186 0\<rparr>"
  have scb: "h_scbs demo 3 = Some demo_scb" by (simp add: demo_def demo_scb_def)
  have "\<exists>t c'. HandleRecvMsg 1 6 (demo_with 1 ?f) = Inr (0, t) \<and> h_conns t 1 = Some c' \<and> c_cstate c' = s_forward
    \<and> \<not> authed t (Conn 1) \<and> \<not> authed t (Stream (c_scb (?f (the (h_conns demo 1)))))"
    by (rule begin_without_login [where b = demo_scb])
      (simp_all add: demo_with_def scb, simp_all add: demo_scb_def SCB_init_def enc_BeginTransmit_def msg_id_def ld_defs)
  then show ?thesis by simp
qed

end
