(* ===== verification/Md5.thy ===== *)
theory Md5
  imports Prelude
begin

text \<open>
  The MD5 class of the SDK (\<^verbatim>\<open>md5.cpp\<close>), which signs the order and token requests:
  the 64-step compression function as the source's unrolled call table, the streaming
  \<^verbatim>\<open>update\<close> with its 64-byte buffer, 32-bit indices and 64-bit bit counter, and \<^verbatim>\<open>finalize\<close>.
  Reading behind the input is a fault. The lemmas refine the streaming object to the one-shot
  padding and compression of RFC 1321.
\<close>

subsection \<open>Basic functions\<close>

definition rotate_left :: "u32 \<Rightarrow> nat \<Rightarrow> u32" where
  "rotate_left x n = push_bit n x OR drop_bit (32 - n) x"

definition F :: "u32 \<Rightarrow> u32 \<Rightarrow> u32 \<Rightarrow> u32" where
  "F x y z = (x AND y) OR (NOT x AND z)"

definition G :: "u32 \<Rightarrow> u32 \<Rightarrow> u32 \<Rightarrow> u32" where
  "G x y z = (x AND z) OR (y AND NOT z)"

definition H :: "u32 \<Rightarrow> u32 \<Rightarrow> u32 \<Rightarrow> u32" where
  "H x y z = (x XOR y) XOR z"

definition I :: "u32 \<Rightarrow> u32 \<Rightarrow> u32 \<Rightarrow> u32" where
  "I x y z = y XOR (x OR NOT z)"

datatype round_fun = FF | GG | HH | II

text \<open>The four round functions assign to their first argument \<open>a\<close>.\<close>

fun round_val :: "round_fun \<Rightarrow> u32 \<Rightarrow> u32 \<Rightarrow> u32 \<Rightarrow> u32 \<Rightarrow> u32 \<Rightarrow> nat \<Rightarrow> u32 \<Rightarrow> u32" where
  "round_val FF a b c d x s ac = rotate_left (a + (F b c d + x + ac)) s + b"
| "round_val GG a b c d x s ac = rotate_left (a + (G b c d + x + ac)) s + b"
| "round_val HH a b c d x s ac = rotate_left (a + (H b c d + x + ac)) s + b"
| "round_val II a b c d x s ac = rotate_left (a + (I b c d + x + ac)) s + b"

text \<open>
  The variable that is the first argument of a call, which fixes the order of the other
  three: the calls read \<open>(a, b, c, d)\<close>, \<open>(d, a, b, c)\<close>, \<open>(c, d, a, b)\<close> and
  \<open>(b, c, d, a)\<close>.
\<close>

datatype role = RA | RD | RC | RB

type_synonym md5_state = "u32 \<times> u32 \<times> u32 \<times> u32"
type_synonym md5_call = "round_fun \<times> role \<times> nat \<times> nat \<times> u32"

fun md5_step :: "u32 list \<Rightarrow> md5_state \<Rightarrow> md5_call \<Rightarrow> md5_state" where
  "md5_step x (a, b, c, d) (f, RA, k, s, ac) = (round_val f a b c d (x ! k) s ac, b, c, d)"
| "md5_step x (a, b, c, d) (f, RD, k, s, ac) = (a, b, c, round_val f d a b c (x ! k) s ac)"
| "md5_step x (a, b, c, d) (f, RC, k, s, ac) = (a, b, round_val f c d a b (x ! k) s ac, d)"
| "md5_step x (a, b, c, d) (f, RB, k, s, ac) = (a, round_val f b c d a (x ! k) s ac, c, d)"

abbreviation (input) S11 :: nat where "S11 \<equiv> 7"
abbreviation (input) S12 :: nat where "S12 \<equiv> 12"
abbreviation (input) S13 :: nat where "S13 \<equiv> 17"
abbreviation (input) S14 :: nat where "S14 \<equiv> 22"
abbreviation (input) S21 :: nat where "S21 \<equiv> 5"
abbreviation (input) S22 :: nat where "S22 \<equiv> 9"
abbreviation (input) S23 :: nat where "S23 \<equiv> 14"
abbreviation (input) S24 :: nat where "S24 \<equiv> 20"
abbreviation (input) S31 :: nat where "S31 \<equiv> 4"
abbreviation (input) S32 :: nat where "S32 \<equiv> 11"
abbreviation (input) S33 :: nat where "S33 \<equiv> 16"
abbreviation (input) S34 :: nat where "S34 \<equiv> 23"
abbreviation (input) S41 :: nat where "S41 \<equiv> 6"
abbreviation (input) S42 :: nat where "S42 \<equiv> 10"
abbreviation (input) S43 :: nat where "S43 \<equiv> 15"
abbreviation (input) S44 :: nat where "S44 \<equiv> 21"

text \<open>The 64 calls of \<^verbatim>\<open>MD5::transform\<close>: function, first variable, message word, shift, constant.\<close>

definition transform_calls :: "md5_call list" where
  "transform_calls = [
     (FF, RA, 0, S11, 0xd76aa478),
     (FF, RD, 1, S12, 0xe8c7b756),
     (FF, RC, 2, S13, 0x242070db),
     (FF, RB, 3, S14, 0xc1bdceee),
     (FF, RA, 4, S11, 0xf57c0faf),
     (FF, RD, 5, S12, 0x4787c62a),
     (FF, RC, 6, S13, 0xa8304613),
     (FF, RB, 7, S14, 0xfd469501),
     (FF, RA, 8, S11, 0x698098d8),
     (FF, RD, 9, S12, 0x8b44f7af),
     (FF, RC, 10, S13, 0xffff5bb1),
     (FF, RB, 11, S14, 0x895cd7be),
     (FF, RA, 12, S11, 0x6b901122),
     (FF, RD, 13, S12, 0xfd987193),
     (FF, RC, 14, S13, 0xa679438e),
     (FF, RB, 15, S14, 0x49b40821),
     (GG, RA, 1, S21, 0xf61e2562),
     (GG, RD, 6, S22, 0xc040b340),
     (GG, RC, 11, S23, 0x265e5a51),
     (GG, RB, 0, S24, 0xe9b6c7aa),
     (GG, RA, 5, S21, 0xd62f105d),
     (GG, RD, 10, S22, 0x2441453),
     (GG, RC, 15, S23, 0xd8a1e681),
     (GG, RB, 4, S24, 0xe7d3fbc8),
     (GG, RA, 9, S21, 0x21e1cde6),
     (GG, RD, 14, S22, 0xc33707d6),
     (GG, RC, 3, S23, 0xf4d50d87),
     (GG, RB, 8, S24, 0x455a14ed),
     (GG, RA, 13, S21, 0xa9e3e905),
     (GG, RD, 2, S22, 0xfcefa3f8),
     (GG, RC, 7, S23, 0x676f02d9),
     (GG, RB, 12, S24, 0x8d2a4c8a),
     (HH, RA, 5, S31, 0xfffa3942),
     (HH, RD, 8, S32, 0x8771f681),
     (HH, RC, 11, S33, 0x6d9d6122),
     (HH, RB, 14, S34, 0xfde5380c),
     (HH, RA, 1, S31, 0xa4beea44),
     (HH, RD, 4, S32, 0x4bdecfa9),
     (HH, RC, 7, S33, 0xf6bb4b60),
     (HH, RB, 10, S34, 0xbebfbc70),
     (HH, RA, 13, S31, 0x289b7ec6),
     (HH, RD, 0, S32, 0xeaa127fa),
     (HH, RC, 3, S33, 0xd4ef3085),
     (HH, RB, 6, S34, 0x4881d05),
     (HH, RA, 9, S31, 0xd9d4d039),
     (HH, RD, 12, S32, 0xe6db99e5),
     (HH, RC, 15, S33, 0x1fa27cf8),
     (HH, RB, 2, S34, 0xc4ac5665),
     (II, RA, 0, S41, 0xf4292244),
     (II, RD, 7, S42, 0x432aff97),
     (II, RC, 14, S43, 0xab9423a7),
     (II, RB, 5, S44, 0xfc93a039),
     (II, RA, 12, S41, 0x655b59c3),
     (II, RD, 3, S42, 0x8f0ccc92),
     (II, RC, 10, S43, 0xffeff47d),
     (II, RB, 1, S44, 0x85845dd1),
     (II, RA, 8, S41, 0x6fa87e4f),
     (II, RD, 15, S42, 0xfe2ce6e0),
     (II, RC, 6, S43, 0xa3014314),
     (II, RB, 13, S44, 0x4e0811a1),
     (II, RA, 4, S41, 0xf7537e82),
     (II, RD, 11, S42, 0xbd3af235),
     (II, RC, 2, S43, 0x2ad7d2bb),
     (II, RB, 9, S44, 0xeb86d391)
]"

subsection \<open>Words and bytes\<close>

definition encode1 :: "u32 \<Rightarrow> bytes" where
  "encode1 w = [ucast (w AND 0xff), ucast (drop_bit 8 w AND 0xff),
     ucast (drop_bit 16 w AND 0xff), ucast (drop_bit 24 w AND 0xff)]"

fun encode :: "u32 list \<Rightarrow> bytes" where
  "encode [] = []"
| "encode (w # ws) = encode1 w @ encode ws"

definition decode1 :: "u8 \<Rightarrow> u8 \<Rightarrow> u8 \<Rightarrow> u8 \<Rightarrow> u32" where
  "decode1 b0 b1 b2 b3 = ((ucast b0 OR push_bit 8 (ucast b1)) OR push_bit 16 (ucast b2)) OR push_bit 24 (ucast b3)"

fun decode :: "bytes \<Rightarrow> u32 list" where
  "decode (b0 # b1 # b2 # b3 # bs) = decode1 b0 b1 b2 b3 # decode bs"
| "decode _ = []"

definition transform :: "md5_state \<Rightarrow> bytes \<Rightarrow> md5_state" where
  "transform st block =
     (let x = decode block;
          (a, b, c, d) = foldl (md5_step x) st transform_calls;
          (s0, s1, s2, s3) = st
      in (s0 + a, s1 + b, s2 + c, s3 + d))"

subsection \<open>The object\<close>

record md5 =
  md_state :: md5_state
  md_count0 :: u32
  md_count1 :: u32
  md_buffer :: bytes
  md_digest :: bytes
  md_finalized :: bool

definition md5_iv :: md5_state where
  "md5_iv = (0x67452301, 0xefcdab89, 0x98badcfe, 0x10325476)"

text \<open>The constructor leaves \<^verbatim>\<open>buffer\<close> and \<^verbatim>\<open>digest\<close> as they are in memory.\<close>

definition init :: "bytes \<Rightarrow> bytes \<Rightarrow> md5" where
  "init buf dig = \<lparr>md_state = md5_iv, md_count0 = 0, md_count1 = 0, md_buffer = buf,
     md_digest = dig, md_finalized = False\<rparr>"

text \<open>The loop of \<^verbatim>\<open>update\<close> over the whole blocks of the input; it ends with the input index. The index is a
  \<^verbatim>\<open>uint4\<close>, so the sum in the condition wraps; reading a block behind the \<open>n\<close> bytes of the input is a fault.\<close>

lemma unat_plus_64: "unat i + 64 \<le> unat n \<Longrightarrow> unat (i + 64) = unat i + 64" for i n :: u32
  using unsigned_less [of n, where ?'a = nat] by (simp add: unat_word_ariths(1))

function transform_loop :: "md5_state \<Rightarrow> bytes \<Rightarrow> u32 \<Rightarrow> u32 \<Rightarrow> fault + (md5_state \<times> u32)" where
  "transform_loop st input n i =
     (if i + 63 < n
      then if unat i + 64 \<le> unat n
           then transform_loop (transform st (take 64 (drop (unat i) input))) input n (i + 64)
           else Inl OutOfBounds
      else Inr (st, i))"
  by pat_completeness auto
termination
  by (relation "measure (\<lambda>(st, input, n, i). unat n - unat i)") (auto simp: unat_plus_64)

declare transform_loop.simps [simp del]

definition update :: "md5 \<Rightarrow> bytes \<Rightarrow> fault + md5" where
  "update m input =
     (if md_finalized m then Inr m
      else
        let input_length = word_of_nat (length input) :: u32;
            buffer_index = drop_bit 3 (md_count0 m) AND 0x3F;
            shl = push_bit 3 input_length;
            count0 = md_count0 m + shl;
            count1 = (if count0 < shl then md_count1 m + 1 else md_count1 m) + drop_bit 29 input_length;
            buffer_space = 64 - buffer_index;
            copied = blit (md_buffer m) (unat buffer_index) (take (unat buffer_space) input)
        in case (if buffer_space \<le> input_length
                 then (case transform_loop (transform (md_state m) copied) input input_length buffer_space of
                         Inl f \<Rightarrow> Inl f
                       | Inr (st, i) \<Rightarrow> Inr (st, copied, 0, i))
                 else Inr (md_state m, md_buffer m, buffer_index, 0)) of
             Inl f \<Rightarrow> Inl f
           | Inr (st, buf, buffer_index, input_index) \<Rightarrow>
               Inr (m\<lparr>md_state := st, md_count0 := count0, md_count1 := count1,
                 md_buffer := blit buf (unat buffer_index)
                   (take (unat (input_length - input_index)) (drop (unat input_index) input))\<rparr>))"

definition PADDING :: bytes where
  "PADDING = 0x80 # replicate 63 0"

definition md_words :: "md5_state \<Rightarrow> u32 list" where
  "md_words st = (case st of (a, b, c, d) \<Rightarrow> [a, b, c, d])"

text \<open>\<^verbatim>\<open>memset(buffer, 0, sizeof( *buffer))\<close> clears one byte: \<^verbatim>\<open>*buffer\<close> is a \<^verbatim>\<open>uint1\<close>.\<close>

definition finalize :: "md5 \<Rightarrow> fault + md5" where
  "finalize m =
     (if md_finalized m then Inr m
      else
        let bits = encode [md_count0 m, md_count1 m];
            index = unat (drop_bit 3 (md_count0 m) AND 0x3f);
            padLen = (if index < 56 then 56 - index else 120 - index)
        in case update m (take padLen PADDING) of Inl f \<Rightarrow> Inl f
           | Inr m \<Rightarrow>
               (case update m bits of Inl f \<Rightarrow> Inl f
                | Inr m \<Rightarrow>
                    Inr (m\<lparr>md_digest := encode (md_words (md_state m)), md_buffer := (md_buffer m)[0 := 0],
                      md_finalized := True\<rparr>)))"

definition raw_digest :: "md5 \<Rightarrow> bytes" where
  "raw_digest m = take 16 (md_digest m)"

subsection \<open>Reference: one-shot MD5\<close>

function md5_compress :: "md5_state \<Rightarrow> bytes \<Rightarrow> md5_state" where
  "md5_compress st bs =
     (if length bs < 64 then st else md5_compress (transform st (take 64 bs)) (drop 64 bs))"
  by pat_completeness auto
termination
  by (relation "measure (\<lambda>(st, bs). length bs)") auto

declare md5_compress.simps [simp del]

text \<open>A one bit, zeros up to 56 modulo 64, and the message length in bits as 64 bits.\<close>

definition md5_pad :: "bytes \<Rightarrow> bytes" where
  "md5_pad msg = msg @ 0x80 # replicate ((119 - length msg mod 64) mod 64) 0 @ to_le 8 (8 * length msg)"

definition md5_spec :: "bytes \<Rightarrow> bytes" where
  "md5_spec msg = encode (md_words (md5_compress md5_iv (md5_pad msg)))"

subsection \<open>Words and bytes agree with the memory layout\<close>

lemma word_of_nat_mod8: "(word_of_nat (n mod 256) :: u8) = word_of_nat n"
  by (rule word_unat_eq_iff [THEN iffD2]) (simp add: unat_of_nat)

lemma ucast_and_ff: "(ucast ((w :: u32) AND 0xff) :: u8) = word_of_nat (unat w)"
proof (rule bit_word_eqI)
  fix n
  assume "n < LENGTH(8)"
  then have n: "n < 8" by simp
  then have "bit (0xff :: u32) n"
    by (auto simp: less_Suc_eq numeral_eq_Suc)
  moreover have "(word_of_nat (unat w) :: u8) = ucast w"
    by simp
  ultimately show "bit (ucast (w AND 0xff) :: u8) n = bit (word_of_nat (unat w) :: u8) n"
    using n by (simp add: bit_simps)
qed

lemma to_le_4:
  "to_le 4 x = [word_of_nat x, word_of_nat (x div 256), word_of_nat (x div 65536), word_of_nat (x div 16777216)]"
proof -
  have "to_le 4 x = to_le (Suc (Suc (Suc (Suc 0)))) x"
    by (rule arg_cong [where f = "\<lambda>n. to_le n x"]) simp
  then show ?thesis
    by (simp only: to_le.simps word_of_nat_mod8 div_mult2_eq [symmetric]) simp
qed

lemma encode1_to_le: "encode1 w = to_le 4 (unat w)"
  by (simp add: encode1_def ucast_and_ff to_le_4 unat_drop_bit_eq drop_bit_eq_div unat_div_distrib del: of_nat_unat)

lemma to_le_append: "to_le (m + n) x = to_le m x @ to_le n (x div 256 ^ m)"
  by (induction m arbitrary: x) (auto simp: div_mult2_eq)

lemma decode1_encode1: "decode1 (ucast (w AND 0xff)) (ucast (drop_bit 8 w AND 0xff))
     (ucast (drop_bit 16 w AND 0xff)) (ucast (drop_bit 24 w AND 0xff)) = w"
proof (rule bit_word_eqI)
  have mask: "(0xff :: u32) = mask 8" by (simp add: mask_eq_exp_minus_1)
  fix n assume "n < LENGTH(32)"
  then have "n < 32" by simp
  then consider "n < 8" | "8 \<le> n" "n < 16" | "16 \<le> n" "n < 24" | "24 \<le> n" "n < 32" by linarith
  then show "bit (decode1 (ucast (w AND 0xff)) (ucast (drop_bit 8 w AND 0xff))
     (ucast (drop_bit 16 w AND 0xff)) (ucast (drop_bit 24 w AND 0xff))) n = bit w n"
    by cases (auto simp: decode1_def mask bit_simps)
qed

lemma decode_encode: "decode (encode ws) = ws"
  by (induction ws) (simp_all add: encode1_def decode1_encode1)

lemma encode1_decode1: "encode1 (decode1 b0 b1 b2 b3) = [b0, b1, b2, b3]"
proof -
  have mask: "(0xff :: u32) = mask 8" by (simp add: mask_eq_exp_minus_1)
  have "bit (ucast (decode1 b0 b1 b2 b3 AND 0xff) :: u8) n = bit b0 n" if "n < 8" for n
    using that by (auto simp: decode1_def mask bit_simps)
  moreover have "bit (ucast (drop_bit 8 (decode1 b0 b1 b2 b3) AND 0xff) :: u8) n = bit b1 n" if "n < 8" for n
    using that by (auto simp: decode1_def mask bit_simps dest: bit_imp_le_length)
  moreover have "bit (ucast (drop_bit 16 (decode1 b0 b1 b2 b3) AND 0xff) :: u8) n = bit b2 n" if "n < 8" for n
    using that by (auto simp: decode1_def mask bit_simps dest: bit_imp_le_length)
  moreover have "bit (ucast (drop_bit 24 (decode1 b0 b1 b2 b3) AND 0xff) :: u8) n = bit b3 n" if "n < 8" for n
    using that by (auto simp: decode1_def mask bit_simps dest: bit_imp_le_length)
  ultimately show ?thesis
    by (auto simp: encode1_def intro!: bit_word_eqI)
qed

lemma encode_decode: "4 dvd length bs \<Longrightarrow> encode (decode bs) = bs"
proof (induction bs rule: decode.induct)
  case (1 b0 b1 b2 b3 bs)
  then have "4 dvd length bs"
    by (simp add: dvd_def) presburger
  with 1 show ?case
    by (simp add: encode1_decode1)
qed (simp_all, presburger+)

lemma length_encode: "length (encode ws) = 4 * length ws"
  by (induction ws) (simp_all add: encode1_def)

lemma length_raw_digest: "length (encode (md_words st)) = 16"
  by (cases st) (simp add: md_words_def encode1_def)

subsection \<open>Compression of whole blocks\<close>

lemma md5_compress_append:
  "64 dvd length as \<Longrightarrow> md5_compress st (as @ bs) = md5_compress (md5_compress st as) bs"
proof (induction st as rule: md5_compress.induct)
  case (1 st as)
  show ?case
  proof (cases "length as < 64")
    case True
    with "1.prems" have "as = []"
      by (auto dest: dvd_imp_le)
    then show ?thesis by (simp add: md5_compress.simps [of st "[]"])
  next
    case False
    with "1.prems" have "64 dvd length (drop 64 as)" by simp
    from "1.IH" [OF False this] False show ?thesis
      by (simp add: md5_compress.simps [of st "as @ bs"] md5_compress.simps [of st as])
  qed
qed

lemma md5_compress_short: "length bs < 64 \<Longrightarrow> md5_compress st bs = st"
  by (simp add: md5_compress.simps)

lemma md5_compress_whole:
  "md5_compress st bs = md5_compress st (take (64 * (length bs div 64)) bs)"
proof -
  let ?k = "64 * (length bs div 64)"
  have k: "?k \<le> length bs" by simp
  have "md5_compress st bs = md5_compress (md5_compress st (take ?k bs)) (drop ?k bs)"
    using k by (subst md5_compress_append [symmetric]) simp_all
  also have "\<dots> = md5_compress st (take ?k bs)"
    using minus_mult_div_eq_mod [of "length bs" 64] by (intro md5_compress_short) simp
  finally show ?thesis .
qed

text \<open>With 64 bytes between the length and \<open>2^32\<close> the index does not wrap.\<close>

lemma index_fits:
  fixes i n :: u32
  assumes "unat i \<le> unat n" "unat n + 64 \<le> 2 ^ 32"
  shows "i + 63 < n \<longleftrightarrow> unat i + 63 < unat n"
  using assms by (simp add: word_less_nat_alt unat_word_ariths(1))

lemma transform_loop_eq:
  "unat i \<le> unat n \<Longrightarrow> length input = unat n \<Longrightarrow> unat n + 64 \<le> 2 ^ 32 \<Longrightarrow>
   \<exists>j. transform_loop st input n i = Inr (md5_compress st (drop (unat i) input), j)
     \<and> unat j = unat i + 64 * ((unat n - unat i) div 64)"
proof (induction st input n i rule: transform_loop.induct)
  case (1 st input n i)
  note fits = index_fits [OF "1.prems"(1,3)]
  show ?case
  proof (cases "unat i + 63 < unat n")
    case True
    then have i: "i + 63 < n" "unat i + 64 \<le> unat n"
      using fits by simp_all
    note i = i unat_plus_64 [OF i(2)]
    have "(unat n - unat i) div 64 = Suc ((unat n - (unat i + 64)) div 64)"
      using True by (subst le_div_geq) simp_all
    moreover have "\<not> length (drop (unat i) input) < 64"
      using True "1.prems"(2) by simp
    then have "md5_compress st (drop (unat i) input)
        = md5_compress (transform st (take 64 (drop (unat i) input))) (drop (unat i + 64) input)"
      by (simp add: md5_compress.simps [of st "drop (unat i) input"] ac_simps del: length_drop)
    ultimately show ?thesis
      using "1.IH" [OF i(1,2)] "1.prems" i by (auto simp: transform_loop.simps [of st input n i])
  next
    case False
    with "1.prems" fits show ?thesis
      by (simp add: transform_loop.simps [of st input n i] md5_compress_short)
  qed
qed

subsection \<open>Refinement of the streaming object\<close>

text \<open>
  \<open>md5_repr m msg\<close>: the object has absorbed the message \<open>msg\<close>, that is its state is the
  compression of the whole blocks, its buffer starts with the rest, and its counters hold
  the length in bits modulo \<open>2^64\<close>.
\<close>

definition md5_repr :: "md5 \<Rightarrow> bytes \<Rightarrow> bool" where
  "md5_repr m msg \<longleftrightarrow>
     \<not> md_finalized m \<and> length (md_buffer m) = 64 \<and>
     md_state m = md5_compress md5_iv msg \<and>
     take (length msg mod 64) (md_buffer m) = drop (64 * (length msg div 64)) msg \<and>
     md_count0 m = word_of_nat (8 * length msg) \<and>
     md_count1 m = word_of_nat (8 * length msg div 2 ^ 32)"

lemma buffer_index_eq: "unat (drop_bit 3 (word_of_nat (8 * n) :: u32) AND 0x3F) = n mod 64"
proof -
  have "drop_bit 3 w AND 0x3F = w div 8 mod 64" for w :: u32
    using take_bit_eq_mask [of 6 "drop_bit 3 w"]
    by (simp add: take_bit_eq_mod drop_bit_eq_div mask_eq_exp_minus_1)
  then have "unat (drop_bit 3 (word_of_nat (8 * n) :: u32) AND 0x3F)
      = unat (word_of_nat (8 * n) div 8 mod 64 :: u32)"
    by (simp only:)
  also have "\<dots> = (8 * n mod 2 ^ 32) div 8 mod 64"
    by (simp only: unat_div_distrib unat_mod_distrib unat_of_nat) simp
  also have "8 * n mod 2 ^ 32 = 8 * (n mod 2 ^ 29)"
    using mult_mod_right [of 8 n "2 ^ 29"] by simp
  also have "8 * (n mod 2 ^ 29) div 8 mod 64 = n mod 64"
    by (simp add: mod_mod_cancel)
  finally show ?thesis .
qed

lemma mod_carry:
  fixes A B M :: nat
  assumes "A < M" and "B < M"
  shows "(A + B) mod M < B \<longleftrightarrow> M \<le> A + B" and "(A + B) div M = (if M \<le> A + B then 1 else 0)"
proof -
  have "(A + B) mod M = A + B - M \<and> (A + B) div M = 1" if "M \<le> A + B"
    using that assms le_mod_geq [OF that] le_div_geq [of M "A + B"] by simp
  then show "(A + B) mod M < B \<longleftrightarrow> M \<le> A + B" and "(A + B) div M = (if M \<le> A + B then 1 else 0)"
    using assms by (cases "M \<le> A + B"; simp)+
qed

lemma count_step:
  fixes L n :: nat
  assumes "n < 2 ^ 32"
  defines "c \<equiv> word_of_nat (8 * L) :: u32" and "il \<equiv> word_of_nat n :: u32"
  shows "c + push_bit 3 il = word_of_nat (8 * (L + n))"
    and "(if c + push_bit 3 il < push_bit 3 il then word_of_nat (8 * L div 2 ^ 32) + 1
          else word_of_nat (8 * L div 2 ^ 32)) + drop_bit 29 il
         = (word_of_nat (8 * (L + n) div 2 ^ 32) :: u32)"
proof -
  have shl: "push_bit 3 il = word_of_nat (8 * n)"
    by (simp add: il_def push_bit_eq_mult)
  show "c + push_bit 3 il = word_of_nat (8 * (L + n))"
    unfolding shl c_def by (simp add: algebra_simps)
  let ?A = "8 * L mod 2 ^ 32" and ?B = "8 * n mod 2 ^ 32"
  have carry: "c + push_bit 3 il < push_bit 3 il \<longleftrightarrow> 2 ^ 32 \<le> ?A + ?B"
  proof -
    have "unat (c + push_bit 3 il) = (?A + ?B) mod 2 ^ 32"
      unfolding shl c_def by (simp add: unat_word_ariths unat_of_nat mod_mult_right_eq)
    moreover have "unat (push_bit 3 il) = ?B"
      unfolding shl by (simp add: unat_word_ariths unat_of_nat mod_mult_right_eq)
    moreover have "?A < 2 ^ 32" and "?B < 2 ^ 32"
      by simp_all
    ultimately show ?thesis
      by (simp only: word_less_nat_alt mod_carry(1))
  qed
  have high: "drop_bit 29 il = word_of_nat (8 * n div 2 ^ 32)"
  proof -
    have "unat (drop_bit 29 il) = n div 2 ^ 29"
      using assms(1) by (simp add: il_def drop_bit_eq_div unat_div_distrib unat_of_nat)
    also have "\<dots> = 8 * n div 2 ^ 32"
      using div_mult_mult1 [of 8 n "2 ^ 29"] by simp
    finally have e: "unat (drop_bit 29 il) = 8 * n div 2 ^ 32" .
    show ?thesis
      by (simp only: e [symmetric]) simp
  qed
  have "8 * (L + n) div 2 ^ 32 = 8 * L div 2 ^ 32 + 8 * n div 2 ^ 32 + (?A + ?B) div 2 ^ 32"
    using div_add1_eq [of "8 * L" "8 * n" "2 ^ 32"] by (simp only: distrib_left)
  moreover have "(?A + ?B) div 2 ^ 32 = (if 2 ^ 32 \<le> ?A + ?B then 1 else 0)"
    by (rule mod_carry(2)) simp_all
  ultimately show "(if c + push_bit 3 il < push_bit 3 il then word_of_nat (8 * L div 2 ^ 32) + 1
          else word_of_nat (8 * L div 2 ^ 32)) + drop_bit 29 il
         = (word_of_nat (8 * (L + n) div 2 ^ 32) :: u32)"
    unfolding carry high by (simp only: of_nat_add) simp
qed

lemma md5_repr_init: "length buf = 64 \<Longrightarrow> md5_repr (init buf dig) []"
  by (simp add: md5_repr_def init_def md5_compress_short)

lemma md5_compress_tail:
  "md5_compress st (msg @ bs)
   = md5_compress (md5_compress st msg) (drop (64 * (length msg div 64)) msg @ bs)"
proof -
  let ?k = "64 * (length msg div 64)"
  have "64 dvd length (take ?k msg)"
    by simp
  then have "md5_compress st (take ?k msg @ (drop ?k msg @ bs))
      = md5_compress (md5_compress st (take ?k msg)) (drop ?k msg @ bs)"
    by (rule md5_compress_append)
  with md5_compress_whole [of st msg] show ?thesis
    by (simp add: append_assoc [symmetric] del: append_assoc)
qed

text \<open>Index arithmetic of \<^verbatim>\<open>update\<close>: where the last block boundary lies.\<close>

lemma block_arith:
  fixes L N :: nat
  assumes "64 - L mod 64 \<le> N"
  defines "i \<equiv> (64 - L mod 64) + 64 * ((N - (64 - L mod 64)) div 64)"
  shows "i \<le> N" and "N - i = (L + N) mod 64" and "64 * ((L + N) div 64) = L + i"
proof -
  define q r where "q = L div 64" and "r = L mod 64"
  define M where "M = N - (64 - r)"
  have L: "L = 64 * q + r" and r: "r < 64" and N: "N = M + (64 - r)"
    using assms(1) by (simp_all add: q_def r_def M_def)
  have LN: "L + N = M + 64 * Suc q"
    using L N r by simp
  have i: "i = (64 - r) + 64 * (M div 64)"
    by (simp add: i_def M_def r_def)
  have M: "64 * (M div 64) + M mod 64 = M"
    by simp
  show "i \<le> N"
    using i N by simp
  have "(L + N) mod 64 = M mod 64"
    by (simp only: LN mod_mult_self2)
  moreover have "N - i = M mod 64"
    using i N minus_mult_div_eq_mod [of M 64] by simp
  ultimately show "N - i = (L + N) mod 64"
    by simp
  have "(L + N) div 64 = M div 64 + Suc q"
    by (simp only: LN) simp
  then show "64 * ((L + N) div 64) = L + i"
    using i L r by simp
qed

lemma md5_reprD:
  assumes "md5_repr m msg"
  shows "md_finalized m = False" and "length (md_buffer m) = 64"
    and "md_state m = md5_compress md5_iv msg"
    and "take (length msg mod 64) (md_buffer m) = drop (64 * (length msg div 64)) msg"
    and "unat (drop_bit 3 (md_count0 m) AND 0x3F) = length msg mod 64"
    and "md_count0 m = word_of_nat (8 * length msg)"
    and "md_count1 m = word_of_nat (8 * length msg div 2 ^ 32)"
  using assms buffer_index_eq [of "length msg"] unfolding md5_repr_def by simp_all

lemma length_tail [simp]: "length xs - 64 * (length xs div 64) = length xs mod 64"
  by (rule minus_mult_div_eq_mod)

text \<open>The counters after an update, in the form in which \<^verbatim>\<open>update\<close> computes them.\<close>

lemma md5_repr_count:
  assumes r: "md5_repr m msg" and len: "length inp < 2 ^ 32"
  shows "md_count0 m + push_bit 3 (word_of_nat (length inp)) = word_of_nat (8 * length (msg @ inp))"
    and "(if (word_of_nat (8 * length (msg @ inp)) :: u32) < push_bit 3 (word_of_nat (length inp))
          then md_count1 m + 1 else md_count1 m) + drop_bit 29 (word_of_nat (length inp))
         = word_of_nat (8 * length (msg @ inp) div 2 ^ 32)"
  using count_step [OF len, of "length msg"] md5_reprD(6,7) [OF r] by (simp_all only: length_append)

text \<open>The room in the buffer, as the 32-bit number that \<^verbatim>\<open>update\<close> computes and compares.\<close>

lemma md5_repr_space:
  assumes r: "md5_repr m msg" and len: "length inp < 2 ^ 32"
  shows "unat (64 - (drop_bit 3 (md_count0 m) AND 0x3F)) = 64 - length msg mod 64"
    and "64 - (drop_bit 3 (md_count0 m) AND 0x3F) \<le> (word_of_nat (length inp) :: u32) \<longleftrightarrow> 64 - length msg mod 64 \<le> length inp"
proof -
  let ?b = "drop_bit 3 (md_count0 m) AND 0x3F"
  have "unat ?b \<le> unat (64 :: u32)" using md5_reprD(5) [OF r] by simp
  then have "unat (64 - ?b) = unat (64 :: u32) - unat ?b" by (simp add: unat_sub word_le_nat_alt)
  then show "unat (64 - ?b) = 64 - length msg mod 64" using md5_reprD(5) [OF r] by simp
  then show "64 - ?b \<le> (word_of_nat (length inp) :: u32) \<longleftrightarrow> 64 - length msg mod 64 \<le> length inp"
    using len by (simp add: word_le_nat_alt unat_of_nat)
qed

lemma update_full:
  assumes r: "md5_repr m msg" and len: "length inp + 64 \<le> 2 ^ 32"
    and full: "64 - length msg mod 64 \<le> length inp"
  defines "b \<equiv> drop (64 * (length msg div 64)) msg @ take (64 - length msg mod 64) inp"
    and "i \<equiv> (64 - length msg mod 64) + 64 * ((length inp - (64 - length msg mod 64)) div 64)"
  shows "update m inp = Inr (m\<lparr>md_state := md5_compress md5_iv (msg @ inp),
      md_count0 := word_of_nat (8 * length (msg @ inp)),
      md_count1 := word_of_nat (8 * length (msg @ inp) div 2 ^ 32), md_buffer := blit b 0 (drop i inp)\<rparr>)"
    and "length b = 64"
proof -
  let ?n = "length msg mod 64" and ?tail = "drop (64 * (length msg div 64)) msg"
  let ?space = "64 - ?n" and ?w = "64 - (drop_bit 3 (md_count0 m) AND 0x3F)" and ?N = "word_of_nat (length inp) :: u32"
  note R = md5_reprD [OF r]
  have len': "length inp < 2 ^ 32" using len by simp
  note space = md5_repr_space [OF r len']
  have N: "unat ?N = length inp" using len' by (simp add: unat_of_nat)
  have n: "?n < 64" and tl: "length ?tail = ?n"
    by simp_all
  have lb: "length b = 64" and b: "blit (md_buffer m) ?n (take ?space inp) = b"
    using full n tl R by (simp_all add: blit_def b_def)
  show "length b = 64"
    by (rule lb)
  obtain j where loop: "transform_loop (transform (md_state m) b) inp ?N ?w
      = Inr (md5_compress (transform (md_state m) b) (drop ?space inp), j)" and j: "unat j = i"
    using transform_loop_eq [of ?w ?N inp] full space(1) N len unfolding i_def by metis
  have "i \<le> length inp" using block_arith(1) [OF full] unfolding i_def .
  then have rest: "take (unat (?N - j)) (drop i inp) = drop i inp"
    using N j by (simp add: unat_sub word_le_nat_alt)
  have "md5_compress md5_iv (msg @ inp) = md5_compress (md_state m) (b @ drop ?space inp)"
    using R md5_compress_tail [of md5_iv msg inp] by (simp add: b_def)
  also have "\<dots> = md5_compress (transform (md_state m) b) (drop ?space inp)"
    using lb by (simp add: md5_compress.simps [of "md_state m"])
  finally show "update m inp = Inr (m\<lparr>md_state := md5_compress md5_iv (msg @ inp),
      md_count0 := word_of_nat (8 * length (msg @ inp)),
      md_count1 := word_of_nat (8 * length (msg @ inp) div 2 ^ 32), md_buffer := blit b 0 (drop i inp)\<rparr>)"
    using full
    by (simp only: update_def Let_def R(1,5) md5_repr_count [OF r len'] space b loop rest j unat_0 prod.case sum.case if_True if_False)
qed

lemma update_partial:
  assumes r: "md5_repr m msg" and len: "length inp < 2 ^ 32"
    and part: "\<not> 64 - length msg mod 64 \<le> length inp"
  shows "update m inp = Inr (m\<lparr>md_state := md5_compress md5_iv (msg @ inp),
      md_count0 := word_of_nat (8 * length (msg @ inp)),
      md_count1 := word_of_nat (8 * length (msg @ inp) div 2 ^ 32),
      md_buffer := blit (md_buffer m) (length msg mod 64) inp\<rparr>)"
proof -
  note R = md5_reprD [OF r]
  have "md5_compress md5_iv (msg @ inp) = md_state m"
    using R(3) part md5_compress_tail [of md5_iv msg inp] by (simp add: md5_compress_short)
  moreover have "take (unat (word_of_nat (length inp) - 0 :: u32)) inp = inp" using len by (simp add: unat_of_nat)
  ultimately show ?thesis using part
    by (simp only: update_def Let_def R(1,5) md5_repr_count [OF r len] md5_repr_space [OF r len] unat_0 prod.case sum.case
        if_True if_False drop_0)
qed

lemma md5_repr_update:
  assumes r: "md5_repr m msg" and len: "length inp + 64 \<le> 2 ^ 32"
  obtains m' where "update m inp = Inr m'" "md5_repr m' (msg @ inp)"
proof (cases "64 - length msg mod 64 \<le> length inp")
  case True
  note u = update_full [OF r len True] and ba = block_arith [OF True]
  define i where "i = (64 - length msg mod 64) + 64 * ((length inp - (64 - length msg mod 64)) div 64)"
  define b where "b = drop (64 * (length msg div 64)) msg @ take (64 - length msg mod 64) inp"
  note u = u [folded b_def i_def] and ba = ba [folded i_def]
  have "length (drop i inp) \<le> 64"
    using ba by simp
  moreover have "take (length (msg @ inp) mod 64) (blit b 0 (drop i inp))
      = drop (64 * (length (msg @ inp) div 64)) (msg @ inp)"
    using ba by (simp add: blit_def)
  ultimately show thesis
    using md5_reprD(1) [OF r] u(2) by (intro that [OF u(1)]) (simp add: md5_repr_def)
next
  case False
  let ?L = "length msg" and ?n = "length msg mod 64" and ?N = "length inp"
  have s: "?n + ?N < 64"
    using False by simp
  then have "(?L + ?N) mod 64 = ?n + ?N" and "(?L + ?N) div 64 = ?L div 64"
    using mod_add_left_eq [of ?L 64 ?N] div_add1_eq [of ?L ?N 64] by simp_all
  moreover have "take (?n + ?N) (blit (md_buffer m) ?n inp) = drop (64 * (?L div 64)) msg @ inp"
    using md5_reprD(2,4) [OF r] s by simp
  moreover have "length inp < 2 ^ 32" using len by simp
  ultimately show thesis
    using md5_reprD(1,2) [OF r] s by (intro that [OF update_partial [OF r _ False]]) (simp_all add: md5_repr_def)
qed

text \<open>A message in pieces.\<close>

fun updates :: "md5 \<Rightarrow> bytes list \<Rightarrow> fault + md5" where
  "updates m [] = Inr m"
| "updates m (c # cs) = (case update m c of Inl f \<Rightarrow> Inl f | Inr m \<Rightarrow> updates m cs)"

lemma md5_repr_updates:
  assumes "md5_repr m msg" and "\<And>c. c \<in> set chunks \<Longrightarrow> length c + 64 \<le> 2 ^ 32"
  shows "\<exists>m'. updates m chunks = Inr m' \<and> md5_repr m' (msg @ concat chunks)"
  using assms
proof (induction chunks arbitrary: m msg)
  case Nil
  then show ?case by simp
next
  case (Cons c chunks)
  obtain m1 where m1: "update m c = Inr m1" "md5_repr m1 (msg @ c)"
    by (rule md5_repr_update [OF Cons.prems(1), of c]) (use Cons.prems(2) in simp_all)
  from Cons.IH [OF m1(2)] Cons.prems(2) m1(1) show ?case
    by simp
qed

lemma to_le_mod: "to_le n (x mod 256 ^ n) = to_le n x"
proof (induction n arbitrary: x)
  case 0
  show ?case by simp
next
  case (Suc n)
  have "x mod (256 * 256 ^ n) mod 256 = x mod 256"
    by (simp add: mod_mod_cancel)
  moreover have "x mod (256 * 256 ^ n) div 256 = x div 256 mod 256 ^ n"
    by (simp add: mod_mult2_eq)
  ultimately show ?case
    using Suc by simp
qed

lemma encode_count:
  assumes "md5_repr m msg"
  shows "encode [md_count0 m, md_count1 m] = to_le 8 (8 * length msg)"
proof -
  have e: "encode1 (word_of_nat x) = to_le 4 x" for x
    using to_le_mod [of 4 x] by (simp add: encode1_to_le unat_of_nat)
  have "to_le 8 (8 * length msg) = to_le 4 (8 * length msg) @ to_le 4 (8 * length msg div 2 ^ 32)"
    using to_le_append [of 4 4 "8 * length msg"] by simp
  then show ?thesis
    using md5_reprD(6,7) [OF assms] by (simp only: encode.simps e append_Nil2)
qed

lemma padding_eq:
  assumes "n < 64"
  defines "p \<equiv> (if n < 56 then 56 - n else 120 - n)"
  shows "take p PADDING = 0x80 # replicate ((119 - n) mod 64) 0"
proof -
  have "p = Suc ((119 - n) mod 64)"
    using assms by (auto simp: p_def le_mod_geq)
  moreover have "(119 - n) mod 64 \<le> 63"
    using mod_less_divisor [of 64 "119 - n"] by linarith
  ultimately show ?thesis
    by (simp add: PADDING_def)
qed

lemma md5_pad_eq:
  "msg @ take (if length msg mod 64 < 56 then 56 - length msg mod 64 else 120 - length msg mod 64) PADDING
     @ to_le 8 (8 * length msg) = md5_pad msg"
  by (simp only: md5_pad_def padding_eq [OF mod_less_divisor [OF zero_less_numeral]] append_Cons)

text \<open>The object just before the digest is taken: the padded message has been hashed.\<close>

lemma md5_repr_final:
  assumes r: "md5_repr m msg"
  defines "p \<equiv> take (if length msg mod 64 < 56 then 56 - length msg mod 64 else 120 - length msg mod 64) PADDING"
  obtains m1 m2 where "update m p = Inr m1" "md5_repr m1 (msg @ p)" "update m1 (to_le 8 (8 * length msg)) = Inr m2"
    "md5_repr m2 (md5_pad msg)"
    "finalize m = Inr (m2\<lparr>md_digest := encode (md_words (md_state m2)), md_buffer := (md_buffer m2)[0 := 0],
       md_finalized := True\<rparr>)"
proof -
  have "length p + 64 \<le> 2 ^ 32"
    by (simp add: p_def PADDING_def)
  then obtain m1 where m1: "update m p = Inr m1" "md5_repr m1 (msg @ p)"
    by (rule md5_repr_update [OF r])
  have bits: "length (to_le 8 (8 * length msg)) + 64 \<le> 2 ^ 32" by simp
  obtain m2 where m2: "update m1 (to_le 8 (8 * length msg)) = Inr m2" "md5_repr m2 ((msg @ p) @ to_le 8 (8 * length msg))"
    by (rule md5_repr_update [OF m1(2) bits])
  have "md5_repr m2 (md5_pad msg)"
    using m2(2) by (simp only: p_def append_assoc md5_pad_eq)
  moreover have "finalize m = Inr (m2\<lparr>md_digest := encode (md_words (md_state m2)), md_buffer := (md_buffer m2)[0 := 0],
       md_finalized := True\<rparr>)"
    by (simp only: finalize_def Let_def md5_reprD(1,5) [OF r] encode_count [OF r] if_False p_def [symmetric] m1(1) m2(1) sum.case)
  ultimately show thesis
    by (rule that [OF m1 m2(1)])
qed

lemma raw_digest_finalize:
  assumes "md5_repr m msg"
  shows "\<exists>m'. finalize m = Inr m' \<and> raw_digest m' = md5_spec msg"
proof -
  obtain m2 where "md5_repr m2 (md5_pad msg)"
    "finalize m = Inr (m2\<lparr>md_digest := encode (md_words (md_state m2)), md_buffer := (md_buffer m2)[0 := 0], md_finalized := True\<rparr>)"
    by (rule md5_repr_final [OF assms])
  then show ?thesis
    using md5_reprD(3) [of m2] by (simp add: raw_digest_def md5_spec_def length_raw_digest)
qed

text \<open>C11: the digest of a message does not depend on how it is cut into \<^verbatim>\<open>update\<close> calls:
  for every list of chunks of at most \<open>2^32 - 64\<close> bytes each, and whatever the uninitialised buffer and digest held, no call
  reads behind its input, and the object returns the one-shot MD5 (padding and compression) of the concatenation.\<close>

theorem md5_stream:
  assumes "length buf = 64" and "\<And>c. c \<in> set chunks \<Longrightarrow> length c + 64 \<le> 2 ^ 32"
  shows "\<exists>m m'. updates (init buf dig) chunks = Inr m \<and> finalize m = Inr m' \<and> raw_digest m' = md5_spec (concat chunks)"
proof -
  obtain m where "updates (init buf dig) chunks = Inr m" "md5_repr m (concat chunks)"
    using md5_repr_updates [OF md5_repr_init [OF assms(1)] assms(2)] by auto
  with raw_digest_finalize show ?thesis by blast
qed

theorem md5_stream_witness:
  "\<exists>m m'. updates (init (replicate 64 7) []) [[97], [98, 99]] = Inr m \<and> finalize m = Inr m' \<and> raw_digest m' = md5_spec [97, 98, 99]"
proof -
  have "length c + 64 \<le> 2 ^ 32" if "c \<in> set [[97], [98, 99]]" for c :: bytes
    using that by auto
  with md5_stream [where buf = "replicate 64 7" and chunks = "[[97], [98, 99]]" and dig = "[]"]
  show ?thesis
    by simp
qed

subsection \<open>Inputs of almost 4 GiB\<close>

lemma transform_loop_wraps:
  "unat n = 2 ^ 32 - 1 \<Longrightarrow> unat i mod 64 = 1 \<Longrightarrow> transform_loop st input n i = Inl OutOfBounds"
proof (induction st input n i rule: transform_loop.induct)
  case (1 st input n i)
  have i: "unat i < 2 ^ 32" using unsigned_less [of i, where ?'a = nat] by simp
  show ?case
  proof (cases "unat i + 64 \<le> unat n")
    case True
    then have "i + 63 < n" using "1.prems"(1) by (simp add: word_less_nat_alt unat_word_ariths(1))
    moreover from this have "transform_loop (transform st (take 64 (drop (unat i) input))) input n (i + 64) = Inl OutOfBounds"
      using "1.prems" True unat_plus_64 [OF True] by (intro "1.IH") simp_all
    ultimately show ?thesis using True by (simp add: transform_loop.simps [of st input n i])
  next
    case False
    define q where "q = unat i div 64"
    have q: "unat i = 64 * q + 1" using "1.prems"(2) mult_div_mod_eq [of 64 "unat i"] by (simp add: q_def)
    have "4294967295 < unat i + 64" "unat i < 4294967296" using False "1.prems"(1) i by simp_all
    then have "67108862 < q" "q < 67108864" using q by linarith+
    then have "unat i = 2 ^ 32 - 63" using q by simp
    then have "i + 63 < n" using "1.prems"(1) by (simp add: word_less_nat_alt unat_word_ariths(1))
    then show ?thesis using False by (simp add: transform_loop.simps [of st input n i])
  qed
qed

text \<open>C38: the bound on the length of an \<^verbatim>\<open>update\<close> is needed: with 63 bytes in the buffer, an input of \<open>2^32 - 1\<close>
  bytes, a length that the parameter allows, is read behind its end, because the sum of the index and 63 wraps.\<close>

theorem md5_overread:
  assumes r: "md5_repr m msg" and n: "length msg mod 64 = 63" "length inp = 2 ^ 32 - 1"
  shows "update m inp = Inl OutOfBounds"
proof -
  let ?w = "64 - (drop_bit 3 (md_count0 m) AND 0x3F)" and ?N = "word_of_nat (length inp) :: u32"
  have len: "length inp < 2 ^ 32" using n(2) by simp
  have "unat ?N = 2 ^ 32 - 1" by (simp only: n(2)) (simp add: unat_of_nat)
  moreover have "unat ?w mod 64 = 1" using md5_repr_space(1) [OF r len] n(1) by simp
  ultimately have "transform_loop st inp ?N ?w = Inl OutOfBounds" for st by (rule transform_loop_wraps)
  moreover have "?w \<le> ?N" using md5_repr_space(2) [OF r len] n by simp
  ultimately show ?thesis
    by (simp only: update_def Let_def md5_reprD(1) [OF r] if_False if_True sum.case)
qed

theorem md5_overread_witness:
  "\<exists>m. update (init (replicate 64 7) []) (replicate 63 0) = Inr m \<and> update m (replicate (2 ^ 32 - 1) 0) = Inl OutOfBounds"
proof -
  have "length (replicate 64 (7 :: byte)) = 64" by (rule length_replicate)
  then have init: "md5_repr (init (replicate 64 7) []) []" by (rule md5_repr_init)
  have len: "length (replicate 63 (0 :: byte)) + 64 \<le> 2 ^ 32" by simp
  obtain m where m: "update (init (replicate 64 7) []) (replicate 63 0) = Inr m" "md5_repr m ([] @ replicate 63 0)"
    by (rule md5_repr_update [OF init len])
  have "update m (replicate (2 ^ 32 - 1) 0) = Inl OutOfBounds"
    by (rule md5_overread [OF m(2) _ length_replicate]) simp
  with m(1) show ?thesis by blast
qed

text \<open>C40: \<^verbatim>\<open>finalize\<close> is meant to zeroize the buffer, but clears only its first byte: when the last partial block of the message
  is shorter than 56 bytes, so that the padding does not need another block, that partial block is still there
  afterwards, its first byte excepted.\<close>

theorem md5_buffer_remains:
  assumes r: "md5_repr m msg" and n: "length msg mod 64 < 56"
  shows "\<exists>m'. finalize m = Inr m' \<and>
    take (length msg mod 64) (md_buffer m') = (drop (64 * (length msg div 64)) msg)[0 := 0]"
proof -
  let ?n = "length msg mod 64" and ?tail = "drop (64 * (length msg div 64)) msg"
  define p where "p = take (56 - ?n) PADDING"
  define bits where "bits = to_le 8 (8 * length msg)"
  have p: "take (if ?n < 56 then 56 - ?n else 120 - ?n) PADDING = p" using n by (simp add: p_def)
  have lp: "length p = 56 - ?n"
    using n by (simp add: p_def PADDING_def)
  obtain m1 m2 where m: "md5_repr m1 (msg @ p)" "update m1 bits = Inr m2"
    "finalize m = Inr (m2\<lparr>md_digest := encode (md_words (md_state m2)), md_buffer := (md_buffer m2)[0 := 0], md_finalized := True\<rparr>)"
    by (rule md5_repr_final [OF r, unfolded p bits_def [symmetric]])
  have L: "(length msg + length p) mod 64 = 56" and D: "(length msg + length p) div 64 = length msg div 64"
    using n lp mod_add_left_eq [of "length msg" 64 "length p"] div_add1_eq [of "length msg" "length p" 64]
    by simp_all
  have lb: "length bits = 8"
    by (simp add: bits_def)
  have full: "64 - length (msg @ p) mod 64 \<le> length bits" and lt: "length bits + 64 \<le> 2 ^ 32"
    using L lb by simp_all
  have "md_buffer m2 = ?tail @ p @ bits"
    using m(2) update_full(1) [OF m(1) lt full] L D lb by (auto simp: blit_def)
  with m(3) show ?thesis
    by (simp add: take_update_swap)
qed

theorem md5_buffer_remains_witness:
  "\<exists>m m'. update (init (replicate 64 7) []) [97, 98] = Inr m \<and> finalize m = Inr m' \<and> take 2 (md_buffer m') = [0, 98]"
proof -
  have init: "md5_repr (init (replicate 64 7) []) []" by (rule md5_repr_init) simp
  have len: "length [97 :: byte, 98] + 64 \<le> 2 ^ 32" by simp
  obtain m where m: "update (init (replicate 64 7) []) [97, 98] = Inr m" "md5_repr m ([] @ [97, 98])"
    by (rule md5_repr_update [OF init len])
  from m(1) md5_buffer_remains [OF m(2)] show ?thesis by (auto simp: numeral_2_eq_2)
qed

text \<open>The unrolled call table of \<^verbatim>\<open>transform\<close> is the one of RFC 1321: in step \<open>i\<close> the round function, the assigned
  variable, the message word (\<open>i\<close>, \<open>5i+1\<close>, \<open>3i+5\<close>, \<open>7i\<close> modulo 16) and the shift amount are the standard's, and with the 64
  additive constants of the table the digests of the empty message and of \<^verbatim>\<open>abc\<close> are the ones that the test suite of the standard
  gives.\<close>

lemma md5_schedule:
  "map (\<lambda>(f, r, k, s, ac). (f, r, k, s)) transform_calls =
     map (\<lambda>i. (if i < 16 then FF else if i < 32 then GG else if i < 48 then HH else II,
               [RA, RD, RC, RB] ! (i mod 4),
               if i < 16 then i else if i < 32 then (5 * i + 1) mod 16 else if i < 48 then (3 * i + 5) mod 16 else 7 * i mod 16,
               [[7, 12, 17, 22], [5, 9, 14, 20], [4, 11, 16, 23], [6, 10, 15, 21]] ! (i div 16) ! (i mod 4))) [0..<64]
   \<and> md5_spec [] = [0xd4, 0x1d, 0x8c, 0xd9, 0x8f, 0x00, 0xb2, 0x04, 0xe9, 0x80, 0x09, 0x98, 0xec, 0xf8, 0x42, 0x7e]
   \<and> md5_spec [97, 98, 99] = [0x90, 0x01, 0x50, 0x98, 0x3c, 0xd2, 0x4f, 0xb0, 0xd6, 0x96, 0x3f, 0x7d, 0x28, 0xe1, 0x7f, 0x72]"
proof (intro conjI)
  show "md5_spec [] = [0xd4, 0x1d, 0x8c, 0xd9, 0x8f, 0x00, 0xb2, 0x04, 0xe9, 0x80, 0x09, 0x98, 0xec, 0xf8, 0x42, 0x7e]"
    by code_simp
  show "md5_spec [97, 98, 99] = [0x90, 0x01, 0x50, 0x98, 0x3c, 0xd2, 0x4f, 0xb0, 0xd6, 0x96, 0x3f, 0x7d, 0x28, 0xe1, 0x7f, 0x72]"
    by code_simp
qed code_simp

end
