(* ===== verification/LdbTable.thy ===== *)
theory LdbTable
  imports Prelude "HOL-Library.Multiset"
begin

text \<open>
  The hash function (\<^verbatim>\<open>util/hash.cc\<close>) and the hash table of handles (\<^verbatim>\<open>HandleTable\<close> of
  \<^verbatim>\<open>util/cache.cc\<close>) of the LRU cache that the dpi process keeps its clients in, with the proof
  that the table is a finite map; the locale \<open>handle_table\<close> is that contract.
\<close>

subsection \<open>Hashing\<close>

text \<open>\<^verbatim>\<open>Hash\<close> (\<^verbatim>\<open>util/hash.cc\<close>): four bytes at a time, then the remaining ones.\<close>

abbreviation (input) hash_m :: u32 where "hash_m \<equiv> 0xc6a4a793"

definition hash_mix :: "u32 \<Rightarrow> u32 \<Rightarrow> u32" where
  "hash_mix h w = (let h = (h + w) * hash_m in h XOR (drop_bit 16 h))"

fun hash_words :: "bytes \<Rightarrow> u32 \<Rightarrow> u32 \<times> bytes" where
  "hash_words (a # b # c # d # rest) h = hash_words rest (hash_mix h (ld32 [a, b, c, d] 0))"
| "hash_words bs h = (h, bs)"

definition hash_tail :: "u32 \<Rightarrow> bytes \<Rightarrow> u32" where
  "hash_tail h bs =
     (let fin = (\<lambda>h. let h = h * hash_m in h XOR (drop_bit 24 h)) in
      case bs of
        [a] \<Rightarrow> fin (h + ucast a)
      | [a, b] \<Rightarrow> fin (h + push_bit 8 (ucast b) + ucast a)
      | [a, b, c] \<Rightarrow> fin (h + push_bit 16 (ucast c) + push_bit 8 (ucast b) + ucast a)
      | _ \<Rightarrow> h)"

definition Hash :: "bytes \<Rightarrow> u32 \<Rightarrow> u32" where
  "Hash data seed = (let (h, rest) = hash_words data (seed XOR (word_of_nat (length data) * hash_m)) in hash_tail h rest)"

definition HashSlice :: "bytes \<Rightarrow> u32" where "HashSlice s = Hash s 0"

definition Shard :: "u32 \<Rightarrow> nat" where "Shard hash = unat (drop_bit (32 - 4) hash)"

lemma Shard_less: "Shard h < 16"
proof -
  have "unat (drop_bit 28 h) = unat h div 2 ^ 28" by (subst unat_drop_bit_eq) (simp only: drop_bit_eq_div)
  also have "\<dots> < 16" using unsigned_less [of h, where ?'a = nat] by (simp add: less_mult_imp_div_less)
  finally show ?thesis by (simp add: Shard_def)
qed

subsection \<open>The hash table\<close>

text \<open>\<^verbatim>\<open>HandleTable\<close>: an array of chains of handles. The chain linked by \<^verbatim>\<open>next_hash\<close> is a list here. The
  operations read the key and the hash of a handle through \<open>kh\<close>.\<close>

type_synonym keyhash = "bytes \<times> u32"

record HandleTable =
  ht_length :: nat
  ht_elems :: nat
  ht_list :: "ptr list list"

definition bucket_of :: "u32 \<Rightarrow> nat \<Rightarrow> nat" where
  "bucket_of hash n = unat hash AND (n - 1)"

definition FindPointer :: "(ptr \<Rightarrow> keyhash) \<Rightarrow> HandleTable \<Rightarrow> keyhash \<Rightarrow> ptr list \<times> ptr list" where
  "FindPointer kh t k =
     (let c = ht_list t ! bucket_of (snd k) (ht_length t) in
      (takeWhile (\<lambda>p. kh p \<noteq> k) c, dropWhile (\<lambda>p. kh p \<noteq> k) c))"

definition ht_Lookup :: "(ptr \<Rightarrow> keyhash) \<Rightarrow> HandleTable \<Rightarrow> keyhash \<Rightarrow> ptr" where
  "ht_Lookup kh t k = (case snd (FindPointer kh t k) of [] \<Rightarrow> 0 | p # _ \<Rightarrow> p)"

text \<open>The length doubles from 4 until it is at least the number of elements. It is a natural number
  here: a table of \<open>2^31\<close> handles does not fit in memory.\<close>

function new_length :: "nat \<Rightarrow> nat \<Rightarrow> nat" where
  "new_length n elems = (if 0 < n \<and> n < elems then new_length (n * 2) elems else n)"
  by pat_completeness auto
termination
  by (relation "measure (\<lambda>(n, e). e - n)") auto

declare new_length.simps [simp del]

definition push_chain :: "(ptr \<Rightarrow> keyhash) \<Rightarrow> nat \<Rightarrow> ptr list list \<Rightarrow> ptr \<Rightarrow> ptr list list" where
  "push_chain kh n l p = (let i = bucket_of (snd (kh p)) n in l[i := p # l ! i])"

definition Resize :: "(ptr \<Rightarrow> keyhash) \<Rightarrow> HandleTable \<Rightarrow> HandleTable" where
  "Resize kh t =
     (let n = new_length 4 (ht_elems t) in
      t\<lparr>ht_length := n, ht_list := foldl (push_chain kh n) (replicate n []) (concat (ht_list t))\<rparr>)"

definition HandleTable_init :: HandleTable where
  "HandleTable_init = Resize (\<lambda>_. ([], 0)) \<lparr>ht_length = 0, ht_elems = 0, ht_list = []\<rparr>"

definition set_chain :: "HandleTable \<Rightarrow> u32 \<Rightarrow> ptr list \<Rightarrow> HandleTable" where
  "set_chain t hash c = t\<lparr>ht_list := (ht_list t)[bucket_of hash (ht_length t) := c]\<rparr>"

definition ht_Insert :: "(ptr \<Rightarrow> keyhash) \<Rightarrow> HandleTable \<Rightarrow> ptr \<Rightarrow> ptr \<times> HandleTable" where
  "ht_Insert kh t h =
     (case FindPointer kh t (kh h) of
        (pre, []) \<Rightarrow>
          (let t' = (set_chain t (snd (kh h)) (pre @ [h]))\<lparr>ht_elems := ht_elems t + 1\<rparr> in
           (0, if ht_length t' < ht_elems t' then Resize kh t' else t'))
      | (pre, old # post) \<Rightarrow> (old, set_chain t (snd (kh h)) (pre @ h # post)))"

definition ht_Remove :: "(ptr \<Rightarrow> keyhash) \<Rightarrow> HandleTable \<Rightarrow> keyhash \<Rightarrow> ptr \<times> HandleTable" where
  "ht_Remove kh t k =
     (case FindPointer kh t k of
        (pre, []) \<Rightarrow> (0, t)
      | (pre, p # post) \<Rightarrow> (p, (set_chain t (snd k) (pre @ post))\<lparr>ht_elems := ht_elems t - 1\<rparr>))"


subsection \<open>The table as a map\<close>

text \<open>Each handle is in the chain of its hash, no two handles have the same key and hash, and the
  element count is right.\<close>

definition ht_inv :: "(ptr \<Rightarrow> keyhash) \<Rightarrow> HandleTable \<Rightarrow> bool" where
  "ht_inv kh t \<longleftrightarrow> 0 < ht_length t \<and> length (ht_list t) = ht_length t
     \<and> (\<forall>i < ht_length t. \<forall>p \<in> set (ht_list t ! i). bucket_of (snd (kh p)) (ht_length t) = i)
     \<and> distinct (map kh (concat (ht_list t))) \<and> ht_elems t = length (concat (ht_list t))"

abbreviation ht_set :: "HandleTable \<Rightarrow> ptr set" where
  "ht_set t \<equiv> set (concat (ht_list t))"

lemma bucket_of_less: "0 < n \<Longrightarrow> bucket_of h n < n"
proof -
  assume "0 < n"
  have "int (unat h AND (n - 1)) = int (unat h) AND int (n - 1)" by (rule of_nat_and_eq)
  also have "\<dots> \<le> int (n - 1)" by (rule AND_upper2) simp
  finally show ?thesis using \<open>0 < n\<close> by (simp add: bucket_of_def)
qed

text \<open>A chain holds all handles of its bucket, so the first match in it is the only one in the table.\<close>

lemma in_chain:
  assumes inv: "ht_inv kh t" and p: "p \<in> ht_set t"
  shows "p \<in> set (ht_list t ! bucket_of (snd (kh p)) (ht_length t))"
proof -
  from p obtain c where "c \<in> set (ht_list t)" "p \<in> set c" by auto
  then obtain i where "i < length (ht_list t)" "p \<in> set (ht_list t ! i)" by (auto simp: in_set_conv_nth)
  with inv show ?thesis unfolding ht_inv_def by auto
qed

lemma chain_subset:
  assumes "ht_inv kh t"
  shows "set (ht_list t ! bucket_of h (ht_length t)) \<subseteq> ht_set t"
proof -
  have "ht_list t ! bucket_of h (ht_length t) \<in> set (ht_list t)"
    using assms bucket_of_less [of "ht_length t" h] by (simp add: ht_inv_def)
  then show ?thesis by auto
qed

lemma ht_inv_inj: "ht_inv kh t \<Longrightarrow> p \<in> ht_set t \<Longrightarrow> q \<in> ht_set t \<Longrightarrow> kh p = kh q \<Longrightarrow> p = q"
  unfolding ht_inv_def distinct_map by (blast dest: inj_onD)

lemma FindPointer_cases:
  assumes inv: "ht_inv kh t"
  obtains (absent) pre where "FindPointer kh t k = (pre, [])" "ht_list t ! bucket_of (snd k) (ht_length t) = pre"
      "\<forall>p \<in> ht_set t. kh p \<noteq> k"
  | (present) pre p post where "FindPointer kh t k = (pre, p # post)"
      "ht_list t ! bucket_of (snd k) (ht_length t) = pre @ p # post" "kh p = k" "p \<in> ht_set t"
proof -
  let ?c = "ht_list t ! bucket_of (snd k) (ht_length t)"
  let ?pre = "takeWhile (\<lambda>p. kh p \<noteq> k) ?c"
  have fp: "FindPointer kh t k = (?pre, dropWhile (\<lambda>p. kh p \<noteq> k) ?c)" by (simp add: FindPointer_def Let_def)
  have c: "?c = ?pre @ dropWhile (\<lambda>p. kh p \<noteq> k) ?c" by simp
  show thesis
  proof (cases "dropWhile (\<lambda>p. kh p \<noteq> k) ?c")
    case Nil
    then have no: "\<forall>p \<in> set ?c. kh p \<noteq> k" by (simp add: dropWhile_eq_Nil_conv)
    have "\<forall>p \<in> ht_set t. kh p \<noteq> k" using in_chain [OF inv] no by fastforce
    then show thesis using absent [of ?pre] fp c Nil by simp
  next
    case (Cons p post)
    then have "kh p = k" using hd_dropWhile [of "\<lambda>p. kh p \<noteq> k" ?c] by simp
    moreover have "p \<in> set ?c" using Cons by (metis list.set_intros(1) set_dropWhileD)
    then have "p \<in> ht_set t" using chain_subset [OF inv, of "snd k"] by auto
    moreover have "?c = ?pre @ p # post" using c Cons by simp
    ultimately show thesis using present [of ?pre p post] fp Cons by simp
  qed
qed

lemma mset_concat_update:
  "i < length l \<Longrightarrow> mset (concat (l[i := c])) + mset (l ! i) = mset (concat l) + mset c"
  by (induction l arbitrary: i) (auto split: nat.splits simp: nth_Cons)

lemma mset_push_chain:
  assumes "length l = n" "0 < n"
  shows "mset (concat (push_chain kh n l p)) = add_mset p (mset (concat l))"
  using assms mset_concat_update [of "bucket_of (snd (kh p)) n" l "p # l ! bucket_of (snd (kh p)) n"]
  by (simp add: push_chain_def Let_def bucket_of_less)

lemma length_push_chain [simp]: "length (push_chain kh n l p) = length l"
  by (simp add: push_chain_def Let_def)

text \<open>What the chains of a table look like, apart from its element count.\<close>

definition chained :: "(ptr \<Rightarrow> keyhash) \<Rightarrow> nat \<Rightarrow> ptr list list \<Rightarrow> bool" where
  "chained kh n l \<longleftrightarrow> 0 < n \<and> length l = n \<and> (\<forall>i < n. \<forall>p \<in> set (l ! i). bucket_of (snd (kh p)) n = i)"

lemma ht_inv_chained:
  "ht_inv kh t \<longleftrightarrow> chained kh (ht_length t) (ht_list t) \<and> distinct (map kh (concat (ht_list t)))
     \<and> ht_elems t = length (concat (ht_list t))"
  by (auto simp: ht_inv_def chained_def)

lemma chained_update:
  assumes "chained kh n l" "i < n" "\<forall>p \<in> set c. bucket_of (snd (kh p)) n = i"
  shows "chained kh n (l[i := c])"
  using assms by (auto simp: chained_def nth_list_update)

lemma chained_push:
  assumes "chained kh n l"
  shows "chained kh n (push_chain kh n l p)"
  using assms bucket_of_less [of n "snd (kh p)"]
  unfolding push_chain_def Let_def by (intro chained_update) (auto simp: chained_def)

lemma foldl_push_chain:
  assumes "chained kh n l"
  shows "chained kh n (foldl (push_chain kh n) l ps)
    \<and> mset (concat (foldl (push_chain kh n) l ps)) = mset (concat l) + mset ps"
  using assms
proof (induction ps arbitrary: l)
  case (Cons p ps)
  from Cons.prems have "chained kh n (push_chain kh n l p)" by (rule chained_push)
  moreover have "mset (concat (push_chain kh n l p)) = add_mset p (mset (concat l))"
    using Cons.prems by (intro mset_push_chain) (auto simp: chained_def)
  ultimately show ?case using Cons.IH by simp
qed simp

lemma new_length_ge: "0 < n \<Longrightarrow> n \<le> new_length n e \<and> e \<le> new_length n e"
  by (induction n e rule: new_length.induct) (subst (1 2) new_length.simps, auto)

lemma mset_eq_distinct: "mset xs = mset ys \<Longrightarrow> distinct (map f xs) \<longleftrightarrow> distinct (map f ys)"
  by (metis mset_eq_imp_distinct_iff mset_map)

lemma Resize_ok:
  assumes "distinct (map kh (concat (ht_list t)))" "ht_elems t = length (concat (ht_list t))"
  shows "ht_inv kh (Resize kh t) \<and> ht_set (Resize kh t) = ht_set t \<and> ht_elems t \<le> ht_length (Resize kh t)"
proof -
  let ?n = "new_length 4 (ht_elems t)"
  let ?l = "foldl (push_chain kh ?n) (replicate ?n []) (concat (ht_list t))"
  have n: "4 \<le> ?n" "ht_elems t \<le> ?n" using new_length_ge [of 4 "ht_elems t"] by auto
  then have "chained kh ?n (replicate ?n [])" by (auto simp: chained_def)
  from foldl_push_chain [OF this, of "concat (ht_list t)"]
  have c: "chained kh ?n ?l" and m: "mset (concat ?l) = mset (concat (ht_list t))" by auto
  have "distinct (map kh (concat ?l))" using assms(1) mset_eq_distinct [OF m] by blast
  moreover have "length (concat ?l) = ht_elems t" using assms(2) m by (metis size_mset)
  moreover have "set (concat ?l) = ht_set t" using m by (metis set_mset_mset)
  ultimately show ?thesis using c n by (simp add: Resize_def Let_def ht_inv_chained del: set_concat)
qed


lemma set_chain_simps [simp]:
  "ht_length (set_chain t h c) = ht_length t" "ht_elems (set_chain t h c) = ht_elems t"
  "ht_list (set_chain t h c) = (ht_list t)[bucket_of h (ht_length t) := c]"
  by (simp_all add: set_chain_def)

lemma chained_set_chain:
  assumes "ht_inv kh t"
    and "\<forall>p \<in> set c. bucket_of (snd (kh p)) (ht_length t) = bucket_of h (ht_length t)"
  shows "chained kh (ht_length t) (ht_list (set_chain t h c))"
    and "mset (concat (ht_list (set_chain t h c))) + mset (ht_list t ! bucket_of h (ht_length t))
       = mset (concat (ht_list t)) + mset c"
proof -
  have i: "bucket_of h (ht_length t) < ht_length t" "length (ht_list t) = ht_length t"
    using assms(1) by (auto simp: ht_inv_def bucket_of_less)
  then show "chained kh (ht_length t) (ht_list (set_chain t h c))"
    using assms by (simp add: chained_update ht_inv_chained)
  show "mset (concat (ht_list (set_chain t h c))) + mset (ht_list t ! bucket_of h (ht_length t))
       = mset (concat (ht_list t)) + mset c"
    using i by (simp add: mset_concat_update)
qed

lemma in_bucket:
  assumes "ht_inv kh t" "p \<in> set (ht_list t ! bucket_of h (ht_length t))"
  shows "bucket_of (snd (kh p)) (ht_length t) = bucket_of h (ht_length t)"
  using assms bucket_of_less [of "ht_length t" h] by (auto simp: ht_inv_def)

lemma ht_Remove_ok:
  assumes inv: "ht_inv kh t"
  shows "ht_inv kh (snd (ht_Remove kh t k)) \<and> ht_set (snd (ht_Remove kh t k)) = {p \<in> ht_set t. kh p \<noteq> k}
     \<and> fst (ht_Remove kh t k) = ht_Lookup kh t k"
  using inv
proof (cases rule: FindPointer_cases [where k = k])
  case (absent pre)
  then show ?thesis using inv by (auto simp: ht_Remove_def ht_Lookup_def)
next
  case (present pre p post)
  let ?t = "set_chain t (snd k) (pre @ post)"
  have b: "\<forall>q \<in> set (pre @ post). bucket_of (snd (kh q)) (ht_length t) = bucket_of (snd k) (ht_length t)"
    using in_bucket [OF inv, of _ "snd k"] present(2) by auto
  have m: "mset (concat (ht_list t)) = add_mset p (mset (concat (ht_list ?t)))"
    using chained_set_chain(2) [OF inv b] present(2) by simp
  then have "distinct (map kh (p # concat (ht_list ?t)))"
    using inv mset_eq_distinct [of "concat (ht_list t)" "p # concat (ht_list ?t)" kh] by (simp add: ht_inv_def)
  then have d: "distinct (map kh (concat (ht_list ?t)))" "\<forall>q \<in> ht_set ?t. kh q \<noteq> k"
    using present(3) by (auto simp del: set_concat simp: image_iff eq_commute [of k])
  have s: "ht_set t = insert p (ht_set ?t)" using arg_cong [OF m, of set_mset] by simp
  have l: "ht_elems t - 1 = length (concat (ht_list ?t))"
    using arg_cong [OF m, of size] inv by (simp add: ht_inv_def)
  show ?thesis using present chained_set_chain(1) [OF inv b] d s l
    by (auto simp: ht_Remove_def ht_Lookup_def ht_inv_chained simp del: set_concat)
qed

lemma insert_swap: "insert p A = insert h B \<Longrightarrow> h \<notin> B \<Longrightarrow> p \<in> B \<Longrightarrow> p \<notin> A \<Longrightarrow> A = insert h (B - {p})"
  by auto

lemma ht_Insert_ok:
  assumes inv: "ht_inv kh t" and new: "h \<notin> ht_set t"
  shows "ht_inv kh (snd (ht_Insert kh t h)) \<and> ht_set (snd (ht_Insert kh t h)) = insert h {p \<in> ht_set t. kh p \<noteq> kh h}
     \<and> fst (ht_Insert kh t h) = ht_Lookup kh t (kh h)"
  using inv
proof (cases rule: FindPointer_cases [where k = "kh h"])
  case (absent pre)
  let ?t = "(set_chain t (snd (kh h)) (pre @ [h]))\<lparr>ht_elems := ht_elems t + 1\<rparr>"
  have b: "\<forall>q \<in> set (pre @ [h]). bucket_of (snd (kh q)) (ht_length t) = bucket_of (snd (kh h)) (ht_length t)"
    using in_bucket [OF inv, of _ "snd (kh h)"] absent(2) by auto
  have m: "mset (concat (ht_list ?t)) = mset (h # concat (ht_list t))"
    using chained_set_chain(2) [OF inv b] absent(2) by simp
  have d: "distinct (map kh (concat (ht_list ?t)))"
    using inv absent(3) mset_eq_distinct [OF m, of kh] by (auto simp: ht_inv_def)
  have l: "ht_elems ?t = length (concat (ht_list ?t))"
    using arg_cong [OF m, of size] inv by (simp add: ht_inv_def)
  have s: "ht_set ?t = insert h (ht_set t)" using arg_cong [OF m, of set_mset] by simp
  have i: "ht_inv kh ?t" using chained_set_chain(1) [OF inv b] d l by (simp add: ht_inv_chained)
  have r: "{p \<in> ht_set t. kh p \<noteq> kh h} = ht_set t" using absent(3) by auto
  show ?thesis using absent(1) i s r Resize_ok [OF d l]
    by (simp add: ht_Insert_def ht_Lookup_def Let_def del: set_concat)
next
  case (present pre p post)
  let ?t = "set_chain t (snd (kh h)) (pre @ h # post)"
  have b: "\<forall>q \<in> set (pre @ h # post). bucket_of (snd (kh q)) (ht_length t) = bucket_of (snd (kh h)) (ht_length t)"
    using in_bucket [OF inv, of _ "snd (kh h)"] present(2) by auto
  have m: "add_mset p (mset (concat (ht_list ?t))) = add_mset h (mset (concat (ht_list t)))"
    using chained_set_chain(2) [OF inv b] present(2) by simp
  have "image_mset kh (mset (concat (ht_list ?t))) = image_mset kh (mset (concat (ht_list t)))"
    using arg_cong [OF m, of "image_mset kh"] present(3) by simp
  then have d: "distinct (map kh (concat (ht_list ?t)))"
    using inv mset_eq_imp_distinct_iff [of "map kh (concat (ht_list ?t))" "map kh (concat (ht_list t))"]
    by (simp add: ht_inv_def)
  have l: "ht_elems t = length (concat (ht_list ?t))"
    using arg_cong [OF m, of size] inv by (simp add: ht_inv_def)
  have i: "ht_inv kh ?t" using chained_set_chain(1) [OF inv b] d l by (simp add: ht_inv_chained)
  have s: "insert p (ht_set ?t) = insert h (ht_set t)" using arg_cong [OF m, of set_mset] by simp
  have "p \<noteq> h" using new present(4) by (auto simp del: set_concat)
  then have h: "h \<in> ht_set ?t" using insertI1 [of h "ht_set t"] unfolding s [symmetric] by blast
  have "p \<notin> ht_set ?t" using ht_inv_inj [OF i _ h present(3)] \<open>p \<noteq> h\<close> by (auto simp del: set_concat)
  with s new present(4) have "ht_set ?t = insert h (ht_set t - {p})" by (rule insert_swap)
  moreover have "{q \<in> ht_set t. kh q \<noteq> kh h} = ht_set t - {p}"
    using ht_inv_inj [OF inv _ present(4)] present(3) by (auto simp del: set_concat)
  ultimately show ?thesis using present(1) i by (simp add: ht_Insert_def ht_Lookup_def del: set_concat)
qed

lemma ht_Lookup_ok:
  assumes inv: "ht_inv kh t"
  shows "p \<in> ht_set t \<Longrightarrow> ht_Lookup kh t (kh p) = p"
    and "\<forall>q \<in> ht_set t. kh q \<noteq> k \<Longrightarrow> ht_Lookup kh t k = 0"
proof -
  assume "p \<in> ht_set t"
  from inv show "ht_Lookup kh t (kh p) = p"
    by (cases rule: FindPointer_cases [where k = "kh p"])
      (use \<open>p \<in> ht_set t\<close> ht_inv_inj [OF inv, of _ p] in \<open>auto simp: ht_Lookup_def simp del: set_concat\<close>)
next
  assume no: "\<forall>q \<in> ht_set t. kh q \<noteq> k"
  from inv show "ht_Lookup kh t k = 0"
    by (cases rule: FindPointer_cases [where k = k]) (use no in \<open>auto simp: ht_Lookup_def simp del: set_concat\<close>)
qed

lemma HandleTable_init_ok: "ht_inv kh HandleTable_init \<and> ht_set HandleTable_init = {}"
  using Resize_ok [of kh "\<lparr>ht_length = 0, ht_elems = 0, ht_list = []\<rparr>"]
  by (simp add: HandleTable_init_def Resize_def)

lemma ht_inv_cong: "(\<And>p. p \<in> ht_set t \<Longrightarrow> kh p = kh' p) \<Longrightarrow> ht_inv kh t \<Longrightarrow> ht_inv kh' t"
proof -
  assume eq: "\<And>p. p \<in> ht_set t \<Longrightarrow> kh p = kh' p" and inv: "ht_inv kh t"
  have "map kh (concat (ht_list t)) = map kh' (concat (ht_list t))" using eq by (intro map_cong refl) simp
  moreover have "\<forall>i < ht_length t. \<forall>p \<in> set (ht_list t ! i). kh p = kh' p"
    using eq inv by (metis ht_inv_def nth_mem UN_I set_concat)
  ultimately show "ht_inv kh' t" using inv by (simp add: ht_inv_def del: map_eq_conv)
qed


text \<open>What the cache relies on: the table is a finite map from key and hash to handle.\<close>

locale handle_table =
  fixes init :: "'t" and look :: "('p \<Rightarrow> 'k) \<Rightarrow> 't \<Rightarrow> 'k \<Rightarrow> 'p"
    and ins :: "('p \<Rightarrow> 'k) \<Rightarrow> 't \<Rightarrow> 'p \<Rightarrow> 'p \<times> 't" and rem :: "('p \<Rightarrow> 'k) \<Rightarrow> 't \<Rightarrow> 'k \<Rightarrow> 'p \<times> 't"
    and elts :: "'t \<Rightarrow> 'p set" and inv :: "('p \<Rightarrow> 'k) \<Rightarrow> 't \<Rightarrow> bool" and null :: 'p
  assumes init_ok: "inv kh init \<and> elts init = {}"
    and inj: "inv kh t \<Longrightarrow> p \<in> elts t \<Longrightarrow> q \<in> elts t \<Longrightarrow> kh p = kh q \<Longrightarrow> p = q"
    and look_in: "inv kh t \<Longrightarrow> p \<in> elts t \<Longrightarrow> look kh t (kh p) = p"
    and look_out: "inv kh t \<Longrightarrow> \<forall>q \<in> elts t. kh q \<noteq> k \<Longrightarrow> look kh t k = null"
    and ins_ok: "inv kh t \<Longrightarrow> h \<notin> elts t \<Longrightarrow>
      inv kh (snd (ins kh t h)) \<and> elts (snd (ins kh t h)) = insert h {p \<in> elts t. kh p \<noteq> kh h}
      \<and> fst (ins kh t h) = look kh t (kh h)"
    and rem_ok: "inv kh t \<Longrightarrow>
      inv kh (snd (rem kh t k)) \<and> elts (snd (rem kh t k)) = {p \<in> elts t. kh p \<noteq> k}
      \<and> fst (rem kh t k) = look kh t k"
    and inv_cong: "(\<And>p. p \<in> elts t \<Longrightarrow> kh p = kh' p) \<Longrightarrow> inv kh t \<Longrightarrow> inv kh' t"
begin

lemma look_cases:
  assumes "inv kh t"
  obtains "look kh t k = null" "\<forall>p \<in> elts t. kh p \<noteq> k" | "look kh t k \<in> elts t" "kh (look kh t k) = k"
  using assms look_in look_out by (metis (full_types))

lemma rem_elem:
  assumes "inv kh t" "p \<in> elts t"
  shows "fst (rem kh t (kh p)) = p" "elts (snd (rem kh t (kh p))) = elts t - {p}"
  using rem_ok [OF assms(1), of "kh p"] look_in [OF assms] inj [OF assms(1) _ assms(2)] assms(2) by auto

lemma look_after_ins:
  assumes "inv kh t" "h \<notin> elts t"
  shows "look kh (snd (ins kh t h)) (kh h) = h"
  using ins_ok [OF assms] look_in by auto

lemma look_after_rem:
  assumes "inv kh t"
  shows "look kh (snd (rem kh t k)) k = null"
  using rem_ok [OF assms, of k] look_out [of kh "snd (rem kh t k)" k] by simp

lemma look_other:
  assumes i: "inv kh t" and i': "inv kh t'" and k: "{p \<in> elts t'. kh p = k} = {p \<in> elts t. kh p = k}"
  shows "look kh t' k = look kh t k"
  using i
proof (cases rule: look_cases [where k = k])
  case 1
  then have "\<forall>p \<in> elts t'. kh p \<noteq> k" using k by blast
  with 1 show ?thesis using look_out [OF i'] by simp
next
  case 2
  then have "look kh t k \<in> elts t'" using k by blast
  from look_in [OF i' this] 2 show ?thesis by simp
qed

end

definition ht_elts :: "HandleTable \<Rightarrow> ptr set" where
  "ht_elts t = ht_set t"

interpretation tbl: handle_table HandleTable_init ht_Lookup ht_Insert ht_Remove ht_elts ht_inv 0
  unfolding ht_elts_def
proof
  show "\<And>kh. ht_inv kh HandleTable_init \<and> ht_set HandleTable_init = {}" by (rule HandleTable_init_ok)
qed (fact ht_inv_inj ht_Lookup_ok ht_Insert_ok ht_Remove_ok ht_inv_cong)+

end
