(* ===== verification/LdbCache.thy ===== *)
theory LdbCache
  imports LdbTable
begin

text \<open>
  One shard of the LRU cache (\<^verbatim>\<open>LRUCache\<close> of \<^verbatim>\<open>util/cache.cc\<close>): its operations as programs with faults
  (an \<^verbatim>\<open>assert\<close> that fails aborts the process), its invariant, and what each operation does to what
  clients see of the cache.
\<close>

subsection \<open>Handles and the cache\<close>

record LRUHandle =
  e_value :: ptr
  e_deleter :: nat
  e_charge :: u64
  e_key :: bytes
  e_in_cache :: bool
  e_refs :: u32
  e_hash :: u32

text \<open>\<^verbatim>\<open>LRUCache\<close>. The two circular lists linked by \<^verbatim>\<open>next\<close> and \<^verbatim>\<open>prev\<close> are lists here, the head's \<^verbatim>\<open>next\<close>
  first; \<open>handles\<close> is the heap, \<open>deleted\<close> the calls of the deleters.\<close>

record LRUCache =
  lc_capacity :: u64
  lc_usage :: u64
  lc_lru :: "ptr list"
  lc_in_use :: "ptr list"
  lc_table :: HandleTable
  handles :: "ptr \<rightharpoonup> LRUHandle"
  hnext :: ptr
  deleted :: "(nat \<times> bytes \<times> ptr) list"

datatype lru_list = L_lru | L_in_use

type_synonym 'a lruprog = "(LRUCache, 'a) prog"

definition LRUCache_init :: "u64 \<Rightarrow> LRUCache" where
  "LRUCache_init cap =
     \<lparr>lc_capacity = cap, lc_usage = 0, lc_lru = [], lc_in_use = [], lc_table = HandleTable_init,
      handles = Map.empty, hnext = 1, deleted = []\<rparr>"

abbreviation handle_at :: "ptr \<Rightarrow> LRUHandle lruprog" where "handle_at \<equiv> heap_get handles"

definition upd_handle :: "ptr \<Rightarrow> (LRUHandle \<Rightarrow> LRUHandle) \<Rightarrow> unit lruprog" where
  "upd_handle p f = andThen (handle_at p) (\<lambda>e. modify (\<lambda>s. s\<lparr>handles := (handles s)(p \<mapsto> f e)\<rparr>))"

definition keyhash_of :: "LRUCache \<Rightarrow> ptr \<Rightarrow> keyhash" where
  "keyhash_of s p = (case handles s p of None \<Rightarrow> ([], 0) | Some e \<Rightarrow> (e_key e, e_hash e))"

text \<open>Unlinking an entry that is in no list would follow stale pointers.\<close>

definition LRU_Remove :: "ptr \<Rightarrow> unit lruprog" where
  "LRU_Remove p =
     andThen (gets (\<lambda>s. p \<in> set (lc_lru s) \<or> p \<in> set (lc_in_use s))) (\<lambda>linked.
     andThen (require Dangling linked) (\<lambda>_.
     modify (\<lambda>s. s\<lparr>lc_lru := remove1 p (lc_lru s), lc_in_use := remove1 p (lc_in_use s)\<rparr>)))"

definition LRU_Append :: "lru_list \<Rightarrow> ptr \<Rightarrow> unit lruprog" where
  "LRU_Append l p = modify (\<lambda>s. case l of L_lru \<Rightarrow> s\<lparr>lc_lru := lc_lru s @ [p]\<rparr> | L_in_use \<Rightarrow> s\<lparr>lc_in_use := lc_in_use s @ [p]\<rparr>)"

definition Ref :: "ptr \<Rightarrow> unit lruprog" where
  "Ref p =
     andThen (handle_at p) (\<lambda>e.
     andThen (if e_refs e = 1 \<and> e_in_cache e
              then andThen (LRU_Remove p) (\<lambda>_. LRU_Append L_in_use p) else ret ()) (\<lambda>_.
     upd_handle p (\<lambda>e. e\<lparr>e_refs := e_refs e + 1\<rparr>)))"

definition delete_handle :: "ptr \<Rightarrow> LRUHandle \<Rightarrow> unit lruprog" where
  "delete_handle p e = modify (\<lambda>s. s\<lparr>handles := (handles s)(p := None),
                                     deleted := deleted s @ [(e_deleter e, e_key e, e_value e)]\<rparr>)"

definition Unref :: "ptr \<Rightarrow> unit lruprog" where
  "Unref p =
     andThen (handle_at p) (\<lambda>e.
     andThen (require Aborted (0 < e_refs e)) (\<lambda>_.
     andThen (upd_handle p (\<lambda>e. e\<lparr>e_refs := e_refs e - 1\<rparr>)) (\<lambda>_.
     if e_refs e - 1 = 0 then andThen (require Aborted (\<not> e_in_cache e)) (\<lambda>_. delete_handle p e)
     else if e_in_cache e \<and> e_refs e - 1 = 1
     then andThen (LRU_Remove p) (\<lambda>_. LRU_Append L_lru p)
     else ret ())))"

definition lru_Lookup :: "bytes \<Rightarrow> u32 \<Rightarrow> ptr lruprog" where
  "lru_Lookup key hash =
     andThen (gets (\<lambda>s. ht_Lookup (keyhash_of s) (lc_table s) (key, hash))) (\<lambda>p.
     if p \<noteq> 0 then andThen (Ref p) (\<lambda>_. ret p) else ret p)"

definition lru_Release :: "ptr \<Rightarrow> unit lruprog" where
  "lru_Release p = Unref p"

definition FinishErase :: "ptr \<Rightarrow> bool lruprog" where
  "FinishErase p =
     (if p \<noteq> 0 then
        andThen (handle_at p) (\<lambda>e.
        andThen (require Aborted (e_in_cache e)) (\<lambda>_.
        andThen (LRU_Remove p) (\<lambda>_.
        andThen (upd_handle p (\<lambda>e. e\<lparr>e_in_cache := False\<rparr>)) (\<lambda>_.
        andThen (modify (\<lambda>s. s\<lparr>lc_usage := lc_usage s - e_charge e\<rparr>)) (\<lambda>_.
        andThen (Unref p) (\<lambda>_. ret True))))))
      else ret False)"

definition table_Remove :: "keyhash \<Rightarrow> ptr lruprog" where
  "table_Remove k = (\<lambda>s. let r = ht_Remove (keyhash_of s) (lc_table s) k in Inr (fst r, s\<lparr>lc_table := snd r\<rparr>))"

definition table_Insert :: "ptr \<Rightarrow> ptr lruprog" where
  "table_Insert p = (\<lambda>s. let r = ht_Insert (keyhash_of s) (lc_table s) p in Inr (fst r, s\<lparr>lc_table := snd r\<rparr>))"

text \<open>One round of the loops that free entries: the oldest entry of \<^verbatim>\<open>lru_\<close> goes.\<close>

definition evict_oldest :: "unit lruprog" where
  "evict_oldest =
     andThen (front_of lc_lru) (\<lambda>old.
     andThen (handle_at old) (\<lambda>e.
     andThen (require Aborted (e_refs e = 1)) (\<lambda>_.
     andThen (table_Remove (e_key e, e_hash e)) (\<lambda>r.
     andThen (FinishErase r) (\<lambda>erased. require Aborted erased)))))"

fun evict_while :: "(LRUCache \<Rightarrow> bool) \<Rightarrow> nat \<Rightarrow> unit lruprog" where
  "evict_while P 0 = ret ()"
| "evict_while P (Suc n) =
     andThen (gets (\<lambda>s. P s \<and> lc_lru s \<noteq> [])) (\<lambda>go.
     if go then andThen evict_oldest (\<lambda>_. evict_while P n) else ret ())"

definition new_handle :: "bytes \<Rightarrow> u32 \<Rightarrow> ptr \<Rightarrow> u64 \<Rightarrow> nat \<Rightarrow> ptr lruprog" where
  "new_handle key hash v charge del = (\<lambda>s. Inr (hnext s, s\<lparr>hnext := Suc (hnext s),
     handles := (handles s)(hnext s \<mapsto>
       \<lparr>e_value = v, e_deleter = del, e_charge = charge, e_key = key, e_in_cache = False, e_refs = 1, e_hash = hash\<rparr>)\<rparr>))"

text \<open>The part of \<^verbatim>\<open>Insert\<close> for a cache with a capacity.\<close>

definition link_new :: "ptr \<Rightarrow> u64 \<Rightarrow> unit lruprog" where
  "link_new p charge =
     andThen (upd_handle p (\<lambda>e. e\<lparr>e_refs := e_refs e + 1, e_in_cache := True\<rparr>)) (\<lambda>_.
     andThen (LRU_Append L_in_use p) (\<lambda>_.
     andThen (modify (\<lambda>s. s\<lparr>lc_usage := lc_usage s + charge\<rparr>)) (\<lambda>_.
     andThen (table_Insert p) (\<lambda>old.
     andThen (FinishErase old) (\<lambda>_. ret ())))))"

definition lru_Insert :: "bytes \<Rightarrow> u32 \<Rightarrow> ptr \<Rightarrow> u64 \<Rightarrow> nat \<Rightarrow> ptr lruprog" where
  "lru_Insert key hash v charge del =
     andThen (new_handle key hash v charge del) (\<lambda>p.
     andThen (gets lc_capacity) (\<lambda>cap.
     andThen (if 0 < cap then link_new p charge else ret ()) (\<lambda>_.
     andThen (gets (\<lambda>s. length (lc_lru s))) (\<lambda>n.
     andThen (evict_while (\<lambda>s. lc_capacity s < lc_usage s) n) (\<lambda>_. ret p)))))"

definition lru_Erase :: "bytes \<Rightarrow> u32 \<Rightarrow> unit lruprog" where
  "lru_Erase key hash = andThen (table_Remove (key, hash)) (\<lambda>p. andThen (FinishErase p) (\<lambda>_. ret ()))"

definition lru_Prune :: "unit lruprog" where
  "lru_Prune = andThen (gets (\<lambda>s. length (lc_lru s))) (evict_while (\<lambda>_. True))"

definition lru_TotalCharge :: "u64 lruprog" where
  "lru_TotalCharge = gets lc_usage"

text \<open>\<^verbatim>\<open>~LRUCache\<close>\<close>

definition LRUCache_destroy :: "unit lruprog" where
  "LRUCache_destroy =
     andThen (gets (\<lambda>s. (lc_in_use s = [], lc_lru s))) (\<lambda>(none, ps).
     andThen (require Aborted none) (\<lambda>_.
     foreach ps (\<lambda>p.
       andThen (handle_at p) (\<lambda>e.
       andThen (require Aborted (e_in_cache e)) (\<lambda>_.
       andThen (upd_handle p (\<lambda>e. e\<lparr>e_in_cache := False\<rparr>)) (\<lambda>_.
       andThen (require Aborted (e_refs e = 1)) (\<lambda>_. Unref p)))))))"


subsection \<open>The invariant of the cache\<close>

text \<open>\<open>held s p\<close>: the references to a handle that clients have and not given back.\<close>

definition held :: "LRUCache \<Rightarrow> ptr \<Rightarrow> nat" where
  "held s p = (case handles s p of None \<Rightarrow> 0 | Some e \<Rightarrow> unat (e_refs e) - (if e_in_cache e then 1 else 0))"

definition linked :: "LRUCache \<Rightarrow> ptr list" where
  "linked s = lc_lru s @ lc_in_use s"

definition charge_of :: "(ptr \<rightharpoonup> LRUHandle) \<Rightarrow> ptr \<Rightarrow> u64" where
  "charge_of h p = (case h p of None \<Rightarrow> 0 | Some e \<Rightarrow> e_charge e)"

text \<open>A handle is in one of the lists exactly if it is marked as cached; \<^verbatim>\<open>lru_\<close> has the ones that no
  client holds, \<^verbatim>\<open>in_use_\<close> the others.\<close>

definition handle_ok :: "LRUCache \<Rightarrow> ptr \<Rightarrow> LRUHandle \<Rightarrow> bool" where
  "handle_ok s p e \<longleftrightarrow> p \<noteq> 0 \<and> p < hnext s \<and> e_refs e \<noteq> 0
     \<and> (p \<in> set (lc_lru s) \<longleftrightarrow> e_in_cache e \<and> e_refs e = 1)
     \<and> (p \<in> set (lc_in_use s) \<longleftrightarrow> e_in_cache e \<and> e_refs e \<noteq> 1)"

definition links_ok :: "LRUCache \<Rightarrow> bool" where
  "links_ok s \<longleftrightarrow> 0 < hnext s \<and> distinct (linked s) \<and> set (linked s) \<subseteq> dom (handles s)
     \<and> (\<forall>p e. handles s p = Some e \<longrightarrow> handle_ok s p e)
     \<and> lc_usage s = sum_list (map (charge_of (handles s)) (linked s))"

text \<open>\<open>X\<close> has the entry that the hash table has given up and that is still to be erased.\<close>

definition lru_inv_but :: "ptr set \<Rightarrow> LRUCache \<Rightarrow> bool" where
  "lru_inv_but X s \<longleftrightarrow> links_ok s \<and> ht_inv (keyhash_of s) (lc_table s)
     \<and> X \<subseteq> set (linked s) \<and> ht_elts (lc_table s) = set (linked s) - X"

abbreviation lru_inv :: "LRUCache \<Rightarrow> bool" where "lru_inv \<equiv> lru_inv_but {}"

lemma linked_frame [simp]:
  "linked (s\<lparr>handles := h\<rparr>) = linked s" "linked (s\<lparr>lc_usage := u\<rparr>) = linked s"
  "linked (s\<lparr>lc_table := t\<rparr>) = linked s" "linked (s\<lparr>deleted := d\<rparr>) = linked s"
  "linked (s\<lparr>hnext := n\<rparr>) = linked s"
  by (simp_all add: linked_def)

lemma links_okD:
  assumes "links_ok s"
  shows "0 < hnext s" "distinct (linked s)" "p \<in> set (linked s) \<Longrightarrow> \<exists>e. handles s p = Some e"
    "handles s p = Some e \<Longrightarrow> handle_ok s p e"
    "lc_usage s = sum_list (map (charge_of (handles s)) (linked s))"
  using assms by (auto simp: links_ok_def)

lemma links_okI:
  assumes "0 < hnext s" "distinct (linked s)" "\<And>p. p \<in> set (linked s) \<Longrightarrow> \<exists>e. handles s p = Some e"
    "\<And>p e. handles s p = Some e \<Longrightarrow> handle_ok s p e"
    "lc_usage s = sum_list (map (charge_of (handles s)) (linked s))"
  shows "links_ok s"
  using assms by (auto simp: links_ok_def)

lemma handle_okD:
  assumes "handle_ok s p e"
  shows "p \<noteq> 0" "p < hnext s" "e_refs e \<noteq> 0" "p \<in> set (linked s) \<longleftrightarrow> e_in_cache e"
    "p \<in> set (lc_lru s) \<longleftrightarrow> e_in_cache e \<and> e_refs e = 1"
    "p \<in> set (lc_in_use s) \<longleftrightarrow> e_in_cache e \<and> e_refs e \<noteq> 1"
  using assms by (auto simp: handle_ok_def linked_def)

lemma upd_handle_run [simp]:
  "p \<noteq> 0 \<Longrightarrow> handles s p = Some e \<Longrightarrow> upd_handle p f s = Inr ((), s\<lparr>handles := (handles s)(p \<mapsto> f e)\<rparr>)"
  by (simp add: upd_handle_def)

lemma LRU_Remove_run [simp]:
  "p \<in> set (linked s) \<Longrightarrow>
     LRU_Remove p s = Inr ((), s\<lparr>lc_lru := remove1 p (lc_lru s), lc_in_use := remove1 p (lc_in_use s)\<rparr>)"
  by (simp add: LRU_Remove_def linked_def)

lemma LRU_Append_run [simp]:
  "LRU_Append L_lru p s = Inr ((), s\<lparr>lc_lru := lc_lru s @ [p]\<rparr>)"
  "LRU_Append L_in_use p s = Inr ((), s\<lparr>lc_in_use := lc_in_use s @ [p]\<rparr>)"
  by (simp_all add: LRU_Append_def)

text \<open>The keys are not touched while a handle is alive.\<close>

lemma keyhash_of_upd:
  "(\<And>e. e_key (f e) = e_key e \<and> e_hash (f e) = e_hash e) \<Longrightarrow> handles s p = Some e \<Longrightarrow>
     handles s' = (handles s)(p \<mapsto> f e) \<Longrightarrow> keyhash_of s' = keyhash_of s"
  by (auto simp: keyhash_of_def fun_eq_iff)

text \<open>An update of the cache that keeps the set of linked handles.\<close>

lemma charge_of_upd:
  "e_charge (f e) = e_charge e \<Longrightarrow> h p = Some e \<Longrightarrow> charge_of (h(p \<mapsto> f e)) = charge_of h"
  by (auto simp: charge_of_def fun_eq_iff)

lemma sum_list_remove1:
  "x \<in> set xs \<Longrightarrow> sum_list (map f xs) = f x + sum_list (map f (remove1 x xs))"
  for f :: "'a \<Rightarrow> 'b::comm_monoid_add"
  by (induction xs) (auto simp: ac_simps)

definition moved :: "lru_list \<Rightarrow> ptr \<Rightarrow> u32 \<Rightarrow> LRUHandle \<Rightarrow> LRUCache \<Rightarrow> LRUCache" where
  "moved l p n e s = s\<lparr>lc_lru := remove1 p (lc_lru s) @ (if l = L_lru then [p] else []),
      lc_in_use := remove1 p (lc_in_use s) @ (if l = L_in_use then [p] else []),
      handles := (handles s)(p \<mapsto> e\<lparr>e_refs := n\<rparr>)\<rparr>"

lemma moved_linked:
  assumes "links_ok s" "p \<in> set (linked s)"
  shows "mset (linked (moved l p n e s)) = mset (linked s)"
  using assms by (cases l) (auto simp: moved_def linked_def links_ok_def disjoint_iff intro!: diff_single_trivial)

lemma moved_links_ok:
  assumes ok: "links_ok s" and p: "handles s p = Some e" "e_in_cache e"
    and n: "n \<noteq> 0" "l = (if n = 1 then L_lru else L_in_use)"
  shows "links_ok (moved l p n e s)"
proof -
  note d = links_okD [OF ok]
  have in_s: "p \<in> set (linked s)" using handle_okD(4) [OF d(4) [OF p(1)]] p(2) by simp
  note m = moved_linked [OF ok in_s, of l n e]
  have "distinct (linked (moved l p n e s))" using m d(2) by (metis mset_eq_imp_distinct_iff)
  moreover have "set (linked (moved l p n e s)) = set (linked s)" using m by (metis set_mset_mset)
  moreover have "sum_list (map (charge_of (handles (moved l p n e s))) (linked (moved l p n e s)))
     = sum_list (map (charge_of (handles s)) (linked s))"
  proof -
    have "charge_of (handles (moved l p n e s)) = charge_of (handles s)"
      using p(1) by (simp add: moved_def charge_of_upd [of "\<lambda>e. e\<lparr>e_refs := n\<rparr>"])
    then show ?thesis using m by (metis mset_map sum_mset_sum_list)
  qed
  moreover have "handle_ok (moved l p n e s) q e'" if "handles (moved l p n e s) q = Some e'" for q e'
  proof (cases "q = p")
    case True
    then show ?thesis using that n p(2) handle_okD [OF d(4) [OF p(1)]] d(2)
      by (auto simp: handle_ok_def moved_def linked_def)
  next
    case False
    then have "handle_ok s q e'" using that d(4) by (simp add: moved_def)
    then show ?thesis using False by (auto simp: handle_ok_def moved_def)
  qed
  ultimately show ?thesis using d(1,3,5) p(1) by (auto simp: links_ok_def moved_def)
qed


definition refd :: "ptr \<Rightarrow> u32 \<Rightarrow> LRUHandle \<Rightarrow> LRUCache \<Rightarrow> LRUCache" where
  "refd p n e s = s\<lparr>handles := (handles s)(p \<mapsto> e\<lparr>e_refs := n\<rparr>)\<rparr>"

lemma refd_links_ok:
  assumes ok: "links_ok s" and p: "handles s p = Some e"
    and n: "n \<noteq> 0" "e_in_cache e \<Longrightarrow> n = 1 \<longleftrightarrow> e_refs e = 1"
  shows "links_ok (refd p n e s)"
proof -
  note d = links_okD [OF ok]
  have l: "linked (refd p n e s) = linked s" by (simp add: refd_def linked_def)
  have "charge_of (handles (refd p n e s)) = charge_of (handles s)"
    using p by (simp add: refd_def charge_of_upd [of "\<lambda>e. e\<lparr>e_refs := n\<rparr>"])
  moreover have "handle_ok (refd p n e s) q e'" if "handles (refd p n e s) q = Some e'" for q e'
    using that n d(4) [of q] d(4) [OF p] by (cases "q = p") (auto simp: handle_ok_def refd_def)
  ultimately show ?thesis using ok l p by (auto simp: links_ok_def) (auto simp: refd_def)
qed

text \<open>How a reference is taken and given back: only the count of the handle changes, and perhaps the
  list that it is in.\<close>

definition recount :: "ptr \<Rightarrow> u32 \<Rightarrow> LRUHandle \<Rightarrow> LRUCache \<Rightarrow> LRUCache" where
  "recount p n e s =
     (if e_in_cache e \<and> e_refs e = 1 \<and> n \<noteq> 1 then moved L_in_use p n e s
      else if e_in_cache e \<and> e_refs e \<noteq> 1 \<and> n = 1 then moved L_lru p n e s else refd p n e s)"

lemma recount_simps [simp]:
  "handles (recount p n e s) = (handles s)(p \<mapsto> e\<lparr>e_refs := n\<rparr>)"
  "lc_table (recount p n e s) = lc_table s" "lc_capacity (recount p n e s) = lc_capacity s"
  "lc_usage (recount p n e s) = lc_usage s" "hnext (recount p n e s) = hnext s"
  "deleted (recount p n e s) = deleted s"
  by (simp_all add: recount_def moved_def refd_def)

lemma keyhash_of_recount: "handles s p = Some e \<Longrightarrow> keyhash_of (recount p n e s) = keyhash_of s"
  by (rule keyhash_of_upd [of "\<lambda>e. e\<lparr>e_refs := n\<rparr>"]) simp_all

lemma recount_inv:
  assumes inv: "lru_inv_but X s" and p: "handles s p = Some e" and n: "n \<noteq> 0"
  shows "lru_inv_but X (recount p n e s)"
proof -
  have ok: "links_ok s" using inv by (simp add: lru_inv_but_def)
  have "links_ok (recount p n e s)"
    unfolding recount_def using moved_links_ok [OF ok p _ n] refd_links_ok [OF ok p n] by auto
  moreover have "set (linked (recount p n e s)) = set (linked s)"
    using moved_linked [OF ok, of p, THEN arg_cong [of _ _ set_mset]] handle_okD(4) [OF links_okD(4) [OF ok p]]
    by (simp add: recount_def refd_def linked_def)
  ultimately show ?thesis using inv keyhash_of_recount [OF p, of n] by (simp add: lru_inv_but_def)
qed

lemma Ref_run:
  assumes inv: "lru_inv_but X s" and p: "handles s p = Some e" and n: "e_refs e + 1 \<noteq> 1"
  shows "Ref p s = Inr ((), recount p (e_refs e + 1) e s)"
proof -
  note h = handle_okD [OF links_okD(4), OF _ p]
  have ok: "links_ok s" using inv by (simp add: lru_inv_but_def)
  then show ?thesis using h [OF ok] p n
    by (auto simp: Ref_def recount_def moved_def refd_def remove1_idem)
qed

lemma Unref_run:
  assumes inv: "lru_inv_but X s" and p: "handles s p = Some e" and n: "e_refs e - 1 \<noteq> 0"
  shows "Unref p s = Inr ((), recount p (e_refs e - 1) e s)"
proof -
  note h = handle_okD [OF links_okD(4), OF _ p]
  have ok: "links_ok s" using inv by (simp add: lru_inv_but_def)
  have "e_refs e - 1 \<noteq> 1 \<or> e_refs e \<noteq> 1" by auto
  then show ?thesis using h [OF ok] p n
    by (auto simp: Unref_def recount_def moved_def refd_def remove1_idem word_neq_0_conv [symmetric])
qed


text \<open>The last reference of a handle that is not cached: the deleter runs and the handle is freed.\<close>

definition freed :: "ptr \<Rightarrow> LRUHandle \<Rightarrow> LRUCache \<Rightarrow> LRUCache" where
  "freed p e s = s\<lparr>handles := (handles s)(p := None), deleted := deleted s @ [(e_deleter e, e_key e, e_value e)]\<rparr>"

lemma Unref_last:
  assumes p: "p \<noteq> 0" "handles s p = Some e" and e: "e_refs e = 1" "\<not> e_in_cache e"
  shows "Unref p s = Inr ((), freed p e s)"
  using assms by (simp add: Unref_def delete_handle_def freed_def)

lemma freed_inv:
  assumes inv: "lru_inv_but X s" and p: "handles s p = Some e" and e: "\<not> e_in_cache e"
  shows "lru_inv_but X (freed p e s)"
proof -
  have ok: "links_ok s" using inv by (simp add: lru_inv_but_def)
  have out: "p \<notin> set (linked s)" using handle_okD(4) [OF links_okD(4) [OF ok p]] e by simp
  have "sum_list (map (charge_of ((handles s)(p := None))) (linked s)) = lc_usage s"
    unfolding links_okD(5) [OF ok] using out by (intro arg_cong [where f = sum_list]) (auto simp: charge_of_def)
  then have "links_ok (freed p e s)"
  proof (intro links_okI)
    show "handle_ok (freed p e s) q e'" if "handles (freed p e s) q = Some e'" for q e'
      using that links_okD(4) [OF ok, of q e'] by (auto simp: handle_ok_def freed_def split: if_splits)
    show "\<exists>e'. handles (freed p e s) q = Some e'" if "q \<in> set (linked (freed p e s))" for q
      using that out links_okD(3) [OF ok, of q] by (cases "q = p") (auto simp: freed_def)
  qed (use links_okD(1,2) [OF ok] in \<open>simp_all add: freed_def\<close>)
  moreover have "ht_inv (keyhash_of (freed p e s)) (lc_table s)"
    by (rule tbl.inv_cong [where kh = "keyhash_of s"])
      (use inv out in \<open>auto simp: lru_inv_but_def keyhash_of_def freed_def\<close>)
  ultimately show ?thesis using inv by (simp add: lru_inv_but_def) (simp add: freed_def)
qed

text \<open>\<^verbatim>\<open>FinishErase\<close> unlinks an entry; clients that hold it keep it alive.\<close>

definition unlinked :: "ptr \<Rightarrow> LRUHandle \<Rightarrow> LRUCache \<Rightarrow> LRUCache" where
  "unlinked p e s = s\<lparr>lc_lru := remove1 p (lc_lru s), lc_in_use := remove1 p (lc_in_use s),
     handles := (handles s)(p \<mapsto> e\<lparr>e_in_cache := False\<rparr>), lc_usage := lc_usage s - e_charge e\<rparr>"

lemma unlinked_inv:
  assumes inv: "lru_inv_but X s" and p: "handles s p = Some e" "p \<in> X"
  shows "lru_inv_but (X - {p}) (unlinked p e s)"
proof -
  have ok: "links_ok s" and x: "X \<subseteq> set (linked s)" using inv by (auto simp: lru_inv_but_def)
  note d = links_okD [OF ok]
  have l: "linked (unlinked p e s) = remove1 p (linked s)"
    using d(2) by (simp add: linked_def unlinked_def remove1_append remove1_idem disjoint_iff)
  have "sum_list (map (charge_of (handles s)) (linked s)) = e_charge e + sum_list (map (charge_of (handles s)) (remove1 p (linked s)))"
    using sum_list_remove1 [of p "linked s" "charge_of (handles s)"] x p by (auto simp: charge_of_def)
  then have u: "lc_usage (unlinked p e s) = sum_list (map (charge_of (handles s)) (remove1 p (linked s)))"
    using d(5) by (simp add: unlinked_def)
  have c: "charge_of (handles (unlinked p e s)) = charge_of (handles s)"
    using p by (simp add: unlinked_def charge_of_upd [of "\<lambda>e. e\<lparr>e_in_cache := False\<rparr>"])
  have "links_ok (unlinked p e s)"
  proof (rule links_okI)
    show "handle_ok (unlinked p e s) q e'" if "handles (unlinked p e s) q = Some e'" for q e'
      using that d(4) [of q e'] d(4) [OF p(1)] d(2)
      by (cases "q = p") (auto simp: handle_ok_def unlinked_def linked_def)
    show "\<exists>e'. handles (unlinked p e s) q = Some e'" if "q \<in> set (linked (unlinked p e s))" for q
      using that d(2) d(3) [of q] by (auto simp: l) (auto simp: unlinked_def)
  qed (use u l c d(1,2) in \<open>simp_all add: unlinked_def\<close>)
  moreover have "keyhash_of (unlinked p e s) = keyhash_of s"
    by (rule keyhash_of_upd [of "\<lambda>e. e\<lparr>e_in_cache := False\<rparr>"]) (simp_all add: p unlinked_def)
  moreover have "set (linked (unlinked p e s)) = set (linked s) - {p}" using l d(2) by simp
  ultimately show ?thesis using inv x p(2) by (auto simp: lru_inv_but_def unlinked_def)
qed

lemma FinishErase_run:
  assumes inv: "lru_inv_but X s" and p: "handles s p = Some e" "p \<in> X"
  shows "\<exists>s'. FinishErase p s = Inr (True, s') \<and> lru_inv_but (X - {p}) s'
    \<and> s' = (if e_refs e = 1 then freed p e (unlinked p e s) else refd p (e_refs e - 1) (e\<lparr>e_in_cache := False\<rparr>) (unlinked p e s))"
proof -
  have ok: "links_ok s" and x: "p \<in> set (linked s)" using inv p by (auto simp: lru_inv_but_def)
  note h = handle_okD [OF links_okD(4) [OF ok p(1)]]
  let ?u = "unlinked p e s" and ?e = "e\<lparr>e_in_cache := False\<rparr>"
  have e: "handles ?u p = Some ?e" by (simp add: unlinked_def)
  note i = unlinked_inv [OF inv p]
  have "FinishErase p s = (case Unref p ?u of Inl f \<Rightarrow> Inl f | Inr (x, s') \<Rightarrow> Inr (True, s'))"
    using h x p by (simp add: FinishErase_def unlinked_def andThen_apply split: sum.splits)
  moreover have "Unref p ?u = Inr ((), if e_refs e = 1 then freed p e ?u else refd p (e_refs e - 1) ?e ?u)"
    using Unref_last [OF h(1) e] Unref_run [OF i e] by (auto simp: freed_def recount_def)
  moreover have "lru_inv_but (X - {p}) (freed p e ?u)"
    using freed_inv [OF i e] by (simp add: freed_def)
  moreover have "lru_inv_but (X - {p}) (refd p (e_refs e - 1) ?e ?u)" if "e_refs e \<noteq> 1"
    using recount_inv [OF i e, of "e_refs e - 1"] that by (simp add: recount_def)
  ultimately show ?thesis by auto
qed


text \<open>Taking an entry out of the table and erasing it.\<close>

definition erased :: "ptr \<Rightarrow> LRUHandle \<Rightarrow> LRUCache \<Rightarrow> LRUCache" where
  "erased p e s = (if e_refs e = 1 then freed p e (unlinked p e s)
     else refd p (e_refs e - 1) (e\<lparr>e_in_cache := False\<rparr>) (unlinked p e s))"

lemma erased_simps [simp]:
  "lc_lru (erased p e s) = remove1 p (lc_lru s)" "lc_in_use (erased p e s) = remove1 p (lc_in_use s)"
  "lc_usage (erased p e s) = lc_usage s - e_charge e" "lc_capacity (erased p e s) = lc_capacity s"
  "lc_table (erased p e s) = lc_table s" "hnext (erased p e s) = hnext s"
  "handles (erased p e s) = (handles s)(p := if e_refs e = 1 then None
     else Some (e\<lparr>e_in_cache := False, e_refs := e_refs e - 1\<rparr>))"
  "deleted (erased p e s) = deleted s @ (if e_refs e = 1 then [(e_deleter e, e_key e, e_value e)] else [])"
  by (simp_all add: erased_def freed_def unlinked_def refd_def)

lemma keyhash_of_Some: "handles s p = Some e \<Longrightarrow> keyhash_of s p = (e_key e, e_hash e)"
  by (simp add: keyhash_of_def)

lemma linked_handle:
  assumes "lru_inv_but X s" "p \<in> set (linked s)"
  obtains e where "handles s p = Some e" "e_in_cache e" "p \<noteq> 0" "p < hnext s"
proof -
  have ok: "links_ok s" using assms(1) by (simp add: lru_inv_but_def)
  from links_okD(3) [OF ok assms(2)] obtain e where e: "handles s p = Some e" by blast
  from handle_okD [OF links_okD(4) [OF ok e]] assms(2) show ?thesis using that e by blast
qed

lemma erase_run:
  assumes inv: "lru_inv s" and p: "p \<in> set (linked s)" "handles s p = Some e"
  shows "\<exists>t. table_Remove (e_key e, e_hash e) s = Inr (p, s\<lparr>lc_table := t\<rparr>)
    \<and> FinishErase p (s\<lparr>lc_table := t\<rparr>) = Inr (True, erased p e (s\<lparr>lc_table := t\<rparr>))
    \<and> lru_inv (erased p e (s\<lparr>lc_table := t\<rparr>))"
proof -
  let ?k = "(e_key e, e_hash e)"
  let ?t = "snd (ht_Remove (keyhash_of s) (lc_table s) ?k)"
  have i: "ht_inv (keyhash_of s) (lc_table s)" "links_ok s" and el: "ht_elts (lc_table s) = set (linked s)"
    using inv by (auto simp: lru_inv_but_def)
  have k: "keyhash_of s p = ?k" using p(2) by (rule keyhash_of_Some)
  have r: "fst (ht_Remove (keyhash_of s) (lc_table s) ?k) = p" "ht_elts ?t = set (linked s) - {p}"
    using tbl.rem_elem [OF i(1), of p] p(1) by (simp_all add: k el)
  have "links_ok (s\<lparr>lc_table := ?t\<rparr>)" using i(2) by (auto simp: links_ok_def handle_ok_def)
  moreover have "keyhash_of (s\<lparr>lc_table := ?t\<rparr>) = keyhash_of s" by (simp add: keyhash_of_def fun_eq_iff)
  ultimately have "lru_inv_but {p} (s\<lparr>lc_table := ?t\<rparr>)"
    using r(2) p(1) tbl.rem_ok [OF i(1), of ?k] by (simp add: lru_inv_but_def)
  from FinishErase_run [OF this, of p e] p(2) r(1) show ?thesis
    by (auto simp: table_Remove_def erased_def Let_def intro!: exI [of _ ?t])
qed

lemma evict_oldest_run:
  assumes inv: "lru_inv s" and l: "lc_lru s = p # ps"
  obtains e t where "handles s p = Some e" "e_refs e = 1" "p \<noteq> 0"
    "evict_oldest s = Inr ((), erased p e (s\<lparr>lc_table := t\<rparr>))" "lru_inv (erased p e (s\<lparr>lc_table := t\<rparr>))"
proof -
  have in_s: "p \<in> set (linked s)" using l by (simp add: linked_def)
  then obtain e where e: "handles s p = Some e" "p \<noteq> 0" using linked_handle [OF inv] by blast
  have ok: "links_ok s" using inv by (simp add: lru_inv_but_def)
  have r: "e_refs e = 1" using handle_okD(5) [OF links_okD(4) [OF ok e(1)]] l by simp
  from erase_run [OF inv in_s e(1)] obtain t where
    t: "table_Remove (e_key e, e_hash e) s = Inr (p, s\<lparr>lc_table := t\<rparr>)"
      "FinishErase p (s\<lparr>lc_table := t\<rparr>) = Inr (True, erased p e (s\<lparr>lc_table := t\<rparr>))"
      "lru_inv (erased p e (s\<lparr>lc_table := t\<rparr>))" by blast
  have "evict_oldest s = Inr ((), erased p e (s\<lparr>lc_table := t\<rparr>))"
    using l e r t(1,2) by (simp add: evict_oldest_def)
  then show ?thesis using that e r t(3) by blast
qed

text \<open>How many entries the loop frees: the charge of each one is taken off the usage.\<close>

fun evict_count :: "(u64 \<Rightarrow> bool) \<Rightarrow> u64 \<Rightarrow> u64 list \<Rightarrow> nat" where
  "evict_count Q u [] = 0"
| "evict_count Q u (c # cs) = (if Q u then Suc (evict_count Q (u - c) cs) else 0)"

definition del_of :: "(ptr \<rightharpoonup> LRUHandle) \<Rightarrow> ptr \<Rightarrow> nat \<times> bytes \<times> ptr" where
  "del_of h p = (case h p of None \<Rightarrow> (0, [], 0) | Some e \<Rightarrow> (e_deleter e, e_key e, e_value e))"

text \<open>\<open>evicted k s s'\<close>: the \<open>k\<close> oldest entries of \<^verbatim>\<open>lru_\<close> have been freed, nothing else has changed.\<close>

definition evicted :: "nat \<Rightarrow> LRUCache \<Rightarrow> LRUCache \<Rightarrow> bool" where
  "evicted k s s' \<longleftrightarrow> lc_lru s' = drop k (lc_lru s) \<and> lc_in_use s' = lc_in_use s
     \<and> handles s' = (\<lambda>p. if p \<in> set (take k (lc_lru s)) then None else handles s p)
     \<and> lc_usage s' = lc_usage s - sum_list (map (charge_of (handles s)) (take k (lc_lru s)))
     \<and> deleted s' = deleted s @ map (del_of (handles s)) (take k (lc_lru s))
     \<and> lc_capacity s' = lc_capacity s \<and> hnext s' = hnext s"

lemma evicted_0: "evicted 0 s s"
  by (simp add: evicted_def)

lemma evicted_Suc:
  assumes l: "lc_lru s = p # ps" "distinct (lc_lru s)" "p \<notin> set (lc_in_use s)"
    and e: "handles s p = Some e" "e_refs e = 1"
    and r: "evicted k (erased p e (s\<lparr>lc_table := t\<rparr>)) s'"
  shows "evicted (Suc k) s s'"
proof -
  have q: "q \<noteq> p" if "q \<in> set (take k ps)" for q using that l(1,2) in_set_takeD by fastforce
  then have "map (charge_of ((handles s)(p := None))) (take k ps) = map (charge_of (handles s)) (take k ps)"
    "map (del_of ((handles s)(p := None))) (take k ps) = map (del_of (handles s)) (take k ps)"
    by (auto simp: charge_of_def del_of_def)
  then show ?thesis using assms
    by (auto simp: evicted_def charge_of_def [of _ p] del_of_def [of _ p] remove1_idem fun_eq_iff simp del: map_eq_conv)
qed


lemma evict_while_run:
  assumes "lru_inv s" "\<And>u. lc_capacity u = lc_capacity s \<Longrightarrow> P u = Q (lc_usage u)" "length (lc_lru s) \<le> n"
  shows "\<exists>s'. evict_while P n s = Inr ((), s') \<and> lru_inv s'
    \<and> evicted (evict_count Q (lc_usage s) (map (charge_of (handles s)) (lc_lru s))) s s'"
  using assms
proof (induction n arbitrary: s)
  case 0
  then show ?case by (simp add: evicted_0)
next
  case (Suc n)
  show ?case
  proof (cases "lc_lru s = [] \<or> \<not> Q (lc_usage s)")
    case True
    then have "evict_count Q (lc_usage s) (map (charge_of (handles s)) (lc_lru s)) = 0"
      by (cases "lc_lru s") auto
    then show ?thesis using True Suc.prems(1,2) by (auto simp: evicted_0)
  next
    case False
    then obtain p ps where l: "lc_lru s = p # ps" by (cases "lc_lru s") auto
    from evict_oldest_run [OF Suc.prems(1) l] obtain e t where e: "handles s p = Some e" "e_refs e = 1"
      and run: "evict_oldest s = Inr ((), erased p e (s\<lparr>lc_table := t\<rparr>))"
      and inv: "lru_inv (erased p e (s\<lparr>lc_table := t\<rparr>))" by blast
    let ?s = "erased p e (s\<lparr>lc_table := t\<rparr>)"
    have d: "distinct (lc_lru s)" "p \<notin> set (lc_in_use s)"
      using Suc.prems(1) l by (auto simp: lru_inv_but_def links_ok_def linked_def)
    have m: "map (charge_of (handles ?s)) (lc_lru ?s) = map (charge_of (handles s)) ps"
      using d l e by (auto simp: charge_of_def)
    have "\<And>u. lc_capacity u = lc_capacity ?s \<Longrightarrow> P u = Q (lc_usage u)" "length (lc_lru ?s) \<le> n"
      using Suc.prems(2,3) l by auto
    from Suc.IH [OF inv this] obtain s' where s': "evict_while P n ?s = Inr ((), s')" "lru_inv s'"
      "evicted (evict_count Q (lc_usage ?s) (map (charge_of (handles ?s)) (lc_lru ?s))) ?s s'" by blast
    have "evict_count Q (lc_usage s) (map (charge_of (handles s)) (lc_lru s))
       = Suc (evict_count Q (lc_usage ?s) (map (charge_of (handles ?s)) (lc_lru ?s)))"
      unfolding m using False l e by (simp add: charge_of_def [of _ p])
    then show ?thesis using evicted_Suc [OF l d e s'(3)] s'(1,2) run False Suc.prems(2) by simp
  qed
qed

lemma evict_count_enough:
  "k = evict_count Q u cs \<Longrightarrow> k \<le> length cs \<and> (k = length cs \<or> \<not> Q (u - sum_list (take k cs)))
     \<and> (\<forall>j < k. Q (u - sum_list (take j cs)))"
proof (induction cs arbitrary: u k)
  case (Cons c cs)
  show ?case
  proof (cases "Q u")
    case True
    define j where "j = evict_count Q (u - c) cs"
    from Cons.IH [OF j_def] show ?thesis using Cons.prems True j_def
      by (auto simp: take_Cons' less_Suc_eq_0_disj algebra_simps)
  qed (use Cons.prems in auto)
qed simp


subsection \<open>What clients see\<close>

definition content :: "LRUCache \<Rightarrow> keyhash \<Rightarrow> ptr option" where
  "content s k = (let p = ht_Lookup (keyhash_of s) (lc_table s) k in
     if p = 0 then None else map_option e_value (handles s p))"

definition value_of :: "LRUCache \<Rightarrow> ptr \<Rightarrow> ptr option" where
  "value_of s p = map_option e_value (handles s p)"

lemma lookup_cases:
  assumes inv: "lru_inv s"
  obtains (none) "ht_Lookup (keyhash_of s) (lc_table s) k = 0" "content s k = None"
      "\<And>p e. p \<in> set (linked s) \<Longrightarrow> handles s p = Some e \<Longrightarrow> (e_key e, e_hash e) \<noteq> k"
  | (some) p e where "ht_Lookup (keyhash_of s) (lc_table s) k = p" "p \<noteq> 0" "p \<in> set (linked s)"
      "handles s p = Some e" "(e_key e, e_hash e) = k" "content s k = Some (e_value e)"
proof -
  have i: "ht_inv (keyhash_of s) (lc_table s)" and el: "ht_elts (lc_table s) = set (linked s)"
    using inv by (auto simp: lru_inv_but_def)
  let ?p = "ht_Lookup (keyhash_of s) (lc_table s) k"
  from i show thesis
  proof (cases rule: tbl.look_cases [where k = k])
    case 1
    have "(e_key e, e_hash e) \<noteq> k" if "p \<in> set (linked s)" "handles s p = Some e" for p e
      using 1(2) that el keyhash_of_Some [of s p e] by auto
    then show thesis using none [OF 1(1)] 1(1) by (simp add: content_def)
  next
    case 2
    then have p: "?p \<in> set (linked s)" using el by simp
    then obtain e where e: "handles s ?p = Some e" "?p \<noteq> 0" using linked_handle [OF inv] by blast
    then have "(e_key e, e_hash e) = k" using 2(2) by (simp add: keyhash_of_Some)
    then show thesis using some [OF refl e(2) p e(1)] e by (simp add: content_def Let_def)
  qed
qed

lemma content_Some:
  assumes inv: "lru_inv s"
  shows "content s k = Some v \<longleftrightarrow>
    (\<exists>p e. p \<in> set (linked s) \<and> handles s p = Some e \<and> (e_key e, e_hash e) = k \<and> e_value e = v)"
  using inv
proof (cases rule: lookup_cases [where k = k])
  case none
  then show ?thesis by auto
next
  case (some p e)
  have "q = p" if "q \<in> set (linked s)" "handles s q = Some e'" "(e_key e', e_hash e') = k" for q e'
    using that some inv tbl.inj [of "keyhash_of s" "lc_table s" q p]
    by (simp add: lru_inv_but_def keyhash_of_Some)
  then show ?thesis using some by (metis option.inject)
qed

text \<open>The content depends on the linked handles only.\<close>

definition entry :: "LRUCache \<Rightarrow> ptr \<Rightarrow> (keyhash \<times> ptr) option" where
  "entry s p = map_option (\<lambda>e. ((e_key e, e_hash e), e_value e)) (handles s p)"

lemma content_entry:
  assumes inv: "lru_inv s"
  shows "content s k = Some v \<longleftrightarrow> (\<exists>p \<in> set (linked s). entry s p = Some (k, v))"
  unfolding content_Some [OF inv] entry_def by fastforce

lemma content_eq:
  assumes "lru_inv s" "lru_inv s'"
    and "\<And>p v. p \<in> set (linked s) \<Longrightarrow> entry s p = Some (k, v) \<Longrightarrow> p \<in> set (linked s') \<and> entry s' p = Some (k, v)"
    and "\<And>p v. p \<in> set (linked s') \<Longrightarrow> entry s' p = Some (k, v) \<Longrightarrow> p \<in> set (linked s) \<and> entry s p = Some (k, v)"
  shows "content s' k = content s k"
proof -
  have "content s' k = Some v \<longleftrightarrow> content s k = Some v" for v
    unfolding content_entry [OF assms(1)] content_entry [OF assms(2)] using assms(3,4) by blast
  then show ?thesis by (metis not_Some_eq)
qed

lemma content_sub:
  assumes "lru_inv s" "lru_inv s'"
    and "\<And>p v. p \<in> set (linked s') \<Longrightarrow> entry s' p = Some (k, v) \<Longrightarrow> p \<in> set (linked s) \<and> entry s p = Some (k, v)"
  shows "content s' k = None \<or> content s' k = content s k"
proof (cases "content s' k")
  case (Some v)
  then have "content s k = Some v"
    using assms(3) unfolding content_entry [OF assms(1)] content_entry [OF assms(2)] by blast
  with Some show ?thesis by simp
qed simp

lemma entry_recount: "handles s p = Some e \<Longrightarrow> entry (recount p n e s) q = entry s q"
  by (simp add: entry_def)

lemma linked_recount:
  assumes inv: "lru_inv_but X s" and p: "handles s p = Some e"
  shows "set (linked (recount p n e s)) = set (linked s)"
proof -
  have ok: "links_ok s" using inv by (simp add: lru_inv_but_def)
  show ?thesis
    using moved_linked [OF ok, of p, THEN arg_cong [of _ _ set_mset]] handle_okD(4) [OF links_okD(4) [OF ok p]]
    by (simp add: recount_def refd_def linked_def)
qed

lemma content_recount:
  assumes inv: "lru_inv s" and p: "handles s p = Some e" and n: "n \<noteq> 0"
  shows "content (recount p n e s) = content s"
  by (rule ext, rule content_eq [OF inv recount_inv [OF inv p n]])
    (simp_all add: entry_recount [OF p] linked_recount [OF inv p])

text \<open>\<^verbatim>\<open>Lookup\<close> and \<^verbatim>\<open>Release\<close>\<close>

lemma lru_Lookup_none:
  assumes inv: "lru_inv s" and k: "content s (key, hash) = None"
  shows "lru_Lookup key hash s = Inr (0, s)"
  using inv by (cases rule: lookup_cases [where k = "(key, hash)"]) (use k in \<open>auto simp: lru_Lookup_def\<close>)

lemma lru_Lookup_some:
  assumes inv: "lru_inv s" and k: "content s (key, hash) = Some v" and room: "\<And>p. held s p < 2 ^ 32 - 2"
  obtains p e where "handles s p = Some e" "e_value e = v" "p \<noteq> 0" "e_refs e + 1 \<noteq> 0"
    "lru_Lookup key hash s = Inr (p, recount p (e_refs e + 1) e s)" "p \<in> set (linked s)" "(e_key e, e_hash e) = (key, hash)"
  using inv
proof (cases rule: lookup_cases [where k = "(key, hash)"])
  case none
  with k show ?thesis by simp
next
  case (some p e)
  have ok: "links_ok s" using inv by (simp add: lru_inv_but_def)
  note h = handle_okD [OF links_okD(4) [OF ok some(4)]]
  have "unat (e_refs e) < 2 ^ 32 - 1" using room [of p] some(4) by (auto simp: held_def split: if_splits)
  then have n: "e_refs e + 1 \<noteq> 0" using unat_eq_0 [of "e_refs e + 1"] unat_add_lem [of "e_refs e" 1] by simp
  have "e_refs e + 1 \<noteq> 1" using h(3) by simp
  from Ref_run [OF inv some(4) this] show ?thesis using that [OF some(4) _ some(2) n _ some(3,5)] some k
    by (auto simp: lru_Lookup_def)
qed


lemma held_recount:
  "handles s p = Some e \<Longrightarrow> held (recount p n e s) q = (if q = p then unat n - (if e_in_cache e then 1 else 0) else held s q)"
  by (simp add: held_def)

lemma held_take:
  assumes inv: "lru_inv_but X s" and p: "handles s p = Some e" and n: "e_refs e + 1 \<noteq> 0"
  shows "held (recount p (e_refs e + 1) e s) = (held s)(p := held s p + 1)"
proof -
  have ok: "links_ok s" using inv by (simp add: lru_inv_but_def)
  have "0 < unat (e_refs e)" using handle_okD(3) [OF links_okD(4) [OF ok p]] unat_gt_0 by blast
  moreover have "unat (e_refs e + 1) = unat (e_refs e) + 1" using n by (intro unat_add_one) auto
  ultimately show ?thesis using held_recount [OF p] p by (auto simp: fun_eq_iff held_def)
qed

lemma held_give:
  assumes p: "handles s p = Some e" and n: "0 < held s p"
  shows "held (recount p (e_refs e - 1) e s) = (held s)(p := held s p - 1)"
proof -
  have "0 < unat (e_refs e)" using p n by (simp add: held_def split: if_splits)
  then have "unat (e_refs e - 1) = unat (e_refs e) - 1" by (intro unat_minus_one) auto
  then show ?thesis using held_recount [OF p] p by (auto simp: fun_eq_iff held_def)
qed

text \<open>\<open>stable s s'\<close>: no handle has changed its key or its value, and no one that a client holds is gone.\<close>

definition stable :: "LRUCache \<Rightarrow> LRUCache \<Rightarrow> bool" where
  "stable s s' \<longleftrightarrow> (\<forall>q. entry s' q = None \<or> entry s' q = entry s q) \<and> (\<forall>q. 0 < held s' q \<longrightarrow> entry s' q = entry s q)
     \<and> lc_capacity s' = lc_capacity s \<and> hnext s' = hnext s"

lemma stable_recount: "handles s p = Some e \<Longrightarrow> stable s (recount p n e s)"
  by (simp add: stable_def entry_recount)

lemma lru_Release_run:
  assumes inv: "lru_inv s" and p: "0 < held s p"
  obtains s' where "lru_Release p s = Inr ((), s')" "lru_inv s'" "content s' = content s"
    "held s' = (held s)(p := held s p - 1)" "stable s s'"
proof -
  from p obtain e where e: "handles s p = Some e" by (auto simp: held_def split: option.splits)
  have ok: "links_ok s" using inv by (simp add: lru_inv_but_def)
  note h = handle_okD [OF links_okD(4) [OF ok e]]
  show thesis
  proof (cases "e_refs e = 1")
    case True
    then have c: "\<not> e_in_cache e" using p e by (auto simp: held_def split: if_splits)
    then have out: "p \<notin> set (linked s)" using h(4) by simp
    have i: "lru_inv (freed p e s)" using freed_inv [OF inv e c] .
    have en: "entry (freed p e s) q = (if q = p then None else entry s q)" for q by (simp add: entry_def freed_def)
    have l: "linked (freed p e s) = linked s" by (simp add: freed_def)
    have hd: "held (freed p e s) = (held s)(p := held s p - 1)"
      using True c e by (auto simp: held_def freed_def fun_eq_iff)
    have "content (freed p e s) k = content s k" for k
      by (rule content_eq [OF inv i]) (use out in \<open>auto simp: l en split: if_splits\<close>)
    then have "content (freed p e s) = content s" by (rule ext)
    moreover have "stable s (freed p e s)" using True c e by (auto simp: stable_def en hd held_def) (simp_all add: freed_def)
    moreover have "lru_Release p s = Inr ((), freed p e s)"
      unfolding lru_Release_def using h(1) e True c by (rule Unref_last)
    ultimately show thesis using that i hd by blast
  next
    case False
    then have n: "e_refs e - 1 \<noteq> 0" by simp
    show thesis using that [of "recount p (e_refs e - 1) e s"] Unref_run [OF inv e n] recount_inv [OF inv e n]
      content_recount [OF inv e n] held_give [OF e p] stable_recount [OF e] by (simp add: lru_Release_def)
  qed
qed


text \<open>\<^verbatim>\<open>Insert\<close>: the new handle is linked first.\<close>

definition new_entry :: "keyhash \<Rightarrow> ptr \<Rightarrow> u64 \<Rightarrow> nat \<Rightarrow> LRUHandle" where
  "new_entry k v charge del = \<lparr>e_value = v, e_deleter = del, e_charge = charge, e_key = fst k, e_in_cache = True,
     e_refs = 2, e_hash = snd k\<rparr>"

definition entered :: "LRUHandle \<Rightarrow> LRUCache \<Rightarrow> LRUCache" where
  "entered e s = s\<lparr>hnext := Suc (hnext s), handles := (handles s)(hnext s \<mapsto> e),
     lc_in_use := lc_in_use s @ [hnext s], lc_usage := lc_usage s + e_charge e\<rparr>"

lemma hnext_new:
  assumes "lru_inv_but X s"
  shows "handles s (hnext s) = None" "hnext s \<notin> set (linked s)" "hnext s \<noteq> 0"
proof -
  have ok: "links_ok s" using assms by (simp add: lru_inv_but_def)
  show n: "handles s (hnext s) = None"
    using handle_okD(2) [OF links_okD(4) [OF ok, of "hnext s"]] by (cases "handles s (hnext s)") auto
  then show "hnext s \<notin> set (linked s)" using links_okD(3) [OF ok] by fastforce
  show "hnext s \<noteq> 0" using links_okD(1) [OF ok] by simp
qed

lemma linked_entered: "set (linked (entered e s)) = insert (hnext s) (set (linked s))"
  by (auto simp: linked_def entered_def)

lemma entered_links_ok:
  assumes inv: "lru_inv s" and e: "e_in_cache e" "e_refs e = 2"
  shows "links_ok (entered e s)"
proof (rule links_okI)
  have ok: "links_ok s" using inv by (simp add: lru_inv_but_def)
  note d = links_okD [OF ok] and n = hnext_new [OF inv]
  have l: "linked (entered e s) = linked s @ [hnext s]" by (simp add: linked_def entered_def)
  show "0 < hnext (entered e s)" "distinct (linked (entered e s))" using d(2) n l by (auto simp: entered_def)
  show "\<exists>e'. handles (entered e s) q = Some e'" if "q \<in> set (linked (entered e s))" for q
    using that d(3) [of q] unfolding l by (auto simp: entered_def)
  show "handle_ok (entered e s) q e'" if "handles (entered e s) q = Some e'" for q e'
  proof (cases "q = hnext s")
    case True
    then show ?thesis using that e n by (auto simp: handle_ok_def entered_def linked_def)
  next
    case False
    then show ?thesis using that d(4) [of q e'] by (auto simp: handle_ok_def entered_def)
  qed
  have "sum_list (map (charge_of (handles (entered e s))) (linked s)) = lc_usage s"
    unfolding d(5) using n(2) by (intro arg_cong [where f = sum_list]) (auto simp: charge_of_def entered_def)
  then show "lc_usage (entered e s) = sum_list (map (charge_of (handles (entered e s))) (linked (entered e s)))"
    by (simp add: l) (simp add: entered_def charge_of_def [of _ "hnext s"])
qed

lemma table_Insert_run:
  assumes inv: "lru_inv s" and e: "e_in_cache e" "e_refs e = 2"
  obtains (fresh) t where "table_Insert (hnext s) (entered e s) = Inr (0, (entered e s)\<lparr>lc_table := t\<rparr>)"
      "lru_inv ((entered e s)\<lparr>lc_table := t\<rparr>)" "content s (e_key e, e_hash e) = None"
  | (again) t old eo where "table_Insert (hnext s) (entered e s) = Inr (old, (entered e s)\<lparr>lc_table := t\<rparr>)"
      "lru_inv_but {old} ((entered e s)\<lparr>lc_table := t\<rparr>)" "handles s old = Some eo" "old \<in> set (linked s)"
      "(e_key eo, e_hash eo) = (e_key e, e_hash e)"
proof -
  note n = hnext_new [OF inv]
  let ?s = "entered e s" and ?k = "(e_key e, e_hash e)"
  have i: "ht_inv (keyhash_of s) (lc_table s)" and el: "ht_elts (lc_table s) = set (linked s)"
    using inv by (auto simp: lru_inv_but_def)
  have kh: "keyhash_of ?s q = keyhash_of s q" if "q \<noteq> hnext s" for q using that by (simp add: keyhash_of_def entered_def)
  have kp: "keyhash_of ?s (hnext s) = ?k" by (simp add: keyhash_of_def entered_def)
  have i': "ht_inv (keyhash_of ?s) (lc_table s)"
    by (rule tbl.inv_cong [OF _ i]) (metis kh el n(2))
  have out: "hnext s \<notin> ht_elts (lc_table s)" using el n(2) by simp
  define t where "t = snd (ht_Insert (keyhash_of ?s) (lc_table s) (hnext s))"
  note r = tbl.ins_ok [OF i' out, folded t_def, unfolded kp]
  have run: "table_Insert (hnext s) ?s = Inr (ht_Lookup (keyhash_of ?s) (lc_table s) ?k, ?s\<lparr>lc_table := t\<rparr>)"
    using r by (simp add: table_Insert_def Let_def t_def) (simp add: entered_def)
  have ok: "links_ok (?s\<lparr>lc_table := t\<rparr>)"
    using entered_links_ok [OF inv e] by (auto simp: links_ok_def handle_ok_def)
  have khs: "keyhash_of (?s\<lparr>lc_table := t\<rparr>) = keyhash_of ?s" by (simp add: keyhash_of_def fun_eq_iff)
  from i' show thesis
  proof (cases rule: tbl.look_cases [where k = ?k])
    case 1
    then have "ht_elts t = set (linked ?s)" using r el by (auto simp: linked_entered)
    then have "lru_inv (?s\<lparr>lc_table := t\<rparr>)" using ok r khs by (simp add: lru_inv_but_def)
    moreover have "content s ?k = None"
      using inv
    proof (cases rule: lookup_cases [where k = ?k])
      case (some p e')
      have "p \<noteq> hnext s" using some(3) n(2) by blast
      then have "keyhash_of ?s p = ?k" using kh [of p] keyhash_of_Some [OF some(4)] some(5) by simp
      then show ?thesis using 1(2) el some(3) by blast
    qed
    ultimately show thesis using fresh run 1(1) by simp
  next
    case 2
    let ?old = "ht_Lookup (keyhash_of ?s) (lc_table s) ?k"
    have o: "?old \<in> set (linked s)" using 2(1) el by simp
    then obtain eo where eo: "handles s ?old = Some eo" using linked_handle [OF inv] by blast
    have ne: "?old \<noteq> hnext s" using o n(2) by metis
    have "{q \<in> ht_elts (lc_table s). keyhash_of ?s q \<noteq> ?k} = ht_elts (lc_table s) - {?old}"
      using tbl.inj [OF i' _ 2(1)] 2(2) by auto
    then have "ht_elts t = set (linked ?s) - {?old}" using r el ne by (auto simp: linked_entered)
    then have "lru_inv_but {?old} (?s\<lparr>lc_table := t\<rparr>)" using ok r khs o by (simp add: lru_inv_but_def linked_entered)
    then show thesis using again [OF run _ eo o] 2(2) kh [OF ne] keyhash_of_Some [OF eo] by simp
  qed
qed


text \<open>\<open>shrunk s s'\<close>: entries have left the cache; what clients hold is the same.\<close>

definition shrunk :: "LRUCache \<Rightarrow> LRUCache \<Rightarrow> bool" where
  "shrunk s s' \<longleftrightarrow> lru_inv s' \<and> stable s s' \<and> held s' = held s \<and> set (linked s') \<subseteq> set (linked s)"

lemma shrunkD:
  assumes "shrunk s s'"
  shows "lru_inv s'" "entry s' q = None \<or> entry s' q = entry s q" "0 < held s q \<Longrightarrow> entry s' q = entry s q"
    "held s' = held s" "q \<in> set (linked s') \<Longrightarrow> q \<in> set (linked s)"
    "lc_capacity s' = lc_capacity s" "hnext s' = hnext s"
  using assms by (auto simp: shrunk_def stable_def)

lemma shrunk_refl: "lru_inv s \<Longrightarrow> shrunk s s"
  by (simp add: shrunk_def stable_def)

lemma shrunk_trans: "shrunk s t \<Longrightarrow> shrunk t u \<Longrightarrow> shrunk s u"
  by (simp add: shrunk_def stable_def) (metis subset_trans)

lemma content_shrunk:
  assumes "lru_inv s" "shrunk s s'"
  shows "content s' k = None \<or> content s' k = content s k"
  by (rule content_sub [OF assms(1) shrunkD(1) [OF assms(2)]]) (metis shrunkD(2,5) [OF assms(2)] option.distinct(1))

lemma erased_shrunk:
  assumes ok: "links_ok s" and p: "handles s p = Some e" "p \<in> set (linked s)"
    and i: "lru_inv (erased p e (s\<lparr>lc_table := t\<rparr>))"
  shows "shrunk s (erased p e (s\<lparr>lc_table := t\<rparr>))"
proof -
  let ?s = "erased p e (s\<lparr>lc_table := t\<rparr>)"
  note h = handle_okD [OF links_okD(4) [OF ok p(1)]]
  have c: "e_in_cache e" using h(4) p(2) by simp
  have "unat (e_refs e - 1) = unat (e_refs e) - 1" using h(3) by (intro unat_minus_one) auto
  then have "held ?s = held s" using c p(1) h(3) by (auto simp: held_def fun_eq_iff)
  moreover have "set (linked ?s) \<subseteq> set (linked s)"
    using set_remove1_subset [of p "lc_lru s"] set_remove1_subset [of p "lc_in_use s"] by (auto simp: linked_def)
  moreover have "stable s ?s" using p(1) by (auto simp: stable_def entry_def held_def)
  ultimately show ?thesis using i by (simp add: shrunk_def)
qed

lemma evicted_shrunk:
  assumes inv: "lru_inv s" and i: "lru_inv s'" and ev: "evicted k s s'"
  shows "shrunk s s'"
proof -
  have ok: "links_ok s" using inv by (simp add: lru_inv_but_def)
  have z: "held s q = 0" if "q \<in> set (take k (lc_lru s))" for q
  proof -
    have "q \<in> set (lc_lru s)" using that by (rule in_set_takeD)
    then show ?thesis using links_okD(3,4) [OF ok, of q] handle_okD(5) [of s q] by (fastforce simp: held_def linked_def)
  qed
  have "held s' = held s" using ev z by (auto simp: held_def evicted_def fun_eq_iff)
  moreover have "set (linked s') \<subseteq> set (linked s)" using ev set_drop_subset by (fastforce simp: evicted_def linked_def)
  moreover have "stable s s'" using ev by (auto simp: stable_def evicted_def entry_def held_def)
  ultimately show ?thesis using i by (simp add: shrunk_def)
qed


lemma evict_run:
  assumes inv: "lru_inv s" and P: "\<And>u. lc_capacity u = lc_capacity s \<Longrightarrow> P u = Q (lc_usage u)"
  obtains s' where "evict_while P (length (lc_lru s)) s = Inr ((), s')" "shrunk s s'" "lc_in_use s' = lc_in_use s"
    "\<not> Q (lc_usage s') \<or> lc_lru s' = []" "evicted (evict_count Q (lc_usage s) (map (charge_of (handles s)) (lc_lru s))) s s'"
proof -
  let ?cs = "map (charge_of (handles s)) (lc_lru s)"
  from evict_while_run [where P = P and Q = Q, OF inv P, of "length (lc_lru s)"] obtain s' where
    s': "evict_while P (length (lc_lru s)) s = Inr ((), s')" "lru_inv s'" "evicted (evict_count Q (lc_usage s) ?cs) s s'"
    by auto
  have "\<not> Q (lc_usage s') \<or> lc_lru s' = []"
    using evict_count_enough [OF refl, of Q "lc_usage s" ?cs] s'(3) by (auto simp: evicted_def take_map)
  then show thesis using that [OF s'(1) evicted_shrunk [OF inv s'(2,3)] _ _ s'(3)] s'(3) by (simp add: evicted_def)
qed

text \<open>The state before the loop: the new entry is in, the old one of the key is out.\<close>

lemma enter_run:
  assumes inv: "lru_inv s" and c: "e_in_cache e" "e_refs e = 2"
  obtains t old b s' where "table_Insert (hnext s) (entered e s) = Inr (old, (entered e s)\<lparr>lc_table := t\<rparr>)"
    "FinishErase old ((entered e s)\<lparr>lc_table := t\<rparr>) = Inr (b, s')"
    "shrunk (entered e s) s'" "hnext s \<in> set (lc_in_use s')"
  using assms
proof (cases rule: table_Insert_run)
  case (fresh t)
  let ?s = "(entered e s)\<lparr>lc_table := t\<rparr>"
  have "shrunk (entered e s) ?s" using fresh(2) by (simp add: shrunk_def stable_def entry_def held_def fun_eq_iff)
  moreover have "FinishErase 0 ?s = Inr (False, ?s)" by (simp add: FinishErase_def)
  ultimately show thesis using that [of 0 t False ?s] fresh(1) by (simp add: entered_def)
next
  case (again t old eo)
  let ?s = "(entered e s)\<lparr>lc_table := t\<rparr>" and ?s' = "erased old eo ((entered e s)\<lparr>lc_table := t\<rparr>)"
  have ne: "old \<noteq> hnext s" using again(4) hnext_new(2) [OF inv] by metis
  then have h: "handles (entered e s) old = Some eo" using again(3) by (simp add: entered_def)
  from FinishErase_run [OF again(2), of old eo] h
  have run: "FinishErase old ?s = Inr (True, ?s')" "lru_inv ?s'" by (auto simp: erased_def)
  have "shrunk (entered e s) ?s'"
    by (rule erased_shrunk [OF entered_links_ok [OF inv c] h _ run(2)]) (simp add: linked_entered again(4))
  moreover have "hnext s \<in> set (lc_in_use ?s')" using ne by (simp add: entered_def)
  ultimately show thesis using that again(1) run(1) by blast
qed


lemma new_handle_run:
  "new_handle key hash v charge del s = Inr (hnext s, s\<lparr>hnext := Suc (hnext s), handles := (handles s)(hnext s \<mapsto>
     (new_entry (key, hash) v charge del)\<lparr>e_in_cache := False, e_refs := 1\<rparr>)\<rparr>)"
  by (simp add: new_handle_def new_entry_def)

lemma link_new_run:
  assumes "table_Insert (hnext s) (entered (new_entry (key, hash) v charge del) s) = Inr (old, u)"
    and "FinishErase old u = Inr (b, u')" and "hnext s \<noteq> 0"
  shows "link_new (hnext s) charge (s\<lparr>hnext := Suc (hnext s), handles := (handles s)(hnext s \<mapsto>
     (new_entry (key, hash) v charge del)\<lparr>e_in_cache := False, e_refs := 1\<rparr>)\<rparr>) = Inr ((), u')"
  using assms by (simp add: link_new_def entered_def new_entry_def)

lemma lru_Insert_run:
  assumes inv: "lru_inv s" and cap: "0 < lc_capacity s"
  obtains s' where "lru_Insert key hash v charge del s = Inr (hnext s, s')" "lru_inv s'"
    "content s' (key, hash) = Some v" "\<And>k. k \<noteq> (key, hash) \<Longrightarrow> content s' k = None \<or> content s' k = content s k"
    "held s' = (held s)(hnext s := 1)" "entry s' (hnext s) = Some ((key, hash), v)"
    "\<And>q. q \<noteq> hnext s \<Longrightarrow> entry s' q = None \<or> entry s' q = entry s q"
    "\<And>q. 0 < held s q \<Longrightarrow> entry s' q = entry s q" "lc_capacity s' = lc_capacity s"
    "lc_usage s' \<le> lc_capacity s \<or> lc_lru s' = []"
proof -
  let ?e = "new_entry (key, hash) v charge del"
  note n = hnext_new [OF inv]
  have c: "e_in_cache ?e" "e_refs ?e = 2" "(e_key ?e, e_hash ?e) = (key, hash)" by (simp_all add: new_entry_def)
  obtain t old b u where
    u: "table_Insert (hnext s) (entered ?e s) = Inr (old, (entered ?e s)\<lparr>lc_table := t\<rparr>)"
      "FinishErase old ((entered ?e s)\<lparr>lc_table := t\<rparr>) = Inr (b, u)"
      "shrunk (entered ?e s) u" "hnext s \<in> set (lc_in_use u)"
    by (rule enter_run [OF inv c(1,2)]) (rule that)
  have cu: "lc_capacity u = lc_capacity s" using shrunkD(6) [OF u(3)] by (simp add: entered_def)
  obtain s' where s': "evict_while (\<lambda>s. lc_capacity s < lc_usage s) (length (lc_lru u)) u = Inr ((), s')"
    "shrunk u s'" "lc_in_use s' = lc_in_use u" "\<not> lc_capacity s < lc_usage s' \<or> lc_lru s' = []"
    by (rule evict_run [OF shrunkD(1) [OF u(3)], of "\<lambda>s. lc_capacity s < lc_usage s" "\<lambda>x. lc_capacity s < x"]) (simp_all add: cu)
  have sh: "shrunk (entered ?e s) s'" using shrunk_trans [OF u(3) s'(2)] .
  note d = shrunkD [OF sh]
  have he: "held (entered ?e s) = (held s)(hnext s := 1)" using c by (auto simp: held_def entered_def fun_eq_iff)
  have en: "entry (entered ?e s) q = (if q = hnext s then Some ((key, hash), v) else entry s q)" for q
    by (simp add: entry_def entered_def new_entry_def)
  have p: "entry s' (hnext s) = Some ((key, hash), v)" using d(3) [of "hnext s"] by (simp add: he en)
  have h0: "held s (hnext s) = 0" using n(1) by (simp add: held_def)
  show thesis
  proof (rule that [OF _ d(1)])
    show "lru_Insert key hash v charge del s = Inr (hnext s, s')"
      using link_new_run [OF u(1,2) n(3)] s'(1) cap by (simp add: lru_Insert_def new_handle_run)
    show "content s' (key, hash) = Some v"
      using p u(4) s'(3) unfolding content_entry [OF d(1)] by (auto simp: linked_def)
    show "content s' k = None \<or> content s' k = content s k" if "k \<noteq> (key, hash)" for k
    proof (rule content_sub [OF inv d(1)])
      fix q w assume q: "q \<in> set (linked s')" "entry s' q = Some (k, w)"
      then have "q \<noteq> hnext s" using p that by auto
      then show "q \<in> set (linked s) \<and> entry s q = Some (k, w)"
        using d(5) [OF q(1)] d(2) [of q] q(2) by (auto simp: linked_entered en)
    qed
    show "entry s' q = None \<or> entry s' q = entry s q" if "q \<noteq> hnext s" for q using d(2) [of q] that by (simp add: en)
    show "entry s' q = entry s q" if "0 < held s q" for q
    proof -
      have "q \<noteq> hnext s" using that h0 by auto
      then show ?thesis using d(3) [of q] that by (simp add: he en)
    qed
    show "held s' = (held s)(hnext s := 1)" "lc_capacity s' = lc_capacity s"
      using d(4,6) he by (auto simp: entered_def)
    show "lc_usage s' \<le> lc_capacity s \<or> lc_lru s' = []" using s'(4) by auto
  qed (fact p)
qed


text \<open>A cache of capacity 0 hands out a handle and keeps nothing.\<close>

lemma new_handle_inv:
  assumes inv: "lru_inv s" and e: "e_refs e = 1" "\<not> e_in_cache e"
  shows "lru_inv (s\<lparr>hnext := Suc (hnext s), handles := (handles s)(hnext s \<mapsto> e)\<rparr>)" (is "lru_inv ?s")
proof -
  have ok: "links_ok s" using inv by (simp add: lru_inv_but_def)
  note n = hnext_new [OF inv]
  have l: "linked ?s = linked s" by (simp add: linked_def)
  have "links_ok ?s"
  proof (rule links_okI)
    show "handle_ok ?s q e'" if "handles ?s q = Some e'" for q e'
      using that links_okD(4) [OF ok, of q e'] n e
      by (cases "q = hnext s") (auto simp: handle_ok_def linked_def)
    have "sum_list (map (charge_of (handles ?s)) (linked s)) = lc_usage s"
      unfolding links_okD(5) [OF ok] using n(2) by (intro arg_cong [where f = sum_list]) (auto simp: charge_of_def)
    then show "lc_usage ?s = sum_list (map (charge_of (handles ?s)) (linked ?s))" by (simp add: l)
  qed (use links_okD(2,3) [OF ok] in \<open>simp_all add: l\<close>)
  moreover have "ht_inv (keyhash_of ?s) (lc_table s)"
    by (rule tbl.inv_cong [where kh = "keyhash_of s"])
      (use inv n(2) in \<open>auto simp: lru_inv_but_def keyhash_of_def\<close>)
  ultimately show ?thesis using inv by (simp add: lru_inv_but_def l)
qed

lemma lru_Insert_uncached:
  assumes inv: "lru_inv s" and cap: "lc_capacity s = 0"
  obtains s' where "lru_Insert key hash v charge del s = Inr (hnext s, s')" "lru_inv s'" "lc_capacity s' = 0"
    "lc_usage s' = 0 \<or> lc_lru s' = []"
proof -
  let ?e = "(new_entry (key, hash) v charge del)\<lparr>e_in_cache := False, e_refs := 1\<rparr>"
  let ?s = "s\<lparr>hnext := Suc (hnext s), handles := (handles s)(hnext s \<mapsto> ?e)\<rparr>"
  have i: "lru_inv ?s" by (rule new_handle_inv [OF inv]) simp_all
  obtain s' where "evict_while (\<lambda>s. lc_capacity s < lc_usage s) (length (lc_lru ?s)) ?s = Inr ((), s')" "shrunk ?s s'"
    "\<not> 0 < lc_usage s' \<or> lc_lru s' = []"
    by (rule evict_run [OF i, of "\<lambda>s. lc_capacity s < lc_usage s" "\<lambda>x. 0 < x"]) (simp_all add: cap)
  then show thesis using that [of s'] cap shrunkD(1,6) [of ?s s'] by (simp add: lru_Insert_def new_handle_run word_gt_0)
qed

lemma lru_Erase_run:
  assumes inv: "lru_inv s"
  obtains s' where "lru_Erase key hash s = Inr ((), s')" "shrunk s s'" "content s' (key, hash) = None"
  using inv
proof (cases rule: lookup_cases [where k = "(key, hash)"])
  case none
  let ?s = "s\<lparr>lc_table := snd (ht_Remove (keyhash_of s) (lc_table s) (key, hash))\<rparr>"
  have i: "ht_inv (keyhash_of s) (lc_table s)" and el: "ht_elts (lc_table s) = set (linked s)"
    using inv by (auto simp: lru_inv_but_def)
  have kh: "keyhash_of ?s = keyhash_of s" by (simp add: keyhash_of_def fun_eq_iff)
  note r = tbl.rem_ok [OF i, of "(key, hash)"]
  have "keyhash_of s p \<noteq> (key, hash)" if "p \<in> set (linked s)" for p
    using that none(3) linked_handle [OF inv that] keyhash_of_Some by metis
  then have "ht_elts (lc_table ?s) = set (linked s)" using r el by auto
  then have i': "lru_inv ?s"
    using inv r kh by (auto simp: lru_inv_but_def links_ok_def handle_ok_def)
  then have "shrunk s ?s" by (simp add: shrunk_def stable_def entry_def held_def fun_eq_iff)
  moreover have "lru_Erase key hash s = Inr ((), ?s)"
    using r none(1) by (simp add: lru_Erase_def table_Remove_def Let_def FinishErase_def andThen_apply)
  moreover have "content ?s (key, hash) = None"
    using content_shrunk [OF inv \<open>shrunk s ?s\<close>, of "(key, hash)"] none(2) by simp
  ultimately show thesis using that by blast
next
  case (some p e)
  obtain t where t: "table_Remove (e_key e, e_hash e) s = Inr (p, s\<lparr>lc_table := t\<rparr>)"
    "FinishErase p (s\<lparr>lc_table := t\<rparr>) = Inr (True, erased p e (s\<lparr>lc_table := t\<rparr>))"
    "lru_inv (erased p e (s\<lparr>lc_table := t\<rparr>))" using erase_run [OF inv some(3,4)] by blast
  let ?s = "erased p e (s\<lparr>lc_table := t\<rparr>)"
  have ok: "links_ok s" using inv by (simp add: lru_inv_but_def)
  have sh: "shrunk s ?s" by (rule erased_shrunk [OF ok some(4,3) t(3)])
  have "lru_Erase key hash s = Inr ((), ?s)" using t(1,2) some(5) by (simp add: lru_Erase_def)
  moreover have "content ?s (key, hash) \<noteq> Some v" for v
  proof
    assume "content ?s (key, hash) = Some v"
    then obtain q where q: "q \<in> set (linked ?s)" "entry ?s q = Some ((key, hash), v)"
      unfolding content_entry [OF t(3)] by blast
    have "q \<noteq> p" using q(1) links_okD(2) [OF ok] by (auto simp: linked_def)
    moreover have "q \<in> set (linked s)" "entry s q = Some ((key, hash), v)"
      using shrunkD(2,5) [OF sh, of q] q by auto
    ultimately show False using tbl.inj [of "keyhash_of s" "lc_table s" q p] inv some(3-5)
      by (auto simp: entry_def lru_inv_but_def keyhash_of_Some)
  qed
  ultimately show thesis using that sh by (metis not_None_eq)
qed

lemma lru_Prune_run:
  assumes inv: "lru_inv s"
  obtains s' where "lru_Prune s = Inr ((), s')" "shrunk s s'" "lc_lru s' = []" "lc_in_use s' = lc_in_use s"
proof -
  obtain s' where "evict_while (\<lambda>_. True) (length (lc_lru s)) s = Inr ((), s')" "shrunk s s'" "lc_in_use s' = lc_in_use s"
    "\<not> True \<or> lc_lru s' = []"
    by (rule evict_run [OF inv, of "\<lambda>_. True" "\<lambda>_. True"]) simp_all
  then show thesis using that by (simp add: lru_Prune_def)
qed

lemma LRUCache_init_inv: "lru_inv (LRUCache_init cap)"
  using tbl.init_ok by (simp add: lru_inv_but_def links_ok_def LRUCache_init_def linked_def)

end
