(* ===== verification/LdbShards.thy ===== *)
theory LdbShards
  imports LdbCache
begin

text \<open>
  The LRU cache under its clients: the states that a shard can get into, the sharded cache
  (\<^verbatim>\<open>ShardedLRUCache\<close> and \<^verbatim>\<open>NewLRUCache\<close> of \<^verbatim>\<open>util/cache.cc\<close>), the contract that clients rely on (the locale
  \<open>handle_cache\<close>) and the properties of the cache.
\<close>

subsection \<open>A cache under its clients\<close>

text \<open>What clients may do: they release what they hold, and no handle is held \<open>2^32 - 2\<close> times.\<close>

inductive lru_reach :: "u64 \<Rightarrow> LRUCache \<Rightarrow> bool" for cap where
  start: "lru_reach cap (LRUCache_init cap)"
| lookup: "lru_reach cap s \<Longrightarrow> (\<And>p. held s p < 2 ^ 32 - 2) \<Longrightarrow> lru_Lookup key hash s = Inr (p, s') \<Longrightarrow> lru_reach cap s'"
| insert: "lru_reach cap s \<Longrightarrow> lru_Insert key hash v charge del s = Inr (p, s') \<Longrightarrow> lru_reach cap s'"
| release: "lru_reach cap s \<Longrightarrow> 0 < held s p \<Longrightarrow> lru_Release p s = Inr (x, s') \<Longrightarrow> lru_reach cap s'"
| erase: "lru_reach cap s \<Longrightarrow> lru_Erase key hash s = Inr (x, s') \<Longrightarrow> lru_reach cap s'"
| prune: "lru_reach cap s \<Longrightarrow> lru_Prune s = Inr (x, s') \<Longrightarrow> lru_reach cap s'"

lemma lru_Lookup_ok:
  assumes inv: "lru_inv s" and room: "\<And>p. held s p < 2 ^ 32 - 2"
  obtains p s' where "lru_Lookup key hash s = Inr (p, s')" "lru_inv s'" "stable s s'" "content s' = content s"
    "content s (key, hash) = None \<longrightarrow> p = 0 \<and> s' = s"
    "\<And>v. content s (key, hash) = Some v \<Longrightarrow> p \<noteq> 0 \<and> held s' = (held s)(p := held s p + 1) \<and> entry s' p = Some ((key, hash), v)"
proof (cases "content s (key, hash)")
  case None
  then show thesis using that [OF lru_Lookup_none [OF inv None] inv] by (simp add: stable_def)
next
  case (Some v)
  obtain p e where p: "handles s p = Some e" "e_value e = v" "p \<noteq> 0" "e_refs e + 1 \<noteq> 0"
    "lru_Lookup key hash s = Inr (p, recount p (e_refs e + 1) e s)" "p \<in> set (linked s)" "(e_key e, e_hash e) = (key, hash)"
    by (rule lru_Lookup_some [OF inv Some room])
  show thesis using that [OF p(5) recount_inv [OF inv p(1,4)] stable_recount [OF p(1)] content_recount [OF inv p(1,4)]]
    held_take [OF inv p(1,4)] Some p by (simp add: entry_def)
qed

lemma lru_Insert_ok:
  assumes inv: "lru_inv s"
  obtains s' where "lru_Insert key hash v charge del s = Inr (hnext s, s')" "lru_inv s'" "lc_capacity s' = lc_capacity s"
    "lc_usage s' \<le> lc_capacity s \<or> lc_lru s' = []"
proof (cases "lc_capacity s = 0")
  case True
  obtain s' where "lru_Insert key hash v charge del s = Inr (hnext s, s')" "lru_inv s'" "lc_capacity s' = 0"
    "lc_usage s' = 0 \<or> lc_lru s' = []" by (rule lru_Insert_uncached [OF inv True])
  then show thesis using that True by auto
next
  case False
  then have "0 < lc_capacity s" by (simp add: word_neq_0_conv)
  from inv this obtain s' where "lru_Insert key hash v charge del s = Inr (hnext s, s')" "lru_inv s'"
    "lc_capacity s' = lc_capacity s" "lc_usage s' \<le> lc_capacity s \<or> lc_lru s' = []"
    by (rule lru_Insert_run)
  then show thesis using that by auto
qed

lemma lru_reach_inv: "lru_reach cap s \<Longrightarrow> lru_inv s \<and> lc_capacity s = cap"
proof (induction rule: lru_reach.induct)
  case start
  show ?case using LRUCache_init_inv by (simp add: LRUCache_init_def)
next
  case (lookup s key hash p s')
  obtain q t where "lru_Lookup key hash s = Inr (q, t)" "lru_inv t" "stable s t"
    by (rule lru_Lookup_ok [of s key hash]) (use lookup in blast)+
  then show ?case using lookup by (auto simp: stable_def)
next
  case (insert s key hash v charge del p s')
  then show ?case using lru_Insert_ok [of s key hash v charge del] by (metis Inr_inject prod.inject)
next
  case (release s p x s')
  then show ?case using lru_Release_run [of s p] by (metis Inr_inject prod.inject stable_def)
next
  case (erase s key hash x s')
  then show ?case using lru_Erase_run [of s key hash] by (metis Inr_inject prod.inject shrunkD(1,6))
next
  case (prune s x s')
  then show ?case using lru_Prune_run [of s] by (metis Inr_inject prod.inject shrunkD(1,6))
qed


lemma lru_faultless:
  assumes inv: "lru_inv s"
  shows "faultless (lru_Insert key hash v charge del) s" "faultless (lru_Erase key hash) s" "faultless lru_Prune s"
    "0 < held s p \<Longrightarrow> faultless (lru_Release p) s"
    "(\<And>p. held s p < 2 ^ 32 - 2) \<Longrightarrow> faultless (lru_Lookup key hash) s"
proof -
  show "faultless (lru_Insert key hash v charge del) s"
    by (rule lru_Insert_ok [OF inv]) (rule faultless_run)
  show "faultless (lru_Erase key hash) s" by (rule lru_Erase_run [OF inv]) (rule faultless_run)
  show "faultless lru_Prune s" by (rule lru_Prune_run [OF inv]) (rule faultless_run)
  show "faultless (lru_Release p) s" if "0 < held s p" by (rule lru_Release_run [OF inv that]) (rule faultless_run)
  show "faultless (lru_Lookup key hash) s" if "\<And>p. held s p < 2 ^ 32 - 2"
    by (rule lru_Lookup_ok [OF inv that]) (rule faultless_run)
qed

text \<open>A new key in a cache with a capacity: the exact list of the entries that go.\<close>

lemma lru_Insert_evicts:
  assumes inv: "lru_inv s" and cap: "0 < lc_capacity s" and new: "content s (key, hash) = None"
    and k: "k = evict_count (\<lambda>u. lc_capacity s < u) (lc_usage s + charge) (map (charge_of (handles s)) (lc_lru s))"
  shows "\<exists>s'. lru_Insert key hash v charge del s = Inr (hnext s, s') \<and> lc_lru s' = drop k (lc_lru s)
    \<and> lc_in_use s' = lc_in_use s @ [hnext s] \<and> deleted s' = deleted s @ map (del_of (handles s)) (take k (lc_lru s))"
proof -
  let ?e = "new_entry (key, hash) v charge del"
  note n = hnext_new [OF inv]
  have c: "e_in_cache ?e" "e_refs ?e = 2" "(e_key ?e, e_hash ?e) = (key, hash)" by (simp_all add: new_entry_def)
  from inv c(1,2) have "\<exists>t. table_Insert (hnext s) (entered ?e s) = Inr (0, (entered ?e s)\<lparr>lc_table := t\<rparr>)
    \<and> lru_inv ((entered ?e s)\<lparr>lc_table := t\<rparr>)"
  proof (cases rule: table_Insert_run)
    case (again t old eo)
    then have "content s (key, hash) = Some (e_value eo)"
      unfolding content_Some [OF inv] using c(3) by auto
    then show ?thesis using new by simp
  qed blast
  then obtain t where t: "table_Insert (hnext s) (entered ?e s) = Inr (0, (entered ?e s)\<lparr>lc_table := t\<rparr>)"
    "lru_inv ((entered ?e s)\<lparr>lc_table := t\<rparr>)" by blast
  let ?u = "(entered ?e s)\<lparr>lc_table := t\<rparr>"
  have f: "FinishErase 0 ?u = Inr (False, ?u)" by (simp add: FinishErase_def)
  have h: "handles ?u p = handles s p" if "p \<in> set (lc_lru s)" for p
    using that n(2) by (auto simp: entered_def linked_def)
  have l: "lc_lru ?u = lc_lru s" by (simp add: entered_def)
  have m: "map (charge_of (handles ?u)) (lc_lru ?u) = map (charge_of (handles s)) (lc_lru s)"
    "map (del_of (handles ?u)) (take k (lc_lru ?u)) = map (del_of (handles s)) (take k (lc_lru s))"
    unfolding l by (rule map_cong [OF refl], simp only: charge_of_def del_of_def h in_set_takeD)+
  obtain s' where "evict_while (\<lambda>s. lc_capacity s < lc_usage s) (length (lc_lru ?u)) ?u = Inr ((), s')"
    "evicted (evict_count (\<lambda>x. lc_capacity s < x) (lc_usage ?u) (map (charge_of (handles ?u)) (lc_lru ?u))) ?u s'"
    by (rule evict_run [OF t(2), of "\<lambda>s. lc_capacity s < lc_usage s" "\<lambda>x. lc_capacity s < x"]) (simp_all add: entered_def)
  then show ?thesis using link_new_run [OF t(1) f n(3)] cap k m
    by (simp add: lru_Insert_def new_handle_run evicted_def) (simp add: entered_def new_entry_def)
qed


subsection \<open>The sharded cache\<close>

text \<open>\<^verbatim>\<open>ShardedLRUCache\<close>. Each shard has its own heap of handles here, so a \<^verbatim>\<open>Handle*\<close> is the shard that
  allocated it and the address there; \<open>(0, 0)\<close> is the null pointer.\<close>

type_synonym Handle = "nat \<times> ptr"

record ShardedLRUCache =
  sc_shard :: "LRUCache list"
  sc_last_id :: u64

type_synonym 'a cacheprog = "(ShardedLRUCache, 'a) prog"

abbreviation (input) kNumShards :: nat where "kNumShards \<equiv> 16"
abbreviation (input) null_handle :: Handle where "null_handle \<equiv> (0, 0)"

definition on_shard :: "nat \<Rightarrow> 'a lruprog \<Rightarrow> 'a cacheprog" where
  "on_shard i = zoom (\<lambda>c. sc_shard c ! i) (\<lambda>s c. c\<lparr>sc_shard := (sc_shard c)[i := s]\<rparr>)"

definition NewLRUCache :: "u64 \<Rightarrow> ShardedLRUCache" where
  "NewLRUCache capacity =
     \<lparr>sc_shard = replicate kNumShards (LRUCache_init ((capacity + (16 - 1)) div 16)), sc_last_id = 0\<rparr>"

definition cache_Insert :: "bytes \<Rightarrow> ptr \<Rightarrow> u64 \<Rightarrow> nat \<Rightarrow> Handle cacheprog" where
  "cache_Insert key v charge del =
     (let hash = HashSlice key in
      andThen (on_shard (Shard hash) (lru_Insert key hash v charge del)) (\<lambda>p. ret (Shard hash, p)))"

definition cache_Lookup :: "bytes \<Rightarrow> Handle cacheprog" where
  "cache_Lookup key =
     (let hash = HashSlice key in
      andThen (on_shard (Shard hash) (lru_Lookup key hash)) (\<lambda>p. ret (if p = 0 then null_handle else (Shard hash, p))))"

definition handle_of :: "Handle \<Rightarrow> LRUHandle cacheprog" where
  "handle_of h = on_shard (fst h) (handle_at (snd h))"

definition cache_Release :: "Handle \<Rightarrow> unit cacheprog" where
  "cache_Release h = andThen (handle_of h) (\<lambda>e. on_shard (Shard (e_hash e)) (lru_Release (snd h)))"

definition cache_Erase :: "bytes \<Rightarrow> unit cacheprog" where
  "cache_Erase key = (let hash = HashSlice key in on_shard (Shard hash) (lru_Erase key hash))"

definition cache_Value :: "Handle \<Rightarrow> ptr cacheprog" where
  "cache_Value h = andThen (handle_of h) (\<lambda>e. ret (e_value e))"

definition NewId :: "u64 cacheprog" where
  "NewId = (\<lambda>c. Inr (sc_last_id c + 1, c\<lparr>sc_last_id := sc_last_id c + 1\<rparr>))"

definition cache_Prune :: "unit cacheprog" where
  "cache_Prune = foreach [0 ..< kNumShards] (\<lambda>i. on_shard i lru_Prune)"

definition cache_TotalCharge :: "u64 cacheprog" where
  "cache_TotalCharge = gets (\<lambda>c. foldl (\<lambda>total i. total + lc_usage (sc_shard c ! i)) 0 [0 ..< kNumShards])"

text \<open>Each handle is in the shard of its hash.\<close>

definition shard_ok :: "nat \<Rightarrow> LRUCache \<Rightarrow> bool" where
  "shard_ok i s \<longleftrightarrow> lru_inv s \<and> 0 < lc_capacity s
     \<and> (\<forall>p k v. entry s p = Some (k, v) \<longrightarrow> snd k = HashSlice (fst k) \<and> Shard (snd k) = i)"

definition cache_inv :: "ShardedLRUCache \<Rightarrow> bool" where
  "cache_inv c \<longleftrightarrow> length (sc_shard c) = kNumShards \<and> (\<forall>i < kNumShards. shard_ok i (sc_shard c ! i))"

definition shard_of :: "ShardedLRUCache \<Rightarrow> bytes \<Rightarrow> LRUCache" where
  "shard_of c key = sc_shard c ! Shard (HashSlice key)"

definition cached :: "ShardedLRUCache \<Rightarrow> bytes \<Rightarrow> ptr option" where
  "cached c key = content (shard_of c key) (key, HashSlice key)"

definition holds :: "ShardedLRUCache \<Rightarrow> Handle \<Rightarrow> nat" where
  "holds c h = (if fst h < kNumShards then held (sc_shard c ! fst h) (snd h) else 0)"

definition handle_value :: "ShardedLRUCache \<Rightarrow> Handle \<Rightarrow> ptr option" where
  "handle_value c h = (if fst h < kNumShards then map_option snd (entry (sc_shard c ! fst h) (snd h)) else None)"


text \<open>What a client that looks up, inserts and releases relies on.\<close>

locale handle_cache =
  fixes look :: "'k \<Rightarrow> ('c, 'h) prog" and ins :: "'k \<Rightarrow> 'v \<Rightarrow> ('c, 'h) prog" and rel :: "'h \<Rightarrow> ('c, unit) prog"
    and getv :: "'h \<Rightarrow> ('c, 'v) prog" and inv :: "'c \<Rightarrow> bool" and cont :: "'c \<Rightarrow> 'k \<Rightarrow> 'v option"
    and hold :: "'c \<Rightarrow> 'h \<Rightarrow> nat" and null :: 'h
  assumes look_none: "inv c \<Longrightarrow> cont c k = None \<Longrightarrow> look k c = Inr (null, c)"
    and look_some: "inv c \<Longrightarrow> \<forall>h. hold c h < 2 ^ 32 - 2 \<Longrightarrow> cont c k = Some v \<Longrightarrow>
      \<exists>h c'. look k c = Inr (h, c') \<and> h \<noteq> null \<and> inv c' \<and> cont c' = cont c
        \<and> hold c' = (hold c)(h := hold c h + 1) \<and> getv h c' = Inr (v, c')"
    and ins_ok: "inv c \<Longrightarrow>
      \<exists>h c'. ins k v c = Inr (h, c') \<and> inv c' \<and> cont c' k = Some v
        \<and> (\<forall>j. j \<noteq> k \<longrightarrow> cont c' j = None \<or> cont c' j = cont c j)
        \<and> hold c h = 0 \<and> hold c' = (hold c)(h := 1) \<and> getv h c' = Inr (v, c')"
    and rel_ok: "inv c \<Longrightarrow> 0 < hold c h \<Longrightarrow>
      \<exists>c'. rel h c = Inr ((), c') \<and> inv c' \<and> cont c' = cont c \<and> hold c' = (hold c)(h := hold c h - 1)"
begin

definition idle :: "'c \<Rightarrow> bool" where
  "idle c \<longleftrightarrow> inv c \<and> hold c = (\<lambda>_. 0)"

lemma hit:
  assumes "idle c" "cont c k = Some v"
  obtains h c1 c2 where "look k c = Inr (h, c1)" "h \<noteq> null" "getv h c1 = Inr (v, c1)" "rel h c1 = Inr ((), c2)"
    "idle c2" "cont c2 = cont c"
proof -
  from assms have i: "inv c" "\<forall>h. hold c h < 2 ^ 32 - 2" "hold c = (\<lambda>_. 0)" by (auto simp: idle_def)
  from look_some [OF i(1,2) assms(2)] obtain h c1 where
    l: "look k c = Inr (h, c1)" "h \<noteq> null" "inv c1" "cont c1 = cont c"
      "hold c1 = (hold c)(h := hold c h + 1)" "getv h c1 = Inr (v, c1)" by blast
  from rel_ok [OF l(3), of h] l(5) obtain c2 where
    r: "rel h c1 = Inr ((), c2)" "inv c2" "cont c2 = cont c1" "hold c2 = (hold c1)(h := hold c1 h - 1)" by auto
  have "hold c2 = (\<lambda>_. 0)" using l(5) r(4) i(3) by (simp add: fun_eq_iff)
  then show thesis using that [OF l(1,2,6) r(1)] r(2,3) l(4) by (simp add: idle_def)
qed

lemma miss:
  assumes "idle c" "cont c k = None"
  obtains h c1 c2 where "look k c = Inr (null, c)" "ins k v c = Inr (h, c1)" "getv h c1 = Inr (v, c1)"
    "rel h c1 = Inr ((), c2)" "idle c2" "cont c2 k = Some v"
    "\<And>j. j \<noteq> k \<Longrightarrow> cont c2 j = None \<or> cont c2 j = cont c j"
proof -
  from assms have i: "inv c" "hold c = (\<lambda>_. 0)" by (auto simp: idle_def)
  from ins_ok [OF i(1), of k v] obtain h c1 where
    l: "ins k v c = Inr (h, c1)" "inv c1" "cont c1 k = Some v"
      "\<forall>j. j \<noteq> k \<longrightarrow> cont c1 j = None \<or> cont c1 j = cont c j" "hold c1 = (hold c)(h := 1)" "getv h c1 = Inr (v, c1)" by blast
  from rel_ok [OF l(2), of h] l(5) obtain c2 where
    r: "rel h c1 = Inr ((), c2)" "inv c2" "cont c2 = cont c1" "hold c2 = (hold c1)(h := hold c1 h - 1)" by auto
  have "hold c2 = (\<lambda>_. 0)" using l(5) r(4) i(2) by (simp add: fun_eq_iff)
  then show thesis using that [OF look_none [OF i(1) assms(2)] l(1,6) r(1)] r(2,3) l(3,4) by (simp add: idle_def)
qed

end

lemma on_shard_run [simp]:
  "m (sc_shard c ! i) = Inr (x, s) \<Longrightarrow> on_shard i m c = Inr (x, c\<lparr>sc_shard := (sc_shard c)[i := s]\<rparr>)"
  by (simp add: on_shard_def)

lemma cache_shard:
  assumes "cache_inv c"
  shows "Shard h < length (sc_shard c)" "shard_ok (Shard h) (sc_shard c ! Shard h)"
    "lru_inv (sc_shard c ! Shard h)" "0 < lc_capacity (sc_shard c ! Shard h)"
  using assms Shard_less [of h] by (auto simp: cache_inv_def shard_ok_def)

lemma cache_inv_update:
  assumes "cache_inv c" "shard_ok (Shard h) s"
  shows "cache_inv (c\<lparr>sc_shard := (sc_shard c)[Shard h := s]\<rparr>)"
  using assms Shard_less [of h] by (auto simp: cache_inv_def nth_list_update)

lemma shard_ok_stable:
  assumes "shard_ok i s" "lru_inv s'" "stable s s'"
  shows "shard_ok i s'"
  using assms unfolding shard_ok_def stable_def by (metis option.distinct(1))

lemma cached_update:
  assumes "cache_inv c" "content s = content (sc_shard c ! Shard h)"
  shows "cached (c\<lparr>sc_shard := (sc_shard c)[Shard h := s]\<rparr>) = cached c"
  using assms cache_shard(1) [OF assms(1)] by (auto simp: cached_def shard_of_def nth_list_update fun_eq_iff)

lemma holds_update:
  assumes "cache_inv c"
  shows "holds (c\<lparr>sc_shard := (sc_shard c)[Shard h := s]\<rparr>) =
    (\<lambda>(i, p). if i = Shard h then held s p else holds c (i, p))"
  using cache_shard(1) [OF assms, of h] assms
  by (auto simp: holds_def fun_eq_iff nth_list_update cache_inv_def)


lemma cache_Lookup_none:
  assumes inv: "cache_inv c" and k: "cached c key = None"
  shows "cache_Lookup key c = Inr (null_handle, c)"
proof -
  let ?h = "HashSlice key"
  have "lru_Lookup key ?h (sc_shard c ! Shard ?h) = Inr (0, sc_shard c ! Shard ?h)"
    using k by (intro lru_Lookup_none cache_shard(3) [OF inv]) (simp add: cached_def shard_of_def)
  then show ?thesis by (simp add: cache_Lookup_def Let_def)
qed

lemma cache_Value_run:
  assumes "i < kNumShards" "entry (sc_shard c ! i) p = Some (k, v)" "lru_inv (sc_shard c ! i)"
  shows "cache_Value (i, p) c = Inr (v, c)"
proof -
  obtain e where e: "handles (sc_shard c ! i) p = Some e" "e_value e = v" using assms(2) by (auto simp: entry_def)
  have ok: "links_ok (sc_shard c ! i)" using assms(3) by (simp add: lru_inv_but_def)
  have "p \<noteq> 0" using handle_okD(1) [OF links_okD(4) [OF ok e(1)]] .
  then have "handle_of (i, p) c = Inr (e, c)" using e(1) by (simp add: handle_of_def)
  then show ?thesis using e(2) by (simp add: cache_Value_def)
qed

lemma cache_Lookup_some:
  assumes inv: "cache_inv c" and room: "\<forall>h. holds c h < 2 ^ 32 - 2" and k: "cached c key = Some v"
  shows "\<exists>h c'. cache_Lookup key c = Inr (h, c') \<and> h \<noteq> null_handle \<and> cache_inv c' \<and> cached c' = cached c
    \<and> holds c' = (holds c)(h := holds c h + 1) \<and> cache_Value h c' = Inr (v, c')"
proof -
  let ?h = "HashSlice key"
  let ?i = "Shard ?h"
  let ?s = "sc_shard c ! ?i"
  have room': "held ?s p < 2 ^ 32 - 2" for p using room [rule_format, of "(?i, p)"] Shard_less by (simp add: holds_def)
  have k': "content ?s (key, ?h) = Some v" using k by (simp add: cached_def shard_of_def)
  obtain p s' where l: "lru_Lookup key ?h ?s = Inr (p, s')" "lru_inv s'" "stable ?s s'" "content s' = content ?s"
    "\<And>v. content ?s (key, ?h) = Some v \<Longrightarrow> p \<noteq> 0 \<and> held s' = (held ?s)(p := held ?s p + 1) \<and> entry s' p = Some ((key, ?h), v)"
    by (rule lru_Lookup_ok [OF cache_shard(3) [OF inv, of ?h] room']) (rule that)
  let ?c = "c\<lparr>sc_shard := (sc_shard c)[?i := s']\<rparr>"
  note m = l(5) [OF k']
  have "cache_Lookup key c = Inr ((?i, p), ?c)" using l(1) m by (simp add: cache_Lookup_def Let_def)
  moreover have "cache_inv ?c"
    by (rule cache_inv_update [OF inv shard_ok_stable [OF cache_shard(2) [OF inv] l(2,3)]])
  moreover have "cached ?c = cached c" by (rule cached_update [OF inv l(4)])
  moreover have "holds ?c = (holds c)((?i, p) := holds c (?i, p) + 1)"
    unfolding holds_update [OF inv] using m Shard_less [of ?h] by (auto simp: fun_eq_iff holds_def)
  moreover have "cache_Value (?i, p) ?c = Inr (v, ?c)"
    using cache_shard(1) [OF inv, of ?h] m l(2) Shard_less [of ?h] by (intro cache_Value_run) auto
  ultimately show ?thesis using m by auto
qed

lemma cache_Insert_run:
  assumes inv: "cache_inv c"
  shows "\<exists>h c'. cache_Insert key v charge del c = Inr (h, c') \<and> cache_inv c' \<and> cached c' key = Some v
    \<and> (\<forall>j. j \<noteq> key \<longrightarrow> cached c' j = None \<or> cached c' j = cached c j)
    \<and> holds c h = 0 \<and> holds c' = (holds c)(h := 1) \<and> cache_Value h c' = Inr (v, c')"
proof -
  let ?h = "HashSlice key"
  let ?i = "Shard ?h"
  let ?s = "sc_shard c ! ?i"
  obtain s' where l: "lru_Insert key ?h v charge del ?s = Inr (hnext ?s, s')" "lru_inv s'"
    "content s' (key, ?h) = Some v" "\<And>k. k \<noteq> (key, ?h) \<Longrightarrow> content s' k = None \<or> content s' k = content ?s k"
    "held s' = (held ?s)(hnext ?s := 1)" "entry s' (hnext ?s) = Some ((key, ?h), v)"
    "\<And>q. q \<noteq> hnext ?s \<Longrightarrow> entry s' q = None \<or> entry s' q = entry ?s q" "lc_capacity s' = lc_capacity ?s"
    by (rule lru_Insert_run [OF cache_shard(3,4) [OF inv, of ?h]]) (rule that)
  let ?c = "c\<lparr>sc_shard := (sc_shard c)[?i := s']\<rparr>" and ?p = "hnext ?s"
  note i = cache_shard(1) [OF inv, of ?h]
  have "shard_ok ?i s'"
    using l(2,6,7,8) cache_shard(2) [OF inv, of ?h] unfolding shard_ok_def
    by (metis fst_conv option.distinct(1) option.inject prod.inject snd_conv)
  then have inv': "cache_inv ?c" by (rule cache_inv_update [OF inv])
  have "cache_Insert key v charge del c = Inr ((?i, ?p), ?c)" using l(1) by (simp add: cache_Insert_def Let_def)
  moreover have "cached ?c key = Some v" using l(3) i by (simp add: cached_def shard_of_def)
  moreover have "cached ?c j = None \<or> cached ?c j = cached c j" if "j \<noteq> key" for j
    using l(4) [of "(j, HashSlice j)"] that i by (auto simp: cached_def shard_of_def nth_list_update)
  moreover have "holds ?c = (holds c)((?i, ?p) := 1)"
    unfolding holds_update [OF inv] using l(5) Shard_less [of ?h] by (auto simp: fun_eq_iff holds_def)
  moreover have "holds c (?i, ?p) = 0"
    using hnext_new(1) [OF cache_shard(3) [OF inv, of ?h]] by (simp add: holds_def held_def)
  moreover have "cache_Value (?i, ?p) ?c = Inr (v, ?c)"
    using i l(2,6) Shard_less [of ?h] by (intro cache_Value_run) auto
  ultimately show ?thesis using inv' by blast
qed

lemma cache_Release_run:
  assumes inv: "cache_inv c" and h: "0 < holds c h"
  shows "\<exists>c'. cache_Release h c = Inr ((), c') \<and> cache_inv c' \<and> cached c' = cached c \<and> holds c' = (holds c)(h := holds c h - 1)"
proof -
  obtain i p where ip: "h = (i, p)" "i < kNumShards" "0 < held (sc_shard c ! i) p"
    using h by (cases h) (auto simp: holds_def split: if_splits)
  let ?s = "sc_shard c ! i"
  obtain e where e: "handles ?s p = Some e" using ip(3) by (auto simp: held_def split: option.splits)
  have ok: "shard_ok i ?s" using inv ip(2) by (simp add: cache_inv_def)
  then have i: "lru_inv ?s" and s: "Shard (e_hash e) = i" using e by (auto simp: shard_ok_def entry_def)
  have "links_ok ?s" using i by (simp add: lru_inv_but_def)
  from handle_okD(1) [OF links_okD(4) [OF this e]] have "p \<noteq> 0" .
  then have ho: "handle_of h c = Inr (e, c)" using e ip(1) by (simp add: handle_of_def)
  obtain s' where l: "lru_Release p ?s = Inr ((), s')" "lru_inv s'" "content s' = content ?s"
    "held s' = (held ?s)(p := held ?s p - 1)" "stable ?s s'" by (rule lru_Release_run [OF i ip(3)])
  let ?c = "c\<lparr>sc_shard := (sc_shard c)[Shard (e_hash e) := s']\<rparr>"
  have "cache_Release h c = Inr ((), ?c)" using ho l(1) s ip(1) by (simp add: cache_Release_def)
  moreover have "cache_inv ?c"
    by (rule cache_inv_update [OF inv]) (use shard_ok_stable [OF ok l(2,5)] s in simp)
  moreover have "cached ?c = cached c" by (rule cached_update [OF inv]) (simp add: s l(3))
  moreover have "holds ?c = (holds c)(h := holds c h - 1)"
    unfolding holds_update [OF inv] using l(4) s ip by (auto simp: fun_eq_iff holds_def)
  ultimately show ?thesis by blast
qed

interpretation lru: handle_cache cache_Lookup "\<lambda>k v. cache_Insert k v charge del" cache_Release cache_Value
    cache_inv cached holds null_handle for charge del
  by unfold_locales (fact cache_Lookup_none cache_Lookup_some cache_Insert_run cache_Release_run)+


lemma NewLRUCache_inv: "0 < (cap + 15) div 16 \<Longrightarrow> cache_inv (NewLRUCache cap)"
  by (simp add: cache_inv_def NewLRUCache_def shard_ok_def LRUCache_init_inv entry_def)
    (simp add: LRUCache_init_def)

lemma NewLRUCache_simps [simp]: "cached (NewLRUCache cap) key = None" "holds (NewLRUCache cap) h = 0"
proof -
  obtain i where i: "i = Shard (HashSlice key)" "i < 16" using Shard_less by blast
  have "content (LRUCache_init n) k = None" for n k
    using content_entry [OF LRUCache_init_inv, of n k] by (simp add: LRUCache_init_def linked_def) (metis not_None_eq)
  then show "cached (NewLRUCache cap) key = None" using i by (simp add: cached_def shard_of_def NewLRUCache_def)
  show "holds (NewLRUCache cap) h = 0" by (simp add: holds_def NewLRUCache_def held_def LRUCache_init_def)
qed

subsection \<open>Properties of the cache\<close>

text \<open>C29: whatever a well-behaved client has done, no operation of a shard of the LRU cache trips an
  assertion, unlinks a handle that is in no list or touches freed memory, and the invariant of the
  shard holds: lists, reference counts, hash table and usage agree.\<close>

theorem lru_cache_safe:
  assumes "lru_reach cap s"
  shows "lru_inv s \<and> faultless (lru_Insert key hash v charge del) s \<and> faultless (lru_Erase key hash) s
    \<and> faultless lru_Prune s \<and> (0 < held s p \<longrightarrow> faultless (lru_Release p) s)
    \<and> ((\<forall>q. held s q < 2 ^ 32 - 2) \<longrightarrow> faultless (lru_Lookup key hash) s)"
  using lru_reach_inv [OF assms] lru_faultless [of s] by blast

theorem lru_cache_safe_witness:
  "\<exists>s. lru_reach 2 s \<and> held s 1 = 1 \<and> lru_inv s \<and> faultless (lru_Release 1) s"
proof -
  have "0 < lc_capacity (LRUCache_init 2)" by (simp add: LRUCache_init_def)
  from LRUCache_init_inv this obtain s where
    s: "lru_Insert [1] 7 5 1 0 (LRUCache_init 2) = Inr (hnext (LRUCache_init 2), s)"
      "held s = (held (LRUCache_init 2))(hnext (LRUCache_init 2) := 1)" by (rule lru_Insert_run)
  then have r: "lru_reach 2 s" by (blast intro: lru_reach.start lru_reach.insert)
  moreover have "held s 1 = 1" using s(2) by (simp add: LRUCache_init_def)
  ultimately show ?thesis using lru_cache_safe [OF r, of "[]" 0 0 0 0 1] by auto
qed

text \<open>C32: \<^verbatim>\<open>LRUCache::Insert\<close> of a key that is not cached frees the oldest unused entries, in their
  order and no more of them than are needed to get back within the capacity; afterwards the usage is
  within the capacity or every entry that is left is in use.\<close>

theorem insert_evicts_oldest:
  assumes "lru_reach cap s" "0 < cap" "content s (key, hash) = None"
  shows "\<exists>k s'. lru_Insert key hash v charge del s = Inr (hnext s, s')
    \<and> lc_lru s' = drop k (lc_lru s) \<and> lc_in_use s' = lc_in_use s @ [hnext s]
    \<and> deleted s' = deleted s @ map (del_of (handles s)) (take k (lc_lru s))
    \<and> (\<forall>j < k. cap < lc_usage s + charge - sum_list (take j (map (charge_of (handles s)) (lc_lru s))))
    \<and> (lc_usage s' \<le> cap \<or> lc_lru s' = [])"
proof -
  have inv: "lru_inv s" "lc_capacity s = cap" using lru_reach_inv [OF assms(1)] by auto
  obtain s' where "lru_Insert key hash v charge del s = Inr (hnext s, s')" "lc_usage s' \<le> lc_capacity s \<or> lc_lru s' = []"
    by (rule lru_Insert_ok [OF inv(1)])
  then show ?thesis
    using lru_Insert_evicts [where v = v and charge = charge and del = del, OF inv(1) _ assms(3) refl]
      evict_count_enough [OF refl, of "\<lambda>u. cap < u" "lc_usage s + charge" "map (charge_of (handles s)) (lc_lru s)"]
      assms(2) inv(2) by auto
qed

theorem insert_evicts_oldest_witness:
  "\<exists>k s'. lru_Insert [1] 7 5 1 0 (LRUCache_init 2) = Inr (1, s') \<and> lc_lru s' = drop k [] \<and> lc_in_use s' = [1]
     \<and> (lc_usage s' \<le> 2 \<or> lc_lru s' = [])"
proof -
  have "content (LRUCache_init 2) ([1], 7) = None"
    using content_entry [OF LRUCache_init_inv, of 2 "([1], 7)"] by (simp add: LRUCache_init_def linked_def) (metis not_None_eq)
  from insert_evicts_oldest [where v = 5 and charge = 1 and del = 0, OF lru_reach.start _ this] show ?thesis by (auto simp: LRUCache_init_def)
qed

text \<open>C33: a handle that a client holds stays valid: its key, its value and the client's references
  are the same after any \<^verbatim>\<open>Insert\<close> (even of the same key), \<^verbatim>\<open>Erase\<close> or \<^verbatim>\<open>Prune\<close>.\<close>

theorem held_handle_survives:
  assumes "lru_reach cap s" "0 < cap" "0 < held s p"
    and "lru_Insert key hash v charge del s = Inr (q, s') \<or> lru_Erase key hash s = Inr ((), s') \<or> lru_Prune s = Inr ((), s')"
  shows "entry s' p = entry s p \<and> entry s p \<noteq> None \<and> held s' p = held s p"
proof -
  have inv: "lru_inv s" "0 < lc_capacity s" using lru_reach_inv [OF assms(1)] assms(2) by auto
  have some: "entry s p \<noteq> None" using assms(3) by (auto simp: entry_def held_def split: option.splits)
  obtain s1 where 1: "lru_Insert key hash v charge del s = Inr (hnext s, s1)" "held s1 = (held s)(hnext s := 1)"
    "\<And>q. 0 < held s q \<Longrightarrow> entry s1 q = entry s q" by (rule lru_Insert_run [OF inv]) (rule that)
  obtain s2 where 2: "lru_Erase key hash s = Inr ((), s2)" "shrunk s s2" by (rule lru_Erase_run [OF inv(1)])
  obtain s3 where 3: "lru_Prune s = Inr ((), s3)" "shrunk s s3" by (rule lru_Prune_run [OF inv(1)])
  have "p \<noteq> hnext s" using assms(3) hnext_new(1) [OF inv(1)] by (auto simp: held_def)
  then show ?thesis using assms(3,4) 1 2 3 some shrunkD(3,4) by auto
qed

theorem held_handle_survives_witness:
  "\<exists>s s'. lru_reach 2 s \<and> held s 1 = 1 \<and> lru_Erase [1] 7 s = Inr ((), s') \<and> entry s' 1 = Some (([1], 7), 5) \<and> held s' 1 = 1"
proof -
  have "0 < lc_capacity (LRUCache_init 2)" by (simp add: LRUCache_init_def)
  from LRUCache_init_inv this obtain s where
    s: "lru_Insert [1] 7 5 1 0 (LRUCache_init 2) = Inr (hnext (LRUCache_init 2), s)"
      "held s = (held (LRUCache_init 2))(hnext (LRUCache_init 2) := 1)" "lru_inv s"
      "entry s (hnext (LRUCache_init 2)) = Some (([1], 7), 5)" by (rule lru_Insert_run) (rule that)
  then have r: "lru_reach 2 s" by (blast intro: lru_reach.start lru_reach.insert)
  have h: "held s 1 = 1" "entry s 1 = Some (([1], 7), 5)" using s(2,4) by (simp_all add: LRUCache_init_def)
  obtain s' where e: "lru_Erase [1] 7 s = Inr ((), s')" by (rule lru_Erase_run [OF s(3)])
  from held_handle_survives [OF r, of 1 "[1]" 7 0 0 0 0 s'] e h
  have "entry s' 1 = entry s 1 \<and> held s' 1 = held s 1" by simp
  with e h r show ?thesis by (intro exI [of _ s] exI [of _ s']) simp
qed

text \<open>C31: \<^verbatim>\<open>ShardedLRUCache::Insert\<close> and \<^verbatim>\<open>Lookup\<close> are a round trip: a key that was just inserted is found with
  its value; every other key has its old value or has been evicted.\<close>

theorem insert_lookup:
  assumes "cache_inv c" "\<forall>h. holds c h < 2 ^ 32 - 2" "cache_Insert key v charge del c = Inr (h, c')"
  shows "\<exists>h' c''. cache_Lookup key c' = Inr (h', c'') \<and> h' \<noteq> null_handle \<and> cache_Value h' c'' = Inr (v, c'') \<and> cache_inv c''
    \<and> (\<forall>j. j \<noteq> key \<longrightarrow> cached c'' j = None \<or> cached c'' j = cached c j)"
proof -
  from cache_Insert_run [OF assms(1), of key v charge del] assms(3)
  have i: "cache_inv c'" "cached c' key = Some v" "\<forall>j. j \<noteq> key \<longrightarrow> cached c' j = None \<or> cached c' j = cached c j"
    "holds c' = (holds c)(h := 1)" by auto
  have "\<forall>h. holds c' h < 2 ^ 32 - 2" using assms(2) i(4) by simp
  from cache_Lookup_some [OF i(1) this i(2)] i(3) show ?thesis by metis
qed

theorem insert_lookup_witness:
  "\<exists>h c'. cache_Insert [10, 0, 0, 1] 5 1 0 (NewLRUCache 100000) = Inr (h, c')
     \<and> (\<exists>h' c''. cache_Lookup [10, 0, 0, 1] c' = Inr (h', c'') \<and> cache_Value h' c'' = Inr (5, c''))"
proof -
  have i: "cache_inv (NewLRUCache 100000)" by (rule NewLRUCache_inv) simp
  from cache_Insert_run [OF this] obtain h c' where
    r: "cache_Insert [10, 0, 0, 1] 5 1 0 (NewLRUCache 100000) = Inr (h, c')" by blast
  with insert_lookup [OF i _ r] show ?thesis by auto
qed

end
