(* ===== verification/DpiTraffic.thy ===== *)
theory DpiTraffic
  imports RxConn Traffic LdbShards
begin

text \<open>
  The dpi process (\<^verbatim>\<open>ic-dpi\<close>): its state, and the accounts of the client addresses
  (\<^verbatim>\<open>LvldbMgr.cpp\<close>, \<^verbatim>\<open>PcapModule.cpp\<close>). Packets that the capture sees are added to the account of
  the client's address, and the account is reported to the traffic recorder when the client's
  connection has ended. Here each handler runs undisturbed; the theory \<open>DpiRace\<close> has the
  interleavings of the two threads.
\<close>

subsection \<open>Objects\<close>

text \<open>\<^verbatim>\<open>struct IpUserTraffic\<close>: the account of a client address. The three \<^verbatim>\<open>int\<close>s are 32-bit words that
  are compared signed.\<close>

record IpUserTraffic =
  i_ip_be :: u32
  i_reporting :: u32
  i_fins :: u32
  i_traffic :: u32
  i_mobile :: u64
  i_app :: u64

text \<open>What \<^verbatim>\<open>calloc\<close> returns.\<close>

definition IpUserTraffic_zero :: IpUserTraffic where
  "IpUserTraffic_zero = \<lparr>i_ip_be = 0, i_reporting = 0, i_fins = 0, i_traffic = 0, i_mobile = 0, i_app = 0\<rparr>"

record DConnect =
  d_sock_fd :: u64
  d_status :: u8
  d_type :: u8
  d_exit :: u8
  d_tmsid :: u64
  d_rx :: rx

abbreviation (input) dt_center :: u8 where "dt_center \<equiv> 3"
abbreviation (input) dt_dpi :: u8 where "dt_dpi \<equiv> 5"
abbreviation (input) dt_tms :: u8 where "dt_tms \<equiv> 6"

definition DConnect_init :: "bytes \<Rightarrow> DConnect" where
  "DConnect_init junk =
     \<lparr>d_sock_fd = 0, d_status = 0, d_type = 0, d_exit = 0, d_tmsid = 0,
      d_rx = \<lparr>rx_cstate = s_header, rx_h = hdr_init, rx_stillneedtoread = 0, rx_offset = 0, rx_datalen = 0,
              rx_buff = junk\<rparr>\<rparr>"

text \<open>The process: the objects on its heap, \<^verbatim>\<open>ConnectMgr\<close>, the first cache of \<^verbatim>\<open>LvldbMgr::cache_tbl\<close>, and
  the address of the tms that the command line gives.\<close>

record dpi = os +
  dp_conns :: "ptr \<rightharpoonup> DConnect"
  dp_next :: ptr
  dp_Epoll_FD :: u64
  dp_ConnMap :: "(u64, ptr) std_map"
  dp_CenterConnPool :: "ptr list"
  dp_TmsConnPool :: "ptr list"
  dp_cache :: ShardedLRUCache
  dp_users :: "ptr \<rightharpoonup> IpUserTraffic"
  dp_unext :: ptr
  dp_tms_addr :: u32

type_synonym 'a dpiprog = "(dpi, 'a) prog"

abbreviation (input) hash_capacity :: u64 where "hash_capacity \<equiv> 100000"

text \<open>The process after \<^verbatim>\<open>LvldbMgr::Init\<close>.\<close>

definition dpi_start :: "os \<Rightarrow> u32 \<Rightarrow> dpi" where
  "dpi_start os addr = os.extend os
     \<lparr>dp_conns = Map.empty, dp_next = 1, dp_Epoll_FD = - 1, dp_ConnMap = [], dp_CenterConnPool = [],
      dp_TmsConnPool = [], dp_cache = NewLRUCache hash_capacity, dp_users = Map.empty, dp_unext = 1,
      dp_tms_addr = addr\<rparr>"

subsection \<open>Access\<close>

abbreviation dconn_at :: "ptr \<Rightarrow> DConnect dpiprog" where "dconn_at \<equiv> heap_get dp_conns"
abbreviation duser_at :: "ptr \<Rightarrow> IpUserTraffic dpiprog" where "duser_at \<equiv> heap_get dp_users"

definition upd_dconn :: "ptr \<Rightarrow> (DConnect \<Rightarrow> DConnect) \<Rightarrow> unit dpiprog" where
  "upd_dconn p f = andThen (dconn_at p) (\<lambda>c. modify (\<lambda>s. s\<lparr>dp_conns := (dp_conns s)(p \<mapsto> f c)\<rparr>))"

definition upd_duser :: "ptr \<Rightarrow> (IpUserTraffic \<Rightarrow> IpUserTraffic) \<Rightarrow> unit dpiprog" where
  "upd_duser p f = andThen (duser_at p) (\<lambda>u. modify (\<lambda>s. s\<lparr>dp_users := (dp_users s)(p \<mapsto> f u)\<rparr>))"

definition calloc_user :: "ptr dpiprog" where
  "calloc_user = (\<lambda>s. Inr (dp_unext s, s\<lparr>dp_unext := Suc (dp_unext s),
     dp_users := (dp_users s)(dp_unext s \<mapsto> IpUserTraffic_zero)\<rparr>))"

definition on_cache :: "'a cacheprog \<Rightarrow> 'a dpiprog" where
  "on_cache = zoom dp_cache (\<lambda>c s. s\<lparr>dp_cache := c\<rparr>)"

abbreviation GetCenterConn :: "ptr dpiprog" where "GetCenterConn \<equiv> front_of dp_CenterConnPool"

subsection \<open>Sending\<close>

definition dpi_SendMsg :: "ptr \<Rightarrow> bytes \<Rightarrow> int dpiprog" where
  "dpi_SendMsg p msg = andThen (dconn_at p) (\<lambda>c. sys_send (d_sock_fd c) msg)"

definition dpi_SendTmsMsg :: "ptr \<Rightarrow> bytes \<Rightarrow> int dpiprog" where
  "dpi_SendTmsMsg p msg =
     andThen (require OutOfBounds (sizeof_hdr + length msg \<le> 1024)) (\<lambda>_.
     andThen (dconn_at p) (\<lambda>c. sys_send (d_sock_fd c) (frame msg)))"

subsection \<open>Traffic of client addresses\<close>

abbreviation (input) fin_type_c :: u32 where "fin_type_c \<equiv> 1"
abbreviation (input) fin_type_s :: u32 where "fin_type_s \<equiv> 2"
abbreviation (input) fin_type_r :: u32 where "fin_type_r \<equiv> 4"
abbreviation (input) MinAckLen :: u32 where "MinAckLen \<equiv> 40"

text \<open>The account of an address: found in the cache, or a new one that is entered. The deleter only
  prints; accounts are never freed.\<close>

definition ip_key :: "u32 \<Rightarrow> bytes" where
  "ip_key ip = st32 ip"

definition entry_handle :: "u32 \<Rightarrow> Handle dpiprog" where
  "entry_handle ip =
     andThen (on_cache (cache_Lookup (ip_key ip))) (\<lambda>h.
     if h = null_handle
     then andThen calloc_user (\<lambda>dbu. on_cache (cache_Insert (ip_key ip) dbu 1 0))
     else ret h)"

definition OnUserLogin :: "SynUserTuple \<Rightarrow> unit dpiprog" where
  "OnUserLogin u =
     andThen (entry_handle (su_src_ip_be u)) (\<lambda>h.
     andThen (on_cache (cache_Value h)) (\<lambda>dbu.
     andThen (upd_duser dbu (\<lambda>a. a\<lparr>i_ip_be := su_src_ip_be u, i_mobile := su_mobile u, i_app := su_app u\<rparr>)) (\<lambda>_.
     on_cache (cache_Release h))))"

text \<open>The report goes to the traffic recorder.\<close>

definition report_of :: "u32 \<Rightarrow> IpUserTraffic \<Rightarrow> u64 \<Rightarrow> timeval \<Rightarrow> timeval \<Rightarrow> TrafficReport" where
  "report_of ip a n bt et = TrafficReport_init
     \<lparr>tr_mobile := i_mobile a, tr_app := i_app a, tr_ip := ip, tr_traffic := n, tr_btime := bt, tr_etime := et,
      tr_host := blit (tr_host TrafficReport_init) 0 [45, 0], tr_hlen := 1\<rparr>"

definition send_report :: "u32 \<Rightarrow> IpUserTraffic \<Rightarrow> u64 \<Rightarrow> unit dpiprog" where
  "send_report ip a n =
     andThen gettimeofday (\<lambda>bt.
     andThen gettimeofday (\<lambda>et.
     andThen GetCenterConn (\<lambda>c.
     andThen (dpi_SendTmsMsg c (enc_TrafficReport (report_of ip a n bt et))) (\<lambda>_. ret ()))))"

text \<open>The loop of \<^verbatim>\<open>OnTrafficReport\<close> when no other thread interferes, so that each \<^verbatim>\<open>atomic_cas\<close> succeeds:
  the account afterwards and the amount to report. The amount is computed in 64 bits from the
  signed account and the packet.\<close>

definition packet_entry :: "IpUserTraffic \<Rightarrow> u64 \<Rightarrow> u32 \<Rightarrow> IpUserTraffic \<times> u64 option" where
  "packet_entry a traffic fin_type =
     (let a1 = a\<lparr>i_fins := i_fins a OR fin_type\<rparr>;
          fin = sint (fin_type_c OR fin_type_s) \<le> sint (i_fins a1);
          added = a1\<lparr>i_traffic := i_traffic a1 + ucast traffic\<rparr> in
      if \<not> fin then (added, None)
      else if i_reporting a1 = 0 \<and> 256 < sint (i_traffic a1) then
        if i_mobile a1 = 0 then (a1, None)
        else (a1\<lparr>i_reporting := 1, i_traffic := - MinAckLen, i_fins := 0\<rparr>,
              Some (scast (i_traffic a1) + traffic + ucast MinAckLen))
      else (added, None))"

definition OnTrafficReport :: "u32 \<Rightarrow> u64 \<Rightarrow> u32 \<Rightarrow> unit dpiprog" where
  "OnTrafficReport ip traffic fin_type =
     andThen (entry_handle ip) (\<lambda>h.
     andThen (on_cache (cache_Value h)) (\<lambda>dbu.
     andThen (duser_at dbu) (\<lambda>a.
     andThen (upd_duser dbu (\<lambda>_. fst (packet_entry a traffic fin_type))) (\<lambda>_.
     andThen (case snd (packet_entry a traffic fin_type) of None \<Rightarrow> ret () | Some n \<Rightarrow> send_report ip a n) (\<lambda>_.
     on_cache (cache_Release h))))))"

text \<open>The loop of \<^verbatim>\<open>OnTrafficReportReply\<close> in the same way. The sum is an \<^verbatim>\<open>int\<close> that is widened.\<close>

definition reply_entry :: "IpUserTraffic \<Rightarrow> IpUserTraffic \<times> u64 option" where
  "reply_entry a =
     (if i_reporting a = 0 then (a, None)
      else if 256 < sint (i_traffic a) \<and> i_fins a AND (fin_type_c OR fin_type_s) \<noteq> 0
      then (a\<lparr>i_traffic := - MinAckLen, i_fins := 0\<rparr>, Some (scast (i_traffic a + MinAckLen)))
      else (a\<lparr>i_reporting := 0\<rparr>, None))"

definition OnTrafficReportReply :: "u32 \<Rightarrow> unit dpiprog" where
  "OnTrafficReportReply ip =
     andThen (entry_handle ip) (\<lambda>h.
     andThen (on_cache (cache_Value h)) (\<lambda>dbu.
     andThen (duser_at dbu) (\<lambda>a.
     andThen (upd_duser dbu (\<lambda>_. fst (reply_entry a))) (\<lambda>_.
     andThen (case snd (reply_entry a) of None \<Rightarrow> ret () | Some n \<Rightarrow> send_report ip a n) (\<lambda>_.
     on_cache (cache_Release h))))))"

subsection \<open>Packets\<close>

text \<open>\<^verbatim>\<open>dpi_packet_process\<close> reads the IPv4 header behind the 14 bytes of the Ethernet header and the TCP
  header behind that. The capture has at most 1000 bytes of the packet; reading behind it is a
  fault. The length of the packet on the wire is unsigned.\<close>

definition dpi_packet_process :: "u32 \<Rightarrow> bytes \<Rightarrow> unit dpiprog" where
  "dpi_packet_process len packet =
     andThen (require OutOfBounds (14 + 20 \<le> length packet)) (\<lambda>_.
     (let ip_hdr = drop 14 packet;
          tcp_hdr = drop (unat (ld8 ip_hdr 0 AND 0x0F) * 4) ip_hdr in
      andThen (require OutOfBounds (20 \<le> length tcp_hdr)) (\<lambda>_.
      andThen (gets dp_tms_addr) (\<lambda>tms_addr.
      (let src = ld32 ip_hdr 12; dst = ld32 ip_hdr 16;
           fin = bit (ld8 tcp_hdr 13) 0; rst = bit (ld8 tcp_hdr 13) 2;
           client = (if src = tms_addr then dst else src);
           fin_type = (if rst then fin_type_r
                       else if fin then (if src = tms_addr then fin_type_s else fin_type_c) else 0);
           payload_len = TelecomTrafficPredict (len - 14 - word_of_int Tcp_Ack_Len) in
       OnTrafficReport client (scast payload_len) fin_type)))))"

end
