(* ===== verification/DpiAccount.thy ===== *)
theory DpiAccount
  imports DpiTraffic
begin

text \<open>
  The accounts of the dpi: every handler replaces the account of one address and may report an
  amount (\<open>on_account\<close>), on top of the contract of the LRU cache; from that, no traffic is lost
  or invented as long as an account stays in the cache.
\<close>

subsection \<open>Accounts\<close>

definition dpi_wf :: "dpi \<Rightarrow> bool" where
  "dpi_wf s \<longleftrightarrow> lru.idle (dp_cache s) \<and> 0 < dp_unext s
     \<and> (\<forall>k v. cached (dp_cache s) k = Some v \<longrightarrow> v \<noteq> 0 \<and> v < dp_unext s \<and> dp_users s v \<noteq> None)
     \<and> (\<forall>k k' v. cached (dp_cache s) k = Some v \<longrightarrow> cached (dp_cache s) k' = Some v \<longrightarrow> k = k')"

text \<open>The account of an address; one that is not cached starts from zero.\<close>

definition acct :: "dpi \<Rightarrow> u32 \<Rightarrow> IpUserTraffic" where
  "acct s ip = (case cached (dp_cache s) (ip_key ip) of None \<Rightarrow> IpUserTraffic_zero
     | Some v \<Rightarrow> (case dp_users s v of None \<Rightarrow> IpUserTraffic_zero | Some a \<Rightarrow> a))"

lemma ip_key_inj: "ip_key a = ip_key b \<longleftrightarrow> a = b"
proof
  assume "ip_key a = ip_key b"
  then have "from_le (ip_key a) = from_le (ip_key b)" by simp
  then show "a = b" by (simp add: ip_key_def word_unat_eq_iff)
qed simp

lemma dpi_frame [simp]:
  "dpi_wf (s\<lparr>os_tick := n\<rparr>) = dpi_wf s" "dpi_wf (s\<lparr>os_log := l\<rparr>) = dpi_wf s"
  "acct (s\<lparr>os_tick := n\<rparr>) = acct s" "acct (s\<lparr>os_log := l\<rparr>) = acct s"
  by (simp_all add: dpi_wf_def acct_def fun_eq_iff cong: option.case_cong)

text \<open>\<open>settled s ip a s'\<close>: the account of \<open>ip\<close> is \<open>a\<close> now; the other accounts are as they were, or
  their entries have been evicted.\<close>

definition settled :: "dpi \<Rightarrow> u32 \<Rightarrow> IpUserTraffic \<Rightarrow> dpi \<Rightarrow> bool" where
  "settled s ip a s' \<longleftrightarrow> dpi_wf s' \<and> acct s' ip = a \<and> cached (dp_cache s') (ip_key ip) \<noteq> None
     \<and> (\<forall>j. j \<noteq> ip \<longrightarrow> acct s' j = acct s j \<or> cached (dp_cache s') (ip_key j) = None)
     \<and> dp_conns s' = dp_conns s \<and> dp_ConnMap s' = dp_ConnMap s \<and> dp_CenterConnPool s' = dp_CenterConnPool s
     \<and> dp_next s' = dp_next s \<and> dp_TmsConnPool s' = dp_TmsConnPool s \<and> dp_Epoll_FD s' = dp_Epoll_FD s"

lemma on_cache_run [simp]: "m (dp_cache s) = Inr (x, c) \<Longrightarrow> on_cache m s = Inr (x, s\<lparr>dp_cache := c\<rparr>)"
  by (simp add: on_cache_def)

lemma upd_duser_run [simp]:
  "v \<noteq> 0 \<Longrightarrow> dp_users s v = Some a \<Longrightarrow> upd_duser v f s = Inr ((), s\<lparr>dp_users := (dp_users s)(v \<mapsto> f a)\<rparr>)"
  by (simp add: upd_duser_def)

lemma dpi_wfD:
  assumes "dpi_wf s" "cached (dp_cache s) k = Some v"
  shows "v \<noteq> 0" "v < dp_unext s" "\<exists>a. dp_users s v = Some a" "cached (dp_cache s) k' = Some v \<Longrightarrow> k' = k"
  using assms unfolding dpi_wf_def by blast+

lemma dpi_wfI:
  assumes "lru.idle (dp_cache s)" "0 < dp_unext s"
    "\<And>k v. cached (dp_cache s) k = Some v \<Longrightarrow> v \<noteq> 0 \<and> v < dp_unext s \<and> dp_users s v \<noteq> None"
    "\<And>k k' v. cached (dp_cache s) k = Some v \<Longrightarrow> cached (dp_cache s) k' = Some v \<Longrightarrow> k = k'"
  shows "dpi_wf s"
  using assms unfolding dpi_wf_def by blast

lemma entry_run:
  assumes wf: "dpi_wf s"
  obtains h v c1 c2 us n where "entry_handle ip s = Inr (h, s\<lparr>dp_cache := c1, dp_users := us, dp_unext := n\<rparr>)"
    "cache_Value h c1 = Inr (v, c1)" "cache_Release h c1 = Inr ((), c2)" "v \<noteq> 0" "us v = Some (acct s ip)"
    "\<And>a. settled s ip a (s\<lparr>dp_cache := c2, dp_users := us(v \<mapsto> a), dp_unext := n\<rparr>)"
proof (cases "cached (dp_cache s) (ip_key ip)")
  case (Some v)
  have i: "lru.idle (dp_cache s)" using wf by (simp add: dpi_wf_def)
  obtain h c1 c2 where h: "cache_Lookup (ip_key ip) (dp_cache s) = Inr (h, c1)" "h \<noteq> null_handle"
    "cache_Value h c1 = Inr (v, c1)" "cache_Release h c1 = Inr ((), c2)" "lru.idle c2" "cached c2 = cached (dp_cache s)"
    by (rule lru.hit [OF i Some])
  obtain a0 where v: "v \<noteq> 0" "dp_users s v = Some a0" using dpi_wfD [OF wf Some] by blast
  let ?s = "\<lambda>a. s\<lparr>dp_cache := c2, dp_users := (dp_users s)(v \<mapsto> a), dp_unext := dp_unext s\<rparr>"
  have "dpi_wf (?s a)" for a using wf h(5,6) by (auto simp: dpi_wf_def)
  moreover have "acct (?s a) ip = a" for a using Some h(6) by (simp add: acct_def)
  moreover have "acct (?s a) j = acct s j" if "j \<noteq> ip" for a j
  proof -
    have "cached (dp_cache s) (ip_key j) \<noteq> Some v" using dpi_wfD(4) [OF wf Some] that ip_key_inj by blast
    then show ?thesis using h(6) by (auto simp: acct_def split: option.splits)
  qed
  ultimately have "settled s ip a (?s a)" for a using Some h(6) by (simp add: settled_def)
  moreover have "entry_handle ip s = Inr (h, s\<lparr>dp_cache := c1, dp_users := dp_users s, dp_unext := dp_unext s\<rparr>)"
    using h(1,2) by (simp add: entry_handle_def)
  moreover have "dp_users s v = Some (acct s ip)" using Some v by (simp add: acct_def)
  ultimately show thesis using that [OF _ h(3,4) v(1)] by blast
next
  case None
  have i: "lru.idle (dp_cache s)" using wf by (simp add: dpi_wf_def)
  let ?v = "dp_unext s"
  obtain h c1 c2 where h: "cache_Lookup (ip_key ip) (dp_cache s) = Inr (null_handle, dp_cache s)"
    "cache_Insert (ip_key ip) ?v 1 0 (dp_cache s) = Inr (h, c1)" "cache_Value h c1 = Inr (?v, c1)"
    "cache_Release h c1 = Inr ((), c2)" "lru.idle c2" "cached c2 (ip_key ip) = Some ?v"
    "\<And>j. j \<noteq> ip_key ip \<Longrightarrow> cached c2 j = None \<or> cached c2 j = cached (dp_cache s) j"
    by (rule lru.miss [where charge = 1 and del = 0 and v = ?v, OF i None]) (rule that)
  let ?us = "(dp_users s)(?v \<mapsto> IpUserTraffic_zero)"
  let ?s = "\<lambda>a. s\<lparr>dp_cache := c2, dp_users := ?us(?v \<mapsto> a), dp_unext := Suc ?v\<rparr>"
  have v: "?v \<noteq> 0" using wf by (simp add: dpi_wf_def)
  have old: "cached (dp_cache s) k \<noteq> Some ?v" for k using dpi_wfD(2) [OF wf, of k ?v] by blast
  have c2: "cached c2 k = Some w \<Longrightarrow> (k = ip_key ip \<and> w = ?v) \<or> (k \<noteq> ip_key ip \<and> cached (dp_cache s) k = Some w)" for k w
    using h(6) h(7) [of k] by (cases "k = ip_key ip") auto
  have "dpi_wf (?s a)" for a
  proof (rule dpi_wfI)
    show "w \<noteq> 0 \<and> w < dp_unext (?s a) \<and> dp_users (?s a) w \<noteq> None" if "cached (dp_cache (?s a)) k = Some w" for k w
      using c2 [of k w] that v dpi_wfD(1-3) [OF wf, of k w] by auto
    show "k = k'" if "cached (dp_cache (?s a)) k = Some w" "cached (dp_cache (?s a)) k' = Some w" for k k' w
      using c2 [of k w] c2 [of k' w] that old dpi_wfD(4) [OF wf, of k w k'] by auto
  qed (use h(5) in simp_all)
  moreover have "acct (?s a) ip = a" for a using h(6) by (simp add: acct_def)
  moreover have "acct (?s a) j = acct s j \<or> cached c2 (ip_key j) = None" if "j \<noteq> ip" for a j
    using h(7) [of "ip_key j"] that old [of "ip_key j"] by (auto simp: acct_def ip_key_inj split: option.splits)
  ultimately have "settled s ip a (?s a)" for a using h(6) by (simp add: settled_def)
  moreover have "entry_handle ip s = Inr (h, s\<lparr>dp_cache := c1, dp_users := ?us, dp_unext := Suc ?v\<rparr>)"
    using h(1,2) by (simp add: entry_handle_def calloc_user_def)
  moreover have "?us ?v = Some (acct s ip)" using None by (simp add: acct_def)
  ultimately show thesis using that [OF _ h(3,4) v] by blast
qed


definition center_at :: "dpi \<Rightarrow> DConnect \<Rightarrow> bool" where
  "center_at s c \<longleftrightarrow> (\<exists>p ps. dp_CenterConnPool s = p # ps \<and> p \<noteq> 0 \<and> dp_conns s p = Some c)"

text \<open>What the report of an amount puts into the log.\<close>

definition report_log :: "dpi \<Rightarrow> DConnect \<Rightarrow> u32 \<Rightarrow> IpUserTraffic \<Rightarrow> u64 option \<Rightarrow> event list \<Rightarrow> bool" where
  "report_log s c ip a amount l \<longleftrightarrow> (case amount of None \<Rightarrow> l = []
     | Some n \<Rightarrow> \<exists>bt et r. l = [Send (d_sock_fd c) (frame (enc_TrafficReport (report_of ip a n bt et))) r])"

lemma length_report: "length (enc_TrafficReport (report_of ip a n bt et)) = 319"
  by (simp add: enc_TrafficReport_def report_of_def TrafficReport_init_def st_timeval_def)

lemma send_report_run:
  assumes "center_at s c"
  obtains l where "send_report ip a n s = Inr ((), s\<lparr>os_tick := os_tick s + 3, os_log := os_log s @ l\<rparr>)"
    "report_log s c ip a (Some n) l"
proof -
  obtain p ps where p: "dp_CenterConnPool s = p # ps" "p \<noteq> 0" "dp_conns s p = Some c"
    using assms by (auto simp: center_at_def)
  let ?m = "frame (enc_TrafficReport (report_of ip a n (os_clock s (os_tick s)) (os_clock s (Suc (os_tick s)))))"
  have "send_report ip a n s = Inr ((), s\<lparr>os_tick := os_tick s + 3, os_log := os_log s @
      [Send (d_sock_fd c) ?m (send_result (s\<lparr>os_tick := Suc (Suc (os_tick s))\<rparr>) ?m)]\<rparr>)"
    using p by (simp add: send_report_def dpi_SendTmsMsg_def length_report numeral_3_eq_3)
  then show thesis by (rule that) (simp only: report_log_def option.case, blast)
qed

text \<open>The shape of the three handlers: fetch the account, replace it, report, release.\<close>

definition on_account :: "u32 \<Rightarrow> (IpUserTraffic \<Rightarrow> IpUserTraffic \<times> u64 option) \<Rightarrow> unit dpiprog" where
  "on_account ip f =
     andThen (entry_handle ip) (\<lambda>h.
     andThen (on_cache (cache_Value h)) (\<lambda>dbu.
     andThen (duser_at dbu) (\<lambda>a.
     andThen (upd_duser dbu (\<lambda>_. fst (f a))) (\<lambda>_.
     andThen (case snd (f a) of None \<Rightarrow> ret () | Some n \<Rightarrow> send_report ip a n) (\<lambda>_.
     on_cache (cache_Release h))))))"

lemma on_account:
  "OnTrafficReport ip n ft = on_account ip (\<lambda>a. packet_entry a n ft)"
  "OnTrafficReportReply ip = on_account ip reply_entry"
  by (simp_all add: OnTrafficReport_def OnTrafficReportReply_def on_account_def)

lemma OnUserLogin_account:
  "OnUserLogin u = on_account (su_src_ip_be u)
     (\<lambda>a. (a\<lparr>i_ip_be := su_src_ip_be u, i_mobile := su_mobile u, i_app := su_app u\<rparr>, None))"
  by (auto simp: OnUserLogin_def on_account_def fun_eq_iff andThen_apply upd_duser_def heap_get_def split: sum.split option.split)

lemma on_account_run:
  assumes wf: "dpi_wf s" and c: "center_at s c"
  obtains s' l where "on_account ip f s = Inr ((), s')" "settled s ip (fst (f (acct s ip))) s'"
    "os_log s' = os_log s @ l" "report_log s c ip (acct s ip) (snd (f (acct s ip))) l"
proof -
  let ?a = "acct s ip"
  obtain h v c1 c2 us n where e: "entry_handle ip s = Inr (h, s\<lparr>dp_cache := c1, dp_users := us, dp_unext := n\<rparr>)"
    "cache_Value h c1 = Inr (v, c1)" "cache_Release h c1 = Inr ((), c2)" "v \<noteq> 0" "us v = Some ?a"
    "\<And>a. settled s ip a (s\<lparr>dp_cache := c2, dp_users := us(v \<mapsto> a), dp_unext := n\<rparr>)"
    by (rule entry_run [OF wf]) (rule that)
  let ?s = "s\<lparr>dp_cache := c1, dp_users := us(v \<mapsto> fst (f ?a)), dp_unext := n\<rparr>"
  have "\<exists>k l. (case snd (f ?a) of None \<Rightarrow> ret () | Some m \<Rightarrow> send_report ip ?a m) ?s
      = Inr ((), ?s\<lparr>os_tick := k, os_log := os_log s @ l\<rparr>) \<and> report_log s c ip ?a (snd (f ?a)) l"
  proof (cases "snd (f ?a)")
    case None
    then show ?thesis by (intro exI [of _ "os_tick s"] exI [of _ "[]"]) (simp add: report_log_def)
  next
    case (Some m)
    have "center_at ?s c" using c by (simp add: center_at_def)
    then obtain l where "send_report ip ?a m ?s = Inr ((), ?s\<lparr>os_tick := os_tick ?s + 3, os_log := os_log ?s @ l\<rparr>)"
      "report_log ?s c ip ?a (Some m) l" by (rule send_report_run)
    then show ?thesis
      by (intro exI [of _ "os_tick s + 3"] exI [of _ l] conjI) (simp_all add: Some report_log_def)
  qed
  then obtain k l where r: "(case snd (f ?a) of None \<Rightarrow> ret () | Some m \<Rightarrow> send_report ip ?a m) ?s
      = Inr ((), ?s\<lparr>os_tick := k, os_log := os_log s @ l\<rparr>)" "report_log s c ip ?a (snd (f ?a)) l" by blast
  let ?t = "(s\<lparr>dp_cache := c2, dp_users := us(v \<mapsto> fst (f ?a)), dp_unext := n\<rparr>)\<lparr>os_tick := k, os_log := os_log s @ l\<rparr>"
  let ?s1 = "s\<lparr>dp_cache := c1, dp_users := us, dp_unext := n\<rparr>"
  have "on_cache (cache_Value h) ?s1 = Inr (v, ?s1)" "duser_at v ?s1 = Inr (?a, ?s1)"
    "upd_duser v (\<lambda>_. fst (f ?a)) ?s1 = Inr ((), ?s)"
    "on_cache (cache_Release h) (?s\<lparr>os_tick := k, os_log := os_log s @ l\<rparr>) = Inr ((), ?t)"
    using e(2-5) by simp_all
  then have "on_account ip f s = Inr ((), ?t)" by (simp only: on_account_def andThen_Inr e(1) r(1))
  moreover have "settled s ip (fst (f ?a)) ?t" using e(6) [of "fst (f ?a)"] by (simp add: settled_def)
  ultimately show thesis using that r(2) by simp
qed


subsection \<open>Conservation\<close>

lemma take_bit_add_64: "take_bit 32 (take_bit 64 x + take_bit 64 y) = take_bit 32 (x + y)" for x y :: int
  using take_bit_add [of 32 "take_bit 64 x" "take_bit 64 y"] take_bit_add [of 32 x y] by simp

lemma ucast_add: "(ucast (x + y :: u64) :: u32) = ucast x + ucast y"
  by transfer (simp add: take_bit_add_64)

lemma ucast_scast: "ucast (scast (t :: u32) :: u64) = t"
  by (rule bit_word_eqI) (auto simp: bit_simps)

definition amount :: "u64 option \<Rightarrow> u32" where
  "amount r = (case r of None \<Rightarrow> 0 | Some n \<Rightarrow> ucast n)"

text \<open>A packet that ends a connection of a client that has not logged in is not counted.\<close>

definition drops :: "IpUserTraffic \<Rightarrow> u32 \<Rightarrow> bool" where
  "drops a fin_type \<longleftrightarrow> i_mobile a = 0 \<and> i_reporting a = 0 \<and> 256 < sint (i_traffic a) \<and> 3 \<le> sint (i_fins a OR fin_type)"

lemma packet_entry_conserves:
  "i_traffic (fst (packet_entry a n ft)) + amount (snd (packet_entry a n ft))
     = i_traffic a + (if drops a ft then 0 else ucast n)"
  by (simp add: packet_entry_def drops_def amount_def Let_def ucast_add ucast_scast add.assoc)

lemma reply_entry_conserves:
  "i_traffic (fst (reply_entry a)) + amount (snd (reply_entry a)) = i_traffic a"
  by (auto simp: reply_entry_def amount_def ucast_scast)

text \<open>The bytes that the reports in a log account to an address, as 32 bits.\<close>

definition reported_by :: "u32 \<Rightarrow> event \<Rightarrow> u32" where
  "reported_by ip e = (case e of
       Send fd bs r \<Rightarrow> (let m = drop sizeof_hdr bs in
         if msg_id m = TRAFFIC_REPORT \<and> tr_ip (dec_TrafficReport m) = ip then ucast (tr_traffic (dec_TrafficReport m)) else 0)
     | _ \<Rightarrow> 0)"

definition reported :: "u32 \<Rightarrow> event list \<Rightarrow> u32" where
  "reported ip l = sum_list (map (reported_by ip) l)"

lemma reported_append [simp]: "reported ip (l @ l') = reported ip l + reported ip l'"
  by (simp add: reported_def)

lemma reported_frame:
  "reported_by j (Send fd (frame (enc_TrafficReport (report_of ip a n bt et))) r) = (if j = ip then ucast n else 0)"
proof -
  let ?r = "report_of ip a n bt et"
  have "drop sizeof_hdr (frame (enc_TrafficReport ?r)) = enc_TrafficReport ?r" by (simp add: frame_def enc_hdr_def)
  moreover have "length (tr_host ?r) = 256" by (simp add: report_of_def TrafficReport_init_def)
  then have "dec_TrafficReport (enc_TrafficReport ?r) = ?r" using dec_enc_TrafficReport [of ?r "[]"] by simp
  moreover have "msg_id (enc_TrafficReport ?r) = TRAFFIC_REPORT" by (simp add: enc_TrafficReport_def)
  ultimately show ?thesis by (simp add: reported_by_def Let_def) (simp add: report_of_def)
qed

lemma reported_log: "report_log s c ip a r l \<Longrightarrow> reported j l = (if j = ip then amount r else 0)"
  by (auto simp: report_log_def amount_def reported_def reported_frame split: option.splits)

subsection \<open>Runs\<close>

datatype dpi_event = Packet u32 u64 u32 | Reply u32 | Login SynUserTuple

fun dpi_do :: "dpi_event \<Rightarrow> unit dpiprog" where
  "dpi_do (Packet ip n ft) = OnTrafficReport ip n ft"
| "dpi_do (Reply ip) = OnTrafficReportReply ip"
| "dpi_do (Login u) = OnUserLogin u"

fun counts :: "u32 \<Rightarrow> dpi_event \<Rightarrow> dpi \<Rightarrow> u32" where
  "counts ip (Packet j n ft) s = (if j = ip \<and> \<not> drops (acct s ip) ft then ucast n else 0)"
| "counts ip _ s = 0"

text \<open>\<open>dpi_run ip s n s'\<close>: a run during which packets of \<open>n\<close> bytes (as 32 bits) of the address were
  counted and its entry was not evicted.\<close>

inductive dpi_run :: "u32 \<Rightarrow> dpi \<Rightarrow> u32 \<Rightarrow> dpi \<Rightarrow> bool" for ip s where
  stop: "dpi_run ip s 0 s"
| step: "dpi_run ip s n t \<Longrightarrow> dpi_do e t = Inr ((), t') \<Longrightarrow>
    cached (dp_cache t) (ip_key ip) = None \<or> cached (dp_cache t') (ip_key ip) \<noteq> None \<Longrightarrow>
    dpi_run ip s (n + counts ip e t) t'"

lemma dpi_do_run:
  assumes wf: "dpi_wf s" and c: "center_at s c"
  obtains s' l where "dpi_do e s = Inr ((), s')" "dpi_wf s'" "center_at s' c" "os_log s' = os_log s @ l"
    "cached (dp_cache s) (ip_key ip) = None \<or> cached (dp_cache s') (ip_key ip) \<noteq> None \<Longrightarrow>
       reported ip l + i_traffic (acct s' ip) = i_traffic (acct s ip) + counts ip e s"
proof -
  note result = that
  have step: thesis if e: "dpi_do e = on_account j f"
    and f: "j = ip \<Longrightarrow> i_traffic (fst (f (acct s ip))) + amount (snd (f (acct s ip))) = i_traffic (acct s ip) + counts ip e s"
    and z: "j \<noteq> ip \<Longrightarrow> counts ip e s = 0" for j f
  proof -
    obtain s' l where r: "on_account j f s = Inr ((), s')" "settled s j (fst (f (acct s j))) s'"
      "os_log s' = os_log s @ l" "report_log s c j (acct s j) (snd (f (acct s j))) l"
      by (rule on_account_run [OF wf c])
    show thesis
    proof (rule result [of s' l])
      show "dpi_do e s = Inr ((), s')" "os_log s' = os_log s @ l" using r(1,3) e by simp_all
      show "dpi_wf s'" "center_at s' c" using r(2) c by (auto simp: settled_def center_at_def)
      assume k: "cached (dp_cache s) (ip_key ip) = None \<or> cached (dp_cache s') (ip_key ip) \<noteq> None"
      have z': "acct s' ip = acct s ip" if "j \<noteq> ip"
      proof -
        have "acct s' ip = acct s ip \<or> cached (dp_cache s') (ip_key ip) = None" using r(2) that by (simp add: settled_def)
        then show ?thesis using k by (auto simp: acct_def)
      qed
      show "reported ip l + i_traffic (acct s' ip) = i_traffic (acct s ip) + counts ip e s"
        using reported_log [OF r(4), of ip] r(2) f z z' by (cases "j = ip") (auto simp: settled_def add.commute)
    qed
  qed
  show thesis
  proof (cases e)
    case (Packet j n ft)
    show thesis by (rule step [of j "\<lambda>a. packet_entry a n ft"])
      (use Packet packet_entry_conserves [of "acct s j" n ft] in \<open>auto simp: on_account\<close>)
  next
    case (Reply j)
    show thesis by (rule step [of j reply_entry])
      (use Reply reply_entry_conserves [of "acct s j"] in \<open>auto simp: on_account\<close>)
  next
    case (Login u)
    show thesis by (rule step [of "su_src_ip_be u"
        "\<lambda>a. (a\<lparr>i_ip_be := su_src_ip_be u, i_mobile := su_mobile u, i_app := su_app u\<rparr>, None)"])
      (use Login in \<open>auto simp: OnUserLogin_account amount_def\<close>)
  qed
qed


text \<open>A process with its connection to the traffic recorder.\<close>

definition dpi_demo :: dpi where
  "dpi_demo = (dpi_start \<lparr>os_ret = \<lambda>_. 0, os_errno = \<lambda>_. 0, os_clock = \<lambda>_. (0, 0), os_peer = \<lambda>_. None,
       os_junk = \<lambda>_. replicate 8192 0, os_inet_addr = \<lambda>_. 0, os_tick = 0, os_log = []\<rparr> 7)
     \<lparr>dp_conns := [1 \<mapsto> (DConnect_init (replicate 8192 0))\<lparr>d_sock_fd := 5, d_type := dt_center\<rparr>], dp_next := 2,
      dp_ConnMap := [(5, 1)], dp_CenterConnPool := [1]\<rparr>"

lemma dpi_demo_simps [simp]:
  "dp_cache dpi_demo = NewLRUCache hash_capacity" "dp_users dpi_demo = Map.empty" "os_log dpi_demo = []"
  "dp_CenterConnPool dpi_demo = [1]" "dp_unext dpi_demo = 1" "acct dpi_demo ip = IpUserTraffic_zero"
  by (simp_all add: dpi_demo_def dpi_start_def os.defs acct_def)

lemma dpi_demo_wf: "dpi_wf dpi_demo" "center_at dpi_demo ((DConnect_init (replicate 8192 0))\<lparr>d_sock_fd := 5, d_type := dt_center\<rparr>)"
proof -
  have "cache_inv (NewLRUCache hash_capacity)" by (rule NewLRUCache_inv) simp
  then show "dpi_wf dpi_demo" by (simp add: dpi_wf_def lru.idle_def fun_eq_iff)
qed (simp add: center_at_def, simp add: dpi_demo_def)

text \<open>C12: the dpi loses and invents no traffic of an address whose account stays cached: over any
  sequence of packets, logins and replies of the traffic recorder, for this and other addresses,
  what the reports sent to the recorder amount to plus what the account holds grows by exactly the bytes
  of the packets that were counted (in 32-bit arithmetic, in which the account is kept).\<close>

theorem dpi_traffic_conserved:
  assumes "dpi_run ip s n s'" "dpi_wf s" "center_at s c"
  shows "reported ip (os_log s') + i_traffic (acct s' ip) = reported ip (os_log s) + i_traffic (acct s ip) + n"
proof -
  have "reported ip (os_log s') + i_traffic (acct s' ip) = reported ip (os_log s) + i_traffic (acct s ip) + n
    \<and> dpi_wf s' \<and> center_at s' c"
    using assms(1)
  proof (induction rule: dpi_run.induct)
    case stop
    then show ?case using assms(2,3) by simp
  next
    case (step n t e t')
    then have t: "dpi_wf t" "center_at t c" by auto
    obtain u l where u: "dpi_do e t = Inr ((), u)" "dpi_wf u" "center_at u c" "os_log u = os_log t @ l"
      "cached (dp_cache t) (ip_key ip) = None \<or> cached (dp_cache u) (ip_key ip) \<noteq> None \<Longrightarrow>
         reported ip l + i_traffic (acct u ip) = i_traffic (acct t ip) + counts ip e t"
      by (rule dpi_do_run [OF t]) (rule that)
    have [simp]: "t' = u" using u(1) step.hyps(2) by simp
    have "reported ip (os_log u) + i_traffic (acct u ip) = reported ip (os_log t) + (reported ip l + i_traffic (acct u ip))"
      by (simp add: u(4) add.assoc)
    also have "\<dots> = reported ip (os_log t) + i_traffic (acct t ip) + counts ip e t"
      using u(5) step.hyps(3) by (simp add: add.assoc)
    finally show ?case using step.IH u(2,3) by (simp add: add.assoc)
  qed
  then show ?thesis by simp
qed

theorem dpi_traffic_conserved_witness:
  "\<exists>s'. dpi_run 9 dpi_demo 300 s' \<and> reported 9 (os_log s') + i_traffic (acct s' 9) = 300"
proof -
  obtain s' l where s': "dpi_do (Packet 9 300 0) dpi_demo = Inr ((), s')" by (rule dpi_do_run [OF dpi_demo_wf]) (rule that)
  have "counts 9 (Packet 9 300 0) dpi_demo = 300" by (simp add: drops_def IpUserTraffic_zero_def)
  then have r: "dpi_run 9 dpi_demo 300 s'"
    using dpi_run.step [OF dpi_run.stop s', of 9] by simp
  then show ?thesis using dpi_traffic_conserved [OF r dpi_demo_wf]
    by (auto simp: reported_def IpUserTraffic_zero_def)
qed

text \<open>C36: once the connection to the traffic recorder is gone, the next report that is due takes the
  first element of an empty vector.\<close>

theorem report_without_center:
  assumes "dpi_wf s" "dp_CenterConnPool s = []" "snd (packet_entry (acct s ip) n ft) = Some m"
  shows "OnTrafficReport ip n ft s = Inl EmptyContainer"
proof -
  let ?a = "acct s ip"
  obtain h v c1 c2 us k where e: "entry_handle ip s = Inr (h, s\<lparr>dp_cache := c1, dp_users := us, dp_unext := k\<rparr>)"
    "cache_Value h c1 = Inr (v, c1)" "v \<noteq> 0" "us v = Some ?a" by (rule entry_run [OF assms(1)]) (rule that)
  then show ?thesis using assms(2,3)
    by (simp add: OnTrafficReport_def send_report_def front_of_def andThen_apply)
qed

theorem report_without_center_witness:
  "\<exists>s. dpi_wf s \<and> OnTrafficReport 9 100 3 s = Inl EmptyContainer"
proof -
  let ?f = "\<lambda>a. (a\<lparr>i_ip_be := 9, i_mobile := 2, i_app := 1, i_traffic := 300\<rparr>, None :: u64 option)"
  obtain s l where s: "on_account 9 ?f dpi_demo = Inr ((), s)" "settled dpi_demo 9 (fst (?f (acct dpi_demo 9))) s"
    by (rule on_account_run [OF dpi_demo_wf]) (rule that)
  let ?s = "s\<lparr>dp_CenterConnPool := []\<rparr>"
  have "dpi_wf ?s" "acct ?s 9 = fst (?f IpUserTraffic_zero)"
    using s(2) by (auto simp: settled_def dpi_wf_def acct_def cong: option.case_cong)
  moreover have "snd (packet_entry (fst (?f IpUserTraffic_zero)) 100 3) = Some 440"
    by (simp add: packet_entry_def IpUserTraffic_zero_def Let_def)
  ultimately show ?thesis using report_without_center [of ?s 9 100 3 440] by auto
qed

end
