(* ===== verification/DpiConn.thy ===== *)
theory DpiConn
  imports DpiAccount
begin

text \<open>
  The connections of the dpi (\<^verbatim>\<open>ic-dpi/ic-dpi/ConnectMgr.cpp\<close>) and its event loop
  (\<^verbatim>\<open>main.cpp\<close>): the connection table, the packet reader, the dispatch of messages to the accounts, and
  what holds in every state the process reaches.
\<close>

subsection \<open>Events\<close>

definition dpi_AddEvent :: "u64 \<Rightarrow> u64 \<Rightarrow> u64 \<Rightarrow> int dpiprog" where
  "dpi_AddEvent epfd fd ev =
     (if epfd = 0 \<or> fd = 0 \<or> ev = 0 then ret (- 1) else sys_epoll (EpollAdd fd ev))"

definition dpi_RemoveEvent :: "u64 \<Rightarrow> u64 \<Rightarrow> u64 \<Rightarrow> int dpiprog" where
  "dpi_RemoveEvent epfd fd ev =
     (if epfd = 0 \<or> fd = 0 \<or> ev = 0 then ret (- 1) else sys_epoll (EpollDel fd))"

definition dpi_ModifyEvent :: "u64 \<Rightarrow> u64 \<Rightarrow> u64 \<Rightarrow> int dpiprog" where
  "dpi_ModifyEvent epfd fd ev =
     (if epfd = 0 \<or> fd = 0 \<or> ev = 0 then ret (- 1) else sys_epoll (EpollMod fd ev))"

subsection \<open>Connections\<close>

definition new_dconn :: "ptr dpiprog" where
  "new_dconn = andThen tick (\<lambda>n. \<lambda>s. Inr (dp_next s, s\<lparr>dp_next := Suc (dp_next s),
     dp_conns := (dp_conns s)(dp_next s \<mapsto> DConnect_init (os_junk s n))\<rparr>))"

text \<open>\<^verbatim>\<open>Connect::Reset\<close>: the last two assignments declare locals, so \<^verbatim>\<open>offset\<close> and \<^verbatim>\<open>datalen\<close> keep their values.\<close>

definition DConnect_Reset :: "DConnect \<Rightarrow> DConnect" where
  "DConnect_Reset c = c\<lparr>d_rx := (d_rx c)\<lparr>rx_stillneedtoread := 0, rx_cstate := s_header\<rparr>, d_status := 0, d_type := 0,
     d_sock_fd := - 1\<rparr>"

definition dpi_dtor :: "ptr \<Rightarrow> unit dpiprog" where
  "dpi_dtor p =
     andThen (dconn_at p) (\<lambda>c.
     if 0 < d_sock_fd c then
       andThen (gets dp_Epoll_FD) (\<lambda>e.
       andThen (dpi_RemoveEvent e (d_sock_fd c) (EPOLLIN OR EPOLLOUT OR EPOLLET)) (\<lambda>_.
       sys_close (d_sock_fd c)))
     else ret ())"

definition dpi_accept_conn :: "u64 \<Rightarrow> ptr dpiprog" where
  "dpi_accept_conn fd =
     andThen (gets (\<lambda>s. map_find fd (dp_ConnMap s))) (\<lambda>r.
     andThen (case r of
         Some p \<Rightarrow> andThen (upd_dconn p DConnect_Reset) (\<lambda>_. ret p)
       | None \<Rightarrow> new_dconn) (\<lambda>p.
     andThen (upd_dconn p (\<lambda>c. c\<lparr>d_sock_fd := fd\<rparr>)) (\<lambda>_.
     andThen (modify (\<lambda>s. s\<lparr>dp_ConnMap := map_set fd p (dp_ConnMap s)\<rparr>)) (\<lambda>_.
     andThen (upd_dconn p (\<lambda>c. c\<lparr>d_type := dt_tms, d_rx := (d_rx c)\<lparr>rx_stillneedtoread := of_nat sizeof_hdr\<rparr>\<rparr>)) (\<lambda>_.
     ret p)))))"

definition dpi_HandleAcceptEvent :: "int dpiprog" where
  "dpi_HandleAcceptEvent =
     andThen sys_fd (\<lambda>newfd.
     if newfd > 0 then andThen (dpi_accept_conn (word_of_int newfd)) (\<lambda>_. ret newfd)
     else ret newfd)"

definition dpi_GetConn :: "u64 \<Rightarrow> ptr dpiprog" where
  "dpi_GetConn fd = gets (\<lambda>s. case map_find fd (dp_ConnMap s) of None \<Rightarrow> 0 | Some p \<Rightarrow> p)"

text \<open>The object for a connected socket: entered in the table and a pool, then filled in.\<close>

definition dpi_enter_conn :: "u64 \<Rightarrow> u8 \<Rightarrow> (ptr \<Rightarrow> dpi \<Rightarrow> dpi) \<Rightarrow> ptr dpiprog" where
  "dpi_enter_conn fd ty pool =
     andThen new_dconn (\<lambda>p.
     andThen (modify (\<lambda>s. s\<lparr>dp_ConnMap := map_set fd p (dp_ConnMap s)\<rparr>)) (\<lambda>_.
     andThen (modify (pool p)) (\<lambda>_.
     andThen (upd_dconn p (\<lambda>c. c\<lparr>d_sock_fd := fd, d_type := ty,
                d_rx := (d_rx c)\<lparr>rx_cstate := s_header, rx_datalen := 0, rx_stillneedtoread := of_nat sizeof_hdr\<rparr>\<rparr>)) (\<lambda>_.
     ret p))))"

definition dpi_CreateTmsConn :: "u32 \<Rightarrow> u16 \<Rightarrow> ptr dpiprog" where
  "dpi_CreateTmsConn ip port =
     andThen sys_fd (\<lambda>s.
     if s \<le> 0 then ret 0
     else
       andThen (sys_connect (word_of_int s) ip (htons port)) (\<lambda>r.
       if r < 0 then andThen (sys_close (word_of_int s)) (\<lambda>_. ret 0)
       else dpi_enter_conn (word_of_int s) dt_dpi (\<lambda>p s. s\<lparr>dp_TmsConnPool := dp_TmsConnPool s @ [p]\<rparr>)))"

definition dpi_CreateCenterConn :: "u32 \<Rightarrow> u16 \<Rightarrow> ptr dpiprog" where
  "dpi_CreateCenterConn ip port =
     andThen sys_fd (\<lambda>s.
     if s \<le> 0 then ret 0
     else
       andThen (sys_connect (word_of_int s) ip (htons port)) (\<lambda>r.
       if r < 0 then andThen (sys_close (word_of_int s)) (\<lambda>_. ret 0)
       else dpi_enter_conn (word_of_int s) dt_center (\<lambda>p s. s\<lparr>dp_CenterConnPool := dp_CenterConnPool s @ [p]\<rparr>)))"

definition dpi_RemoveConn :: "u64 \<Rightarrow> int dpiprog" where
  "dpi_RemoveConn fd =
     (if sint fd < 0 then ret (- 1)
      else
        andThen (gets (\<lambda>s. map_find fd (dp_ConnMap s))) (\<lambda>r. case r of
          None \<Rightarrow> ret 0
        | Some p \<Rightarrow>
            andThen (dconn_at p) (\<lambda>c.
            andThen (if d_type c = dt_center
                     then modify (\<lambda>s. s\<lparr>dp_CenterConnPool := remove1 p (dp_CenterConnPool s)\<rparr>) else ret ()) (\<lambda>_.
            andThen (dpi_dtor p) (\<lambda>_.
            andThen (modify (\<lambda>s. s\<lparr>dp_conns := (dp_conns s)(p := None)\<rparr>)) (\<lambda>_.
            andThen (modify (\<lambda>s. s\<lparr>dp_ConnMap := map_erase fd (dp_ConnMap s)\<rparr>)) (\<lambda>_. ret 0)))))))"

subsection \<open>Messages\<close>

definition dpi_HandleRecvMsg :: "bytes \<Rightarrow> u32 \<Rightarrow> int dpiprog" where
  "dpi_HandleRecvMsg msg msglen =
     (if msglen < 4 then ret (- 1)
      else if msg_id msg = SYN_USER_TUPLE then andThen (OnUserLogin (dec_SynUserTuple msg)) (\<lambda>_. ret 0)
      else if msg_id msg = TRAFFIC_REPORT_RSP
      then andThen (OnTrafficReportReply (tx_ip (dec_TrafficReportRsp msg))) (\<lambda>_. ret 0)
      else ret 0)"

text \<open>One read of \<^verbatim>\<open>StreamRecvEvent\<close>: \<open>None\<close> goes on with the loop. The handler is given the whole receive
  buffer.\<close>

definition dpi_input :: "bytes \<Rightarrow> DConnect \<Rightarrow> rx_event \<times> DConnect" where
  "dpi_input d c = (case rx_input d (d_rx c) of (ev, r) \<Rightarrow> (ev, c\<lparr>d_rx := r\<rparr>))"

definition dpi_stream_step :: "ptr \<Rightarrow> bytes \<Rightarrow> int option dpiprog" where
  "dpi_stream_step p d =
     andThen (dconn_at p) (\<lambda>c.
     case dpi_input d c of (ev, c1) \<Rightarrow>
       (case ev of
          Overflow \<Rightarrow> fail OutOfBounds
        | More \<Rightarrow> andThen (upd_dconn p (\<lambda>_. c1)) (\<lambda>_. ret (Some (- 2)))
        | BadPacket \<Rightarrow> andThen (upd_dconn p (\<lambda>_. c1)) (\<lambda>_. ret (Some (- 1)))
        | GotHeader \<Rightarrow> andThen (upd_dconn p (\<lambda>_. c1)) (\<lambda>_. ret None)
        | Message m \<Rightarrow>
            andThen (upd_dconn p (\<lambda>_. c1)) (\<lambda>_.
            andThen (dpi_HandleRecvMsg (rx_buff (d_rx c1)) (ucast (hlen (rx_h (d_rx c1))))) (\<lambda>_. ret None))))"

function dpi_StreamRecvEvent :: "ptr \<Rightarrow> bytes list \<Rightarrow> (int \<times> bytes list) dpiprog" where
  "dpi_StreamRecvEvent p cs =
     andThen (dconn_at p) (\<lambda>c.
     if fst (read_chunk (rx_need (d_rx c)) cs) = []
     then ret (read_ret (rx_need (d_rx c)) cs, snd (read_chunk (rx_need (d_rx c)) cs))
     else
       andThen (dpi_stream_step p (fst (read_chunk (rx_need (d_rx c)) cs))) (\<lambda>r.
       case r of
         Some v \<Rightarrow> ret (v, snd (read_chunk (rx_need (d_rx c)) cs))
       | None \<Rightarrow> dpi_StreamRecvEvent p (snd (read_chunk (rx_need (d_rx c)) cs))))"
  by pat_completeness auto
termination
  by (relation "measure (\<lambda>(p, cs). unread cs)") (auto simp: read_chunk_decreases)

declare dpi_StreamRecvEvent.simps [simp del]

definition dpi_HandleRecvEvent :: "u64 \<Rightarrow> bytes list \<Rightarrow> (int \<times> bytes list) dpiprog" where
  "dpi_HandleRecvEvent fd cs =
     andThen (gets (\<lambda>s. map_find fd (dp_ConnMap s))) (\<lambda>r. case r of
       None \<Rightarrow> ret (- 2, cs)
     | Some p \<Rightarrow>
         andThen (dpi_StreamRecvEvent p cs) (\<lambda>(v, rest).
         if v \<noteq> - 1 then
           andThen (dconn_at p) (\<lambda>c.
           if d_exit c \<noteq> 0 then andThen (dpi_RemoveConn (d_sock_fd c)) (\<lambda>_. ret (v, rest))
           else ret (v, rest))
         else ret (v, rest)))"

subsection \<open>The event loop\<close>

text \<open>\<^verbatim>\<open>dpi_run\<close> takes an event with its descriptor; \<open>err\<close> is the variable of that name, which is not
  initialised and keeps the last socket error.\<close>

fun dpi_recv_loop :: "nat \<Rightarrow> u64 \<Rightarrow> u64 \<Rightarrow> int \<Rightarrow> bytes list \<Rightarrow> bool option dpiprog" where
  "dpi_recv_loop 0 events fd err cs = ret None"
| "dpi_recv_loop (Suc n) events fd err cs =
     andThen (dpi_HandleRecvEvent fd cs) (\<lambda>(r, rest).
     if r = - 2 then ret (Some True)
     else if r = - 1 then
       andThen get_errno (\<lambda>e.
       if e = EAGAIN then ret (Some True)
       else if events AND EPOLLERR \<noteq> 0 then
         andThen (dpi_RemoveConn fd) (\<lambda>_.
         andThen (sys_close fd) (\<lambda>_. ret (Some True)))
       else andThen (dpi_RemoveConn fd) (\<lambda>_. ret (Some True)))
     else if r = 0 then
       if err \<noteq> EINTR then andThen (dpi_RemoveConn fd) (\<lambda>_. ret (Some True)) else ret (Some False)
     else if err = EINTR then dpi_recv_loop n events fd err rest
     else ret (Some False))"

definition dpi_in_event :: "u64 \<Rightarrow> u64 \<Rightarrow> u64 \<Rightarrow> int \<Rightarrow> bytes list \<Rightarrow> bool dpiprog" where
  "dpi_in_event m_socket events fd err cs =
     (if fd = m_socket then
        andThen dpi_HandleAcceptEvent (\<lambda>newfd.
        if newfd > 0 then
          andThen (gets dp_Epoll_FD) (\<lambda>e.
          andThen (dpi_AddEvent e (word_of_int newfd) (EPOLLIN OR EPOLLOUT OR EPOLLET)) (\<lambda>_. ret False))
        else ret False)
      else andThen (dpi_recv_loop 1 events fd err cs) (\<lambda>r. ret (r = Some True)))"

text \<open>\<^verbatim>\<open>HandleEPOEvent\<close> returns 0, so a writable descriptor only updates \<open>err\<close>.\<close>

definition dpi_handle_event :: "u64 \<Rightarrow> u64 \<Rightarrow> u64 \<Rightarrow> bytes list \<Rightarrow> int \<Rightarrow> int dpiprog" where
  "dpi_handle_event m_socket events fd cs err =
     andThen (if events AND EPOLLIN \<noteq> 0 then dpi_in_event m_socket events fd err cs else ret False) (\<lambda>next_event.
     if next_event then ret err
     else if events AND EPOLLOUT \<noteq> 0 then answer 0 4095
     else ret err)"

text \<open>The part of \<^verbatim>\<open>dpi_run\<close> between the creation of the epoll descriptor and the loop.\<close>

definition dpi_init :: "u64 \<Rightarrow> u64 \<Rightarrow> bool dpiprog" where
  "dpi_init epfd m_socket =
     andThen (modify (\<lambda>s. s\<lparr>dp_Epoll_FD := epfd\<rparr>)) (\<lambda>_.
     andThen (sys_epoll (EpollAdd m_socket (EPOLLIN OR EPOLLET))) (\<lambda>r.
     if r = - 1 then ret False
     else
       andThen (gets os_inet_addr) (\<lambda>inet_addr.
       andThen (dpi_CreateCenterConn (inet_addr (ascii ''127.0.0.1'')) 10170) (\<lambda>p.
       if p = 0 then ret False
       else
         andThen (dconn_at p) (\<lambda>c.
         andThen (gets dp_Epoll_FD) (\<lambda>e.
         andThen (dpi_AddEvent e (d_sock_fd c) (EPOLLIN OR EPOLLET)) (\<lambda>_. ret True)))))))"


subsection \<open>The invariant\<close>

abbreviation (input) dpi_room :: nat where "dpi_room \<equiv> 8192"

definition dtable_ok :: "dpi \<Rightarrow> bool" where
  "dtable_ok s \<longleftrightarrow> 0 < dp_next s \<and> map_wf (dp_ConnMap s)
     \<and> (\<forall>fd p. map_find fd (dp_ConnMap s) = Some p \<longrightarrow> (\<exists>c. dp_conns s p = Some c \<and> d_sock_fd c = fd))
     \<and> (\<forall>p c. dp_conns s p = Some c \<longrightarrow> 0 < p \<and> p < dp_next s \<and> length (rx_buff (d_rx c)) = dpi_room)
     \<and> (\<forall>n. length (os_junk s n) = dpi_room)"

definition dpi_inv :: "dpi \<Rightarrow> bool" where
  "dpi_inv s \<longleftrightarrow> dpi_wf s \<and> dtable_ok s"

lemma dtable_okD:
  assumes "dtable_ok s"
  shows "0 < dp_next s" "map_wf (dp_ConnMap s)" "length (os_junk s n) = dpi_room"
    "map_find fd (dp_ConnMap s) = Some p \<Longrightarrow> \<exists>c. dp_conns s p = Some c \<and> d_sock_fd c = fd"
    "dp_conns s p = Some c \<Longrightarrow> 0 < p \<and> p < dp_next s \<and> length (rx_buff (d_rx c)) = dpi_room"
  using assms unfolding dtable_ok_def by blast+

lemma dtable_okI:
  assumes "0 < dp_next s" "map_wf (dp_ConnMap s)" "\<And>n. length (os_junk s n) = dpi_room"
    "\<And>fd p. map_find fd (dp_ConnMap s) = Some p \<Longrightarrow> \<exists>c. dp_conns s p = Some c \<and> d_sock_fd c = fd"
    "\<And>p c. dp_conns s p = Some c \<Longrightarrow> 0 < p \<and> p < dp_next s \<and> length (rx_buff (d_rx c)) = dpi_room"
  shows "dtable_ok s"
  using assms unfolding dtable_ok_def by blast

interpretation dp: safe_steps dpi_inv "\<lambda>_ _. True"
  by unfold_locales simp_all

lemma dpi_inv_frame [simp]:
  "dpi_inv (s\<lparr>os_tick := n\<rparr>) = dpi_inv s" "dpi_inv (s\<lparr>os_log := l\<rparr>) = dpi_inv s"
  "dpi_inv (s\<lparr>dp_Epoll_FD := e\<rparr>) = dpi_inv s" "dpi_inv (s\<lparr>dp_CenterConnPool := ps\<rparr>) = dpi_inv s"
  "dpi_inv (s\<lparr>dp_TmsConnPool := ps\<rparr>) = dpi_inv s"
  by (simp_all add: dpi_inv_def dtable_ok_def dpi_wf_def)

lemma send_report_keeps:
  "send_report ip a n s = Inr (x, s') \<Longrightarrow> \<exists>k l. s' = s\<lparr>os_tick := k, os_log := os_log s @ l\<rparr>"
  by (auto simp: send_report_def dpi_SendTmsMsg_def andThen_eq_Inr_iff length_report)

lemma on_account_settled:
  assumes wf: "dpi_wf s" and run: "on_account ip f s = Inr (x, s')"
  shows "settled s ip (fst (f (acct s ip))) s' \<and> os_junk s' = os_junk s"
proof -
  let ?a = "acct s ip"
  obtain h v c1 c2 us n where e: "entry_handle ip s = Inr (h, s\<lparr>dp_cache := c1, dp_users := us, dp_unext := n\<rparr>)"
    "cache_Value h c1 = Inr (v, c1)" "cache_Release h c1 = Inr ((), c2)" "v \<noteq> 0" "us v = Some ?a"
    "\<And>a. settled s ip a (s\<lparr>dp_cache := c2, dp_users := us(v \<mapsto> a), dp_unext := n\<rparr>)"
    by (rule entry_run [OF wf]) (rule that)
  let ?s = "s\<lparr>dp_cache := c1, dp_users := us(v \<mapsto> fst (f ?a)), dp_unext := n\<rparr>"
  let ?s1 = "s\<lparr>dp_cache := c1, dp_users := us, dp_unext := n\<rparr>"
  have "on_cache (cache_Value h) ?s1 = Inr (v, ?s1)" "duser_at v ?s1 = Inr (?a, ?s1)"
    "upd_duser v (\<lambda>_. fst (f ?a)) ?s1 = Inr ((), ?s)" using e(2-5) by simp_all
  then have "andThen (case snd (f ?a) of None \<Rightarrow> ret () | Some m \<Rightarrow> send_report ip ?a m) (\<lambda>_. on_cache (cache_Release h)) ?s = Inr (x, s')"
    using run by (simp only: on_account_def andThen_Inr e(1))
  then obtain y t where t: "(case snd (f ?a) of None \<Rightarrow> ret () | Some m \<Rightarrow> send_report ip ?a m) ?s = Inr (y, t)"
    "on_cache (cache_Release h) t = Inr (x, s')" by (rule andThen_eq_InrE)
  from t(1) have "\<exists>k l. t = ?s\<lparr>os_tick := k, os_log := os_log s @ l\<rparr>"
    by (cases "snd (f ?a)") (use send_report_keeps in \<open>force intro: exI [of _ "os_tick s"] exI [of _ "[]"]\<close>)+
  then obtain k l where "t = ?s\<lparr>os_tick := k, os_log := os_log s @ l\<rparr>" by blast
  with t(2) e(3) have "s' = (s\<lparr>dp_cache := c2, dp_users := us(v \<mapsto> fst (f ?a)), dp_unext := n\<rparr>)\<lparr>os_tick := k, os_log := os_log s @ l\<rparr>"
    by auto
  then show ?thesis using e(6) [of "fst (f ?a)"] by (simp add: settled_def)
qed

lemma ok_on_account: "dp.ok (on_account ip f) s"
proof (rule dp.okI)
  fix x s' assume "dpi_inv s" "on_account ip f s = Inr (x, s')"
  with on_account_settled [of s ip f x s'] show "dpi_inv s' \<and> True"
    by (auto simp: dpi_inv_def settled_def dtable_ok_def)
qed

lemma ok_dpi_sys:
  "dp.ok tick s" "dp.ok (answer lo hi) s" "dp.ok sys_fd s" "dp.ok (sys_connect fd ip port) s" "dp.ok (sys_epoll e) s"
  "dp.ok (sys_close fd) s" "dp.ok get_errno s" "dp.ok (sys_send fd bs) s" "dp.ok (heap_get h p) s" "dp.ok (front_of g) s"
  by (auto simp: dp.ok_def)

lemmas dp_ok = dp.ok_intros ok_dpi_sys

lemma ok_dpi_events:
  "dp.ok (dpi_AddEvent e fd ev) s" "dp.ok (dpi_RemoveEvent e fd ev) s" "dp.ok (dpi_ModifyEvent e fd ev) s"
  by (auto simp: dpi_AddEvent_def dpi_RemoveEvent_def dpi_ModifyEvent_def intro!: dp_ok)

lemma dpi_wf_conns [simp]:
  "dpi_wf (s\<lparr>dp_conns := h\<rparr>) = dpi_wf s" "dpi_wf (s\<lparr>dp_ConnMap := m\<rparr>) = dpi_wf s" "dpi_wf (s\<lparr>dp_next := n\<rparr>) = dpi_wf s"
  by (simp_all add: dpi_wf_def)

lemma dtable_put:
  assumes ok: "dtable_ok s" and c: "dp_conns s p = Some c" "d_sock_fd c' = d_sock_fd c" "length (rx_buff (d_rx c')) = dpi_room"
  shows "dtable_ok (s\<lparr>dp_conns := (dp_conns s)(p \<mapsto> c')\<rparr>)"
proof (rule dtable_okI)
  note d = dtable_okD [OF ok]
  show "\<exists>c. dp_conns (s\<lparr>dp_conns := (dp_conns s)(p \<mapsto> c')\<rparr>) q = Some c \<and> d_sock_fd c = fd"
    if "map_find fd (dp_ConnMap (s\<lparr>dp_conns := (dp_conns s)(p \<mapsto> c')\<rparr>)) = Some q" for fd q
    using that d(4) [of fd q] c by auto
  show "0 < q \<and> q < dp_next (s\<lparr>dp_conns := (dp_conns s)(p \<mapsto> c')\<rparr>) \<and> length (rx_buff (d_rx e)) = dpi_room"
    if "dp_conns (s\<lparr>dp_conns := (dp_conns s)(p \<mapsto> c')\<rparr>) q = Some e" for q e
    using that d(5) [of q e] d(5) [OF c(1)] c(3) by (auto split: if_splits)
qed (use dtable_okD(1-3) [OF ok] in simp_all)

lemma upd_dconn_eq: "upd_dconn p f s = Inr (x, s') \<longleftrightarrow>
    (\<exists>c. p \<noteq> 0 \<and> dp_conns s p = Some c \<and> s' = s\<lparr>dp_conns := (dp_conns s)(p \<mapsto> f c)\<rparr>)"
  by (auto simp: upd_dconn_def andThen_eq_Inr_iff)

lemma ok_upd_dconn:
  assumes "\<And>c. dp_conns s p = Some c \<Longrightarrow> length (rx_buff (d_rx c)) = dpi_room \<Longrightarrow>
    d_sock_fd (f c) = d_sock_fd c \<and> length (rx_buff (d_rx (f c))) = dpi_room"
  shows "dp.ok (upd_dconn p f) s"
proof (rule dp.okI)
  fix x s' assume inv: "dpi_inv s" and "upd_dconn p f s = Inr (x, s')"
  then obtain c where c: "dp_conns s p = Some c" "s' = s\<lparr>dp_conns := (dp_conns s)(p \<mapsto> f c)\<rparr>"
    by (auto simp: upd_dconn_eq)
  have ok: "dtable_ok s" using inv by (simp add: dpi_inv_def)
  with assms [OF c(1)] dtable_okD(5) [OF ok c(1)] have "dtable_ok s'" unfolding c(2) by (intro dtable_put [OF ok c(1)]) auto
  then show "dpi_inv s' \<and> True" using inv c(2) by (simp add: dpi_inv_def)
qed

text \<open>An object, new or old, put in the table under its descriptor.\<close>

lemma dtable_bind:
  assumes ok: "dtable_ok s" and c: "d_sock_fd c = fd" "length (rx_buff (d_rx c)) = dpi_room"
    and p: "0 < p" "p < n" "dp_next s \<le> n" "\<And>fd'. map_find fd' (dp_ConnMap s) = Some p \<Longrightarrow> fd' = fd"
  shows "dtable_ok (s\<lparr>dp_next := n, dp_conns := (dp_conns s)(p \<mapsto> c), dp_ConnMap := map_set fd p (dp_ConnMap s)\<rparr>)"
    (is "dtable_ok ?s")
proof (rule dtable_okI)
  note d = dtable_okD [OF ok]
  show "map_wf (dp_ConnMap ?s)" using d(2) by (simp add: map_wf_set)
  show "\<exists>e. dp_conns ?s q = Some e \<and> d_sock_fd e = fd'" if "map_find fd' (dp_ConnMap ?s) = Some q" for fd' q
  proof (cases "fd' = fd")
    case False
    with that have q: "map_find fd' (dp_ConnMap s) = Some q" by simp
    with p(4) [of fd'] False have "q \<noteq> p" by auto
    with d(4) [OF q] show ?thesis by simp
  qed (use that c in auto)
  show "0 < q \<and> q < dp_next ?s \<and> length (rx_buff (d_rx e)) = dpi_room" if "dp_conns ?s q = Some e" for q e
    using that p(1-3) d(5) [of q e] c(2) by (auto split: if_splits)
qed (use dtable_okD(1,3) [OF ok] p in simp_all)

lemma dtable_fresh: "dtable_ok s \<Longrightarrow> map_find fd (dp_ConnMap s) = Some p \<Longrightarrow> p < dp_next s"
  using dtable_okD(4,5) by blast

lemma new_dconn_run: "new_dconn s = Inr (dp_next s, s\<lparr>os_tick := Suc (os_tick s), dp_next := Suc (dp_next s),
    dp_conns := (dp_conns s)(dp_next s \<mapsto> DConnect_init (os_junk s (os_tick s)))\<rparr>)"
  by (simp add: new_dconn_def andThen_apply tick_def)

lemma dpi_enter_conn_eq:
  assumes "dtable_ok s" "\<And>p t. dp_conns (pool p t) = dp_conns t"
  shows "\<exists>c. dpi_enter_conn fd ty pool s = Inr (dp_next s, (pool (dp_next s) (s\<lparr>os_tick := Suc (os_tick s), dp_next := Suc (dp_next s),
    dp_conns := (dp_conns s)(dp_next s \<mapsto> DConnect_init (os_junk s (os_tick s))),
    dp_ConnMap := map_set fd (dp_next s) (dp_ConnMap s)\<rparr>))\<lparr>dp_conns := (dp_conns s)(dp_next s \<mapsto> c)\<rparr>)
    \<and> d_sock_fd c = fd \<and> length (rx_buff (d_rx c)) = dpi_room \<and> d_type c = ty"
  using dtable_okD(1,3) [OF assms(1)] assms(2)
  by (intro exI [of _ "(DConnect_init (os_junk s (os_tick s)))\<lparr>d_sock_fd := fd, d_type := ty,
      d_rx := (d_rx (DConnect_init (os_junk s (os_tick s))))\<lparr>rx_cstate := s_header, rx_datalen := 0, rx_stillneedtoread := of_nat sizeof_hdr\<rparr>\<rparr>"])
    (simp add: dpi_enter_conn_def andThen_apply new_dconn_run upd_dconn_def DConnect_init_def)

lemma ok_dpi_enter_conn:
  assumes "pool = (\<lambda>p s. s\<lparr>dp_TmsConnPool := dp_TmsConnPool s @ [p]\<rparr>) \<or>
    pool = (\<lambda>p s. s\<lparr>dp_CenterConnPool := dp_CenterConnPool s @ [p]\<rparr>)"
  shows "dp.ok (dpi_enter_conn fd ty pool) s"
proof (rule dp.okI)
  fix x s' assume inv: "dpi_inv s" and run: "dpi_enter_conn fd ty pool s = Inr (x, s')"
  have ok: "dtable_ok s" using inv by (simp add: dpi_inv_def)
  have pool: "dp_conns (pool p t) = dp_conns t" for p t using assms by auto
  obtain c where c: "dpi_enter_conn fd ty pool s = Inr (dp_next s, (pool (dp_next s) (s\<lparr>os_tick := Suc (os_tick s), dp_next := Suc (dp_next s),
      dp_conns := (dp_conns s)(dp_next s \<mapsto> DConnect_init (os_junk s (os_tick s))),
      dp_ConnMap := map_set fd (dp_next s) (dp_ConnMap s)\<rparr>))\<lparr>dp_conns := (dp_conns s)(dp_next s \<mapsto> c)\<rparr>)"
      "d_sock_fd c = fd" "length (rx_buff (d_rx c)) = dpi_room"
    using dpi_enter_conn_eq [of s pool fd ty, OF ok pool] by blast
  have "dtable_ok (s\<lparr>dp_next := Suc (dp_next s), dp_conns := (dp_conns s)(dp_next s \<mapsto> c),
      dp_ConnMap := map_set fd (dp_next s) (dp_ConnMap s)\<rparr>)"
    by (rule dtable_bind [OF ok c(2,3)]) (use dtable_okD(1) [OF ok] dtable_fresh [OF ok] in auto)
  with inv have "dpi_inv (s\<lparr>dp_next := Suc (dp_next s), dp_conns := (dp_conns s)(dp_next s \<mapsto> c),
      dp_ConnMap := map_set fd (dp_next s) (dp_ConnMap s)\<rparr>)" by (simp add: dpi_inv_def)
  moreover from c(1) run have "s' = (pool (dp_next s) (s\<lparr>os_tick := Suc (os_tick s), dp_next := Suc (dp_next s),
      dp_conns := (dp_conns s)(dp_next s \<mapsto> DConnect_init (os_junk s (os_tick s))),
      dp_ConnMap := map_set fd (dp_next s) (dp_ConnMap s)\<rparr>))\<lparr>dp_conns := (dp_conns s)(dp_next s \<mapsto> c)\<rparr>" by simp
  ultimately show "dpi_inv s' \<and> True"
    using assms by (elim disjE) (simp_all add: dpi_inv_def dtable_ok_def dpi_wf_def)
qed

text \<open>What an accepted socket does to its object: a new one, or the one of an earlier socket of that number.\<close>

definition accepted :: "u64 \<Rightarrow> DConnect \<Rightarrow> DConnect" where
  "accepted fd c = c\<lparr>d_sock_fd := fd, d_type := dt_tms, d_rx := (d_rx c)\<lparr>rx_stillneedtoread := of_nat sizeof_hdr\<rparr>\<rparr>"

lemma dpi_accept_conn_new:
  assumes "map_find fd (dp_ConnMap s) = None" "0 < dp_next s"
  shows "dpi_accept_conn fd s = Inr (dp_next s, s\<lparr>os_tick := Suc (os_tick s), dp_next := Suc (dp_next s),
    dp_conns := (dp_conns s)(dp_next s \<mapsto> accepted fd (DConnect_init (os_junk s (os_tick s)))),
    dp_ConnMap := map_set fd (dp_next s) (dp_ConnMap s)\<rparr>)"
  using assms by (simp add: dpi_accept_conn_def andThen_apply new_dconn_run upd_dconn_def accepted_def)

lemma dpi_accept_conn_old:
  assumes "map_find fd (dp_ConnMap s) = Some p" "dp_conns s p = Some c" "0 < p"
  shows "dpi_accept_conn fd s = Inr (p, s\<lparr>dp_conns := (dp_conns s)(p \<mapsto> accepted fd (DConnect_Reset c)),
    dp_ConnMap := map_set fd p (dp_ConnMap s)\<rparr>)"
  using assms by (simp add: dpi_accept_conn_def andThen_apply upd_dconn_def accepted_def)

lemma accepted_simps [simp]:
  "d_sock_fd (accepted fd c) = fd" "rx_buff (d_rx (accepted fd c)) = rx_buff (d_rx c)"
  "rx_buff (d_rx (DConnect_Reset c)) = rx_buff (d_rx c)" "rx_buff (d_rx (DConnect_init j)) = j"
  by (simp_all add: accepted_def DConnect_Reset_def DConnect_init_def)

lemma ok_dpi_accept_conn: "dp.ok (dpi_accept_conn fd) s"
proof (rule dp.okI)
  fix x s' assume inv: "dpi_inv s" and run: "dpi_accept_conn fd s = Inr (x, s')"
  have ok: "dtable_ok s" using inv by (simp add: dpi_inv_def)
  show "dpi_inv s' \<and> True"
  proof (cases "map_find fd (dp_ConnMap s)")
    case None
    let ?s = "s\<lparr>dp_next := Suc (dp_next s), dp_conns := (dp_conns s)(dp_next s \<mapsto> accepted fd (DConnect_init (os_junk s (os_tick s)))),
      dp_ConnMap := map_set fd (dp_next s) (dp_ConnMap s)\<rparr>"
    have "dtable_ok ?s"
      by (rule dtable_bind [OF ok]) (use dtable_okD(1,3) [OF ok] dtable_fresh [OF ok] in auto)
    with inv have "dpi_inv (?s\<lparr>os_tick := Suc (os_tick s)\<rparr>)" by (simp add: dpi_inv_def [of "?s"] dpi_inv_def [of s])
    moreover from run dpi_accept_conn_new [OF None dtable_okD(1) [OF ok]] have "s' = ?s\<lparr>os_tick := Suc (os_tick s)\<rparr>" by auto
    ultimately show ?thesis by (simp del: dpi_inv_frame)
  next
    case (Some p)
    obtain c where c: "dp_conns s p = Some c" "d_sock_fd c = fd" using dtable_okD(4) [OF ok Some] by blast
    note b = dtable_okD(5) [OF ok c(1)]
    have only: "fd' = fd" if "map_find fd' (dp_ConnMap s) = Some p" for fd' using dtable_okD(4) [OF ok that] c by auto
    let ?s = "s\<lparr>dp_next := dp_next s, dp_conns := (dp_conns s)(p \<mapsto> accepted fd (DConnect_Reset c)), dp_ConnMap := map_set fd p (dp_ConnMap s)\<rparr>"
    have "dtable_ok ?s" by (rule dtable_bind [OF ok]) (use b only in auto)
    moreover from run dpi_accept_conn_old [OF Some c(1)] b have "s' = ?s" by auto
    ultimately show ?thesis using inv by (simp add: dpi_inv_def)
  qed
qed

lemma ok_dpi_accept: "dp.ok dpi_HandleAcceptEvent s"
  by (auto simp: dpi_HandleAcceptEvent_def intro!: dp.ok_andThen dp_ok ok_dpi_accept_conn)

lemma ok_dpi_CreateConn: "dp.ok (dpi_CreateTmsConn ip port) s" "dp.ok (dpi_CreateCenterConn ip port) s"
  by (auto simp: dpi_CreateTmsConn_def dpi_CreateCenterConn_def intro!: dp.ok_andThen dp_ok ok_dpi_enter_conn)

text \<open>A connection removed takes its entry with it: no other descriptor leads to the object.\<close>

lemma dtable_remove:
  assumes ok: "dtable_ok s" and p: "map_find fd (dp_ConnMap s) = Some p"
  shows "dtable_ok (s\<lparr>dp_conns := (dp_conns s)(p := None), dp_ConnMap := map_erase fd (dp_ConnMap s)\<rparr>)" (is "dtable_ok ?s")
proof (rule dtable_okI)
  note d = dtable_okD [OF ok]
  obtain c where c: "dp_conns s p = Some c" "d_sock_fd c = fd" using d(4) [OF p] by blast
  show "map_wf (dp_ConnMap ?s)" using d(2) by (simp add: map_wf_erase)
  show "\<exists>e. dp_conns ?s q = Some e \<and> d_sock_fd e = fd'" if "map_find fd' (dp_ConnMap ?s) = Some q" for fd' q
  proof -
    from that d(2) have q: "map_find fd' (dp_ConnMap s) = Some q" "fd' \<noteq> fd" by (auto split: if_splits)
    with d(4) [OF q(1)] c have "q \<noteq> p" by auto
    with d(4) [OF q(1)] show ?thesis by simp
  qed
  show "0 < q \<and> q < dp_next ?s \<and> length (rx_buff (d_rx e)) = dpi_room" if "dp_conns ?s q = Some e" for q e
    using that d(5) [of q e] by (auto split: if_splits)
qed (use dtable_okD(1,3) [OF ok] in simp_all)

lemma dpi_dtor_keeps: "dpi_dtor p s = Inr (x, s') \<Longrightarrow> s' = s\<lparr>os_tick := os_tick s', os_log := os_log s'\<rparr>"
  by (auto simp: dpi_dtor_def dpi_RemoveEvent_def andThen_eq_Inr_iff
      split: if_splits)

lemma ok_dpi_RemoveConn: "dp.ok (dpi_RemoveConn fd) s"
proof (rule dp.okI)
  fix x s' assume inv: "dpi_inv s" and run: "dpi_RemoveConn fd s = Inr (x, s')"
  have ok: "dtable_ok s" and wf: "dpi_wf s" using inv by (simp_all add: dpi_inv_def)
  show "dpi_inv s' \<and> True"
  proof (cases "sint fd < 0 \<or> map_find fd (dp_ConnMap s) = None")
    case True
    with run inv show ?thesis by (auto simp: dpi_RemoveConn_def andThen_eq_Inr_iff split: if_splits)
  next
    case False
    then obtain p where p: "map_find fd (dp_ConnMap s) = Some p" by auto
    obtain c where c: "dp_conns s p = Some c" using dtable_okD(4) [OF ok p] by blast
    let ?pool = "if d_type c = dt_center then remove1 p (dp_CenterConnPool s) else dp_CenterConnPool s"
    have pool: "(if d_type c = dt_center then modify (\<lambda>s. s\<lparr>dp_CenterConnPool := remove1 p (dp_CenterConnPool s)\<rparr>) else ret ()) s =
      Inr ((), s\<lparr>dp_CenterConnPool := ?pool\<rparr>)" by simp
    have "p \<noteq> 0" using dtable_okD(5) [OF ok c] by simp
    with run False p c pool obtain t y where t: "dpi_dtor p (s\<lparr>dp_CenterConnPool := ?pool\<rparr>) = Inr (y, t)"
      "s' = t\<lparr>dp_conns := (dp_conns t)(p := None), dp_ConnMap := map_erase fd (dp_ConnMap t)\<rparr>"
      by (auto simp add: dpi_RemoveConn_def andThen_eq_Inr_iff simp del: if_split split: if_split_asm)
    have "s' = (s\<lparr>dp_conns := (dp_conns s)(p := None), dp_ConnMap := map_erase fd (dp_ConnMap s)\<rparr>)
        \<lparr>dp_CenterConnPool := ?pool, os_tick := os_tick t, os_log := os_log t\<rparr>"
      unfolding t(2) by (subst (1 2 3) dpi_dtor_keeps [OF t(1)]) simp
    moreover from dtable_remove [OF ok p] wf have
      "dpi_inv (s\<lparr>dp_conns := (dp_conns s)(p := None), dp_ConnMap := map_erase fd (dp_ConnMap s)\<rparr>)" by (simp add: dpi_inv_def)
    ultimately show ?thesis by (simp del: if_split)
  qed
qed

lemma ok_dpi_HandleRecvMsg: "dp.ok (dpi_HandleRecvMsg msg n) s"
  by (auto simp: dpi_HandleRecvMsg_def OnUserLogin_account on_account intro!: dp.ok_andThen dp_ok ok_on_account)

lemma rx_input_len: "length (rx_buff (snd (rx_input d r))) = length (rx_buff r)"
  by (cases "rx_cstate r") (simp_all add: rx_input_def Let_def)

lemma ok_put_rx:
  assumes "dp_conns s p = Some c" "dpi_input d c = (ev, c1)"
  shows "dp.ok (upd_dconn p (\<lambda>_. c1)) s"
  by (rule ok_upd_dconn) (use assms rx_input_len [of d "d_rx c"] in \<open>auto simp: dpi_input_def split: prod.splits\<close>)

lemma ok_dpi_stream_step: "dp.ok (dpi_stream_step p d) s"
  unfolding dpi_stream_step_def
proof (rule dp.ok_andThen)
  fix c s' assume "dconn_at p s = Inr (c, s')"
  then have s': "dp_conns s' p = Some c" by auto
  obtain ev c1 where r: "dpi_input d c = (ev, c1)" by fastforce
  note put = ok_put_rx [OF s' r]
  show "dp.ok (case dpi_input d c of (ev, c1) \<Rightarrow>
       (case ev of
          Overflow \<Rightarrow> fail OutOfBounds
        | More \<Rightarrow> andThen (upd_dconn p (\<lambda>_. c1)) (\<lambda>_. ret (Some (- 2)))
        | BadPacket \<Rightarrow> andThen (upd_dconn p (\<lambda>_. c1)) (\<lambda>_. ret (Some (- 1)))
        | GotHeader \<Rightarrow> andThen (upd_dconn p (\<lambda>_. c1)) (\<lambda>_. ret None)
        | Message m \<Rightarrow>
            andThen (upd_dconn p (\<lambda>_. c1)) (\<lambda>_.
            andThen (dpi_HandleRecvMsg (rx_buff (d_rx c1)) (ucast (hlen (rx_h (d_rx c1))))) (\<lambda>_. ret None)))) s'"
    unfolding r by (cases ev) (auto intro!: dp.ok_andThen put dp_ok ok_dpi_HandleRecvMsg)
qed (rule dp_ok)

lemma ok_dpi_StreamRecvEvent: "dp.ok (dpi_StreamRecvEvent p cs) s"
proof (induction p cs arbitrary: s rule: dpi_StreamRecvEvent.induct)
  case (1 p cs)
  show ?case
    by (subst dpi_StreamRecvEvent.simps)
      (auto intro!: dp.ok_andThen dp_ok ok_dpi_stream_step 1 split: option.split)
qed

lemma ok_dpi_HandleRecvEvent: "dp.ok (dpi_HandleRecvEvent fd cs) s"
  by (auto simp: dpi_HandleRecvEvent_def intro!: dp.ok_andThen dp_ok ok_dpi_StreamRecvEvent ok_dpi_RemoveConn split: option.split)

lemma ok_dpi_recv_loop: "dp.ok (dpi_recv_loop n ev fd err cs) s"
  by (induction n arbitrary: cs s) (auto intro!: dp.ok_andThen dp_ok ok_dpi_HandleRecvEvent ok_dpi_RemoveConn)

lemma ok_dpi_handle_event: "dp.ok (dpi_handle_event m ev fd cs err) s"
  by (auto simp: dpi_handle_event_def dpi_in_event_def
      simp del: dpi_recv_loop.simps intro!: dp.ok_andThen dp_ok ok_dpi_accept ok_dpi_events ok_dpi_recv_loop)

lemma ok_dpi_init: "dp.ok (dpi_init e m) s"
  by (auto simp: dpi_init_def intro!: dp.ok_andThen dp_ok dp.ok_modify ok_dpi_CreateConn ok_dpi_events)

text \<open>One round of the receive loop is enough: \<^verbatim>\<open>HandleRecvEvent\<close> never returns a positive number, so the
  loop is not entered again.\<close>

lemma dpi_stream_step_ret: "dpi_stream_step p d s = Inr (Some v, s') \<Longrightarrow> v \<in> {- 2, - 1}"
  by (auto simp: dpi_stream_step_def elim!: andThen_eq_InrE split: prod.splits rx_event.splits)

lemma read_ret_empty: "fst (read_chunk n cs) = [] \<Longrightarrow> read_ret n cs \<in> {- 1, 0}"
  by (auto simp: read_chunk_def read_ret_def split: list.splits)

lemma dpi_StreamRecvEvent_ret: "dpi_StreamRecvEvent p cs s = Inr ((v, rest), s') \<Longrightarrow> v \<in> {- 2, - 1, 0}"
proof (induction p cs arbitrary: s v rest s' rule: dpi_StreamRecvEvent.induct)
  case (1 p cs)
  from "1.prems" [unfolded dpi_StreamRecvEvent.simps [of p cs]] obtain c :: DConnect and t where c: "(if fst (read_chunk (rx_need (d_rx c)) cs) = []
     then ret (read_ret (rx_need (d_rx c)) cs, snd (read_chunk (rx_need (d_rx c)) cs))
     else
       andThen (dpi_stream_step p (fst (read_chunk (rx_need (d_rx c)) cs))) (\<lambda>r.
       case r of
         Some v \<Rightarrow> ret (v, snd (read_chunk (rx_need (d_rx c)) cs))
       | None \<Rightarrow> dpi_StreamRecvEvent p (snd (read_chunk (rx_need (d_rx c)) cs)))) t = Inr ((v, rest), s')"
    by (rule andThen_eq_InrE) (rule that)
  show ?case
  proof (cases "fst (read_chunk (rx_need (d_rx c)) cs) = []")
    case True
    with c read_ret_empty [OF True] show ?thesis by auto
  next
    case False
    with c show ?thesis
      by (auto elim!: andThen_eq_InrE dest: "1.IH" dpi_stream_step_ret split: option.splits)
  qed
qed

lemma dpi_recv_loop_once:
  "dpi_recv_loop (Suc n) ev fd err cs s = dpi_recv_loop 1 ev fd err cs s"
proof -
  have "v \<in> {- 2, - 1, 0}" if "dpi_HandleRecvEvent fd cs s = Inr ((v, rest), s')" for v rest s'
    using that by (auto simp: dpi_HandleRecvEvent_def andThen_eq_Inr_iff dest: dpi_StreamRecvEvent_ret split: option.splits if_splits)
  then show ?thesis
    by (cases "dpi_HandleRecvEvent fd cs s") (auto simp: andThen_apply split: prod.split)
qed

subsection \<open>Reachable states\<close>

text \<open>The states of the process between the handlers of its two threads: the event loop and the capture thread,
  which starts first.\<close>

inductive dpi_reach :: "u64 \<Rightarrow> dpi \<Rightarrow> bool" for m_socket where
  start: "(\<And>n. length (os_junk os n) = dpi_room) \<Longrightarrow> dpi_reach m_socket (dpi_start os addr)"
| init: "dpi_reach m_socket s \<Longrightarrow> dpi_init epfd m_socket s = Inr (r, s') \<Longrightarrow> dpi_reach m_socket s'"
| event: "dpi_reach m_socket s \<Longrightarrow> dpi_handle_event m_socket events fd cs err s = Inr (r, s') \<Longrightarrow> dpi_reach m_socket s'"
| packet: "dpi_reach m_socket s \<Longrightarrow> dpi_packet_process len pkt s = Inr (u, s') \<Longrightarrow> dpi_reach m_socket s'"

lemma dpi_start_inv: "(\<And>n. length (os_junk os n) = dpi_room) \<Longrightarrow> dpi_inv (dpi_start os addr)"
  using NewLRUCache_inv [of hash_capacity]
  by (simp add: dpi_inv_def dpi_start_def os.defs dtable_ok_def dpi_wf_def lru.idle_def map_wf_def fun_eq_iff)

lemma ok_dpi_packet: "dp.ok (dpi_packet_process len pkt) s"
  by (auto simp: dpi_packet_process_def Let_def on_account intro!: dp.ok_andThen dp_ok ok_on_account)

text \<open>C30: in every state the dpi reaches, under any traffic and any answers of the system, each cached account is an
  allocated record that belongs to one address only, and each descriptor in the connection table leads to an
  allocated connection of that descriptor, with a receive buffer of full size.\<close>

theorem dpi_reach_inv:
  assumes "dpi_reach m_socket s"
  shows "dpi_wf s \<and> dtable_ok s"
  using assms
proof (induction rule: dpi_reach.induct)
  case (start os addr)
  then show ?case using dpi_start_inv [of os addr] by (simp add: dpi_inv_def)
qed (auto simp: dpi_inv_def [symmetric] dest: dp.okD [OF ok_dpi_init] dp.okD [OF ok_dpi_handle_event] dp.okD [OF ok_dpi_packet])

definition dpi_os :: os where
  "dpi_os = \<lparr>os_ret = \<lambda>_. 0, os_errno = \<lambda>_. 0, os_clock = \<lambda>_. (0, 0), os_peer = \<lambda>_. None,
       os_junk = \<lambda>_. replicate 8192 0, os_inet_addr = \<lambda>_. 0, os_tick = 0, os_log = []\<rparr>"

theorem dpi_reach_inv_witness:
  "\<exists>s. dpi_reach 3 s \<and> map_find 5 (dp_ConnMap s) = Some 1 \<and> dpi_wf s \<and> dtable_ok s"
proof -
  let ?o = "dpi_os\<lparr>os_ret := (\<lambda>n. if n = 1 then 5 else 0)\<rparr>"
  have "dpi_reach 3 (dpi_start ?o 7)" by (rule dpi_reach.start) (simp add: dpi_os_def)
  then have r: "dpi_reach 3 s'" if "dpi_init 4 3 (dpi_start ?o 7) = Inr (x, s')" for x s'
    using that by (rule dpi_reach.init)
  have "\<exists>x s'. dpi_init 4 3 (dpi_start ?o 7) = Inr (x, s') \<and> map_find 5 (dp_ConnMap s') = Some 1"
    by (rule exI [of _ True]) (simp add: dpi_init_def dpi_start_def dpi_os_def os.defs andThen_apply sys_defs dpi_CreateCenterConn_def
      dpi_enter_conn_def new_dconn_run upd_dconn_def heap_get_def dpi_AddEvent_def DConnect_init_def map_find_def)
  then show ?thesis using r dpi_reach_inv by blast
qed

subsection \<open>Messages arrive whole\<close>

interpretation dpi_rx: rx_part d_rx "\<lambda>r c. c\<lparr>d_rx := r\<rparr>" dpi_room
  by unfold_locales simp_all

lemma dpi_input_part: "dpi_input d c = dpi_rx.part_input d c"
  by (simp add: dpi_input_def dpi_rx.part_input_eq split: prod.split)

text \<open>C39: whatever way the network cuts them, the framed messages of a peer reach \<^verbatim>\<open>HandleRecvMsg\<close> of the dpi whole,
  one by one and in order, up to the size of its receive buffer.\<close>

theorem dpi_messages_delivered:
  assumes "rx_at_header dpi_room (d_rx c)" and "[] \<notin> set cs"
    and "\<forall>m \<in> set ms. m \<noteq> [] \<and> length m \<le> dpi_room"
    and "concat cs = concat (map frame ms)"
  shows "stream_recv (\<lambda>c. rx_need (d_rx c)) dpi_input cs c = (ms, Waiting)"
proof -
  have "\<forall>m \<in> set ms. m \<noteq> [] \<and> length m \<le> dpi_room \<and> length m < 65536"
    using assms(3) by auto
  moreover have "dpi_input = dpi_rx.part_input" by (simp add: fun_eq_iff dpi_input_part)
  ultimately show ?thesis
    using dpi_rx.frames.recv_stream [of c cs] assms parse_concat_frames [of ms dpi_room] by auto
qed

theorem dpi_messages_delivered_witness:
  "stream_recv (\<lambda>c. rx_need (d_rx c)) dpi_input [[0x86, 0x68, 0], [2, 0, 0, 7], [8, 0x86], [0x68, 0, 1, 0, 0, 9]]
     (accepted 5 (DConnect_init (replicate 8192 0))) = ([[7, 8], [9]], Waiting)"
  by (rule dpi_messages_delivered [where ms = "[[7, 8], [9]]"])
    (simp_all add: rx_at_header_def accepted_def DConnect_init_def frame_def enc_hdr_def hdr_init_def
      st16_def htons_def to_le_eval)

end
