(* ===== verification/DpiRace.thy ===== *)
theory DpiRace
  imports DpiAccount
begin

text \<open>
  The two threads of the dpi on one account, at the granularity of their reads, writes and exchanges of its
  fields (\<^verbatim>\<open>LvldbMgr.cpp\<close>): the capture thread in \<^verbatim>\<open>OnTrafficReport\<close> and the event loop in
  \<^verbatim>\<open>OnTrafficReportReply\<close>. Each handler alone does what \<open>packet_entry\<close> and \<open>reply_entry\<close> say; their
  interleavings conserve the traffic for one order of evaluation of the arguments of an exchange and not for
  the other. The lookup of the account in the cache, under the lock of its shard, and the sending of a report are
  single steps.
\<close>

subsection \<open>The two threads\<close>

text \<open>Where the capture thread is in \<^verbatim>\<open>OnTrafficReport\<close> with a packet of \<open>x\<close> bytes: the read and the write of
  \<^verbatim>\<open>dbu->fins |= fin_type\<close>, the test that sets \<^verbatim>\<open>fin\<close>, the head of the loop, the two reads and the exchange of an
  \<^verbatim>\<open>atomic_cas\<close> that adds the packet, the second test of the report branch, and the steps of the report.\<close>

datatype capture =
    C_idle
  | C_load u64 u32
  | C_store u64 u32 u32
  | C_test u64
  | C_loop u64 bool
  | C_add u64 bool
  | C_add_old u64 bool u32
  | C_add_new u64 bool u64
  | C_cas u64 bool u32 u64
  | C_traffic u64
  | C_mobile u64
  | C_claim u64
  | C_amount u64
  | C_reset u64
  | C_fins u64
  | C_fins_cas u64 u32
  | C_send u64

text \<open>The event loop in \<^verbatim>\<open>OnTrafficReportReply\<close>.\<close>

datatype replier =
    R_idle
  | R_loop
  | R_traffic
  | R_test
  | R_read
  | R_cas u32
  | R_fins u32
  | R_fins_cas u32 u32
  | R_send u32
  | R_done

text \<open>The account that the threads share, how far each of them is, the amounts that were reported and how many
  reports have not been answered. The last two fields are no part of the program: the bytes of all packets that
  arrived, and of those among them that were dropped because their client has no identity. The steps of the threads
  neither read nor write them.\<close>

record race =
  r_acct :: IpUserTraffic
  r_capture :: capture
  r_replier :: replier
  r_sent :: "u64 list"
  r_open :: nat
  r_arrived :: u32
  r_dropped :: u32

definition atomic_cas :: "u32 \<Rightarrow> u32 \<Rightarrow> u32 \<Rightarrow> bool \<times> u32" where
  "atomic_cas cur old new = (if cur = old then (True, new) else (False, cur))"

text \<open>A step of the capture thread. \<open>old_first\<close> is the order in which the compiler evaluates the second and the
  third argument of \<^verbatim>\<open>atomic_cas(&dbu->traffic, dbu->traffic, dbu->traffic + traffic)\<close>, which the language leaves
  open.\<close>

definition capture_step :: "bool \<Rightarrow> race \<Rightarrow> race" where
  "capture_step old_first s =
     (let a = r_acct s in
      case r_capture s of
        C_idle \<Rightarrow> s
      | C_load x ft \<Rightarrow> s\<lparr>r_capture := C_store x ft (i_fins a)\<rparr>
      | C_store x ft v \<Rightarrow> s\<lparr>r_acct := a\<lparr>i_fins := v OR ft\<rparr>, r_capture := C_test x\<rparr>
      | C_test x \<Rightarrow> s\<lparr>r_capture := C_loop x (sint (fin_type_c OR fin_type_s) \<le> sint (i_fins a))\<rparr>
      | C_loop x fin \<Rightarrow> s\<lparr>r_capture := (if \<not> fin then C_add x fin
                                      else if i_reporting a = 0 then C_traffic x else C_add x fin)\<rparr>
      | C_traffic x \<Rightarrow> s\<lparr>r_capture := (if 256 < sint (i_traffic a) then C_mobile x else C_add x True)\<rparr>
      | C_add x fin \<Rightarrow> s\<lparr>r_capture := (if old_first then C_add_old x fin (i_traffic a)
                                     else C_add_new x fin (scast (i_traffic a) + x))\<rparr>
      | C_add_old x fin old \<Rightarrow> s\<lparr>r_capture := C_cas x fin old (scast (i_traffic a) + x)\<rparr>
      | C_add_new x fin new \<Rightarrow> s\<lparr>r_capture := C_cas x fin (i_traffic a) new\<rparr>
      | C_cas x fin old new \<Rightarrow>
          (case atomic_cas (i_traffic a) old (ucast new) of (ok, t) \<Rightarrow>
             if ok then s\<lparr>r_acct := a\<lparr>i_traffic := t\<rparr>, r_capture := C_idle\<rparr>
             else s\<lparr>r_capture := C_loop x fin\<rparr>)
      | C_mobile x \<Rightarrow> s\<lparr>r_capture := (if i_mobile a = 0 then C_idle else C_claim x)\<rparr>
      | C_claim x \<Rightarrow>
          (case atomic_cas (i_reporting a) 0 1 of (ok, r) \<Rightarrow>
             if ok then s\<lparr>r_acct := a\<lparr>i_reporting := r\<rparr>, r_capture := C_amount x\<rparr>
             else s\<lparr>r_capture := C_loop x True\<rparr>)
      | C_amount x \<Rightarrow> s\<lparr>r_capture := C_reset (scast (i_traffic a) + x + ucast MinAckLen)\<rparr>
      | C_reset n \<Rightarrow> s\<lparr>r_acct := a\<lparr>i_traffic := - MinAckLen\<rparr>, r_capture := C_fins n\<rparr>
      | C_fins n \<Rightarrow> s\<lparr>r_capture := C_fins_cas n (i_fins a)\<rparr>
      | C_fins_cas n v \<Rightarrow>
          (case atomic_cas (i_fins a) v 0 of (ok, f) \<Rightarrow>
             s\<lparr>r_acct := a\<lparr>i_fins := f\<rparr>, r_capture := (if ok then C_send n else C_fins n)\<rparr>)
      | C_send n \<Rightarrow> s\<lparr>r_capture := C_idle, r_sent := r_sent s @ [n], r_open := Suc (r_open s)\<rparr>)"

definition replier_step :: "race \<Rightarrow> race" where
  "replier_step s =
     (let a = r_acct s in
      case r_replier s of
        R_idle \<Rightarrow> s
      | R_loop \<Rightarrow> s\<lparr>r_replier := (if i_reporting a \<noteq> 0 then R_traffic else R_idle)\<rparr>
      | R_traffic \<Rightarrow> s\<lparr>r_replier := (if 256 < sint (i_traffic a) then R_test else R_done)\<rparr>
      | R_test \<Rightarrow> s\<lparr>r_replier := (if i_fins a AND (fin_type_c OR fin_type_s) \<noteq> 0 then R_read else R_done)\<rparr>
      | R_read \<Rightarrow> s\<lparr>r_replier := R_cas (i_traffic a)\<rparr>
      | R_cas n \<Rightarrow>
          (case atomic_cas (i_traffic a) n (- MinAckLen) of (ok, t) \<Rightarrow>
             s\<lparr>r_acct := a\<lparr>i_traffic := t\<rparr>, r_replier := (if ok then R_fins n else R_loop)\<rparr>)
      | R_fins n \<Rightarrow> s\<lparr>r_replier := R_fins_cas n (i_fins a)\<rparr>
      | R_fins_cas n v \<Rightarrow>
          (case atomic_cas (i_fins a) v 0 of (ok, f) \<Rightarrow>
             s\<lparr>r_acct := a\<lparr>i_fins := f\<rparr>, r_replier := (if ok then R_send n else R_fins n)\<rparr>)
      | R_send n \<Rightarrow> s\<lparr>r_replier := R_idle, r_sent := r_sent s @ [scast (n + MinAckLen)], r_open := Suc (r_open s)\<rparr>
      | R_done \<Rightarrow>
          (case atomic_cas (i_reporting a) 1 0 of (ok, r) \<Rightarrow>
             s\<lparr>r_acct := a\<lparr>i_reporting := r\<rparr>, r_replier := (if ok then R_idle else R_done)\<rparr>))"

text \<open>The bytes of a packet that the next step of the capture thread gives up: the client has no identity.\<close>

definition dropped_at :: "race \<Rightarrow> u32" where
  "dropped_at s = (case r_capture s of C_mobile x \<Rightarrow> if i_mobile (r_acct s) = 0 then ucast x else 0 | _ \<Rightarrow> 0)"

definition capture_observed :: "bool \<Rightarrow> race \<Rightarrow> race" where
  "capture_observed old_first s = (capture_step old_first s)\<lparr>r_dropped := r_dropped s + dropped_at s\<rparr>"

text \<open>The interleavings: a packet arrives when the capture thread is idle, the recorder answers a report that is open, and
  a login writes the identity of the client.\<close>

inductive race_step :: "bool \<Rightarrow> race \<Rightarrow> race \<Rightarrow> bool" for old_first where
  packet: "r_capture s = C_idle \<Longrightarrow> race_step old_first s (s\<lparr>r_capture := C_load x ft, r_arrived := r_arrived s + ucast x\<rparr>)"
| capture: "race_step old_first s (capture_observed old_first s)"
| reply: "r_replier s = R_idle \<Longrightarrow> r_open s = Suc n \<Longrightarrow> race_step old_first s (s\<lparr>r_replier := R_loop, r_open := n\<rparr>)"
| replier: "race_step old_first s (replier_step s)"
| login: "r_replier s = R_idle \<Longrightarrow> race_step old_first s (s\<lparr>r_acct := (r_acct s)\<lparr>i_ip_be := ip, i_mobile := m, i_app := ap\<rparr>\<rparr>)"

inductive race_reach :: "bool \<Rightarrow> race \<Rightarrow> race \<Rightarrow> bool" for old_first s where
  refl: "race_reach old_first s s"
| step: "race_reach old_first s t \<Longrightarrow> race_step old_first t u \<Longrightarrow> race_reach old_first s u"

definition race_start :: "IpUserTraffic \<Rightarrow> race" where
  "race_start a = \<lparr>r_acct = a, r_capture = C_idle, r_replier = R_idle, r_sent = [], r_open = 0,
     r_arrived = 0, r_dropped = 0\<rparr>"

subsection \<open>Each handler alone\<close>

text \<open>A packet counted, or the reply handled, while the other thread is idle.\<close>

fun steps :: "nat \<Rightarrow> ('s \<Rightarrow> 's) \<Rightarrow> 's \<Rightarrow> 's" where
  "steps 0 f s = s"
| "steps (Suc n) f s = steps n f (f s)"

lemma steps_numeral: "steps (numeral k) f s = steps (pred_numeral k) f (f s)"
  by (simp add: numeral_eq_Suc)

lemma capture_at:
  "r_capture s = C_idle \<Longrightarrow> capture_step b s = s"
  "r_capture s = C_load x ft \<Longrightarrow> capture_step b s = s\<lparr>r_capture := C_store x ft (i_fins (r_acct s))\<rparr>"
  "r_capture s = C_store x ft v \<Longrightarrow> capture_step b s = s\<lparr>r_acct := (r_acct s)\<lparr>i_fins := v OR ft\<rparr>, r_capture := C_test x\<rparr>"
  "r_capture s = C_test x \<Longrightarrow> capture_step b s = s\<lparr>r_capture := C_loop x (3 \<le> sint (i_fins (r_acct s)))\<rparr>"
  "r_capture s = C_loop x fin \<Longrightarrow> capture_step b s =
     s\<lparr>r_capture := (if fin \<and> i_reporting (r_acct s) = 0 then C_traffic x else C_add x fin)\<rparr>"
  "r_capture s = C_traffic x \<Longrightarrow> capture_step b s =
     s\<lparr>r_capture := (if 256 < sint (i_traffic (r_acct s)) then C_mobile x else C_add x True)\<rparr>"
  "r_capture s = C_add x fin \<Longrightarrow> capture_step b s = s\<lparr>r_capture := (if b then C_add_old x fin (i_traffic (r_acct s))
     else C_add_new x fin (scast (i_traffic (r_acct s)) + x))\<rparr>"
  "r_capture s = C_add_old x fin old \<Longrightarrow> capture_step b s = s\<lparr>r_capture := C_cas x fin old (scast (i_traffic (r_acct s)) + x)\<rparr>"
  "r_capture s = C_add_new x fin new \<Longrightarrow> capture_step b s = s\<lparr>r_capture := C_cas x fin (i_traffic (r_acct s)) new\<rparr>"
  "r_capture s = C_cas x fin old new \<Longrightarrow> capture_step b s = (if i_traffic (r_acct s) = old
     then s\<lparr>r_acct := (r_acct s)\<lparr>i_traffic := ucast new\<rparr>, r_capture := C_idle\<rparr>
     else s\<lparr>r_capture := C_loop x fin\<rparr>)"
  "r_capture s = C_mobile x \<Longrightarrow> capture_step b s = s\<lparr>r_capture := (if i_mobile (r_acct s) = 0 then C_idle else C_claim x)\<rparr>"
  "r_capture s = C_claim x \<Longrightarrow> capture_step b s = (if i_reporting (r_acct s) = 0
     then s\<lparr>r_acct := (r_acct s)\<lparr>i_reporting := 1\<rparr>, r_capture := C_amount x\<rparr> else s\<lparr>r_capture := C_loop x True\<rparr>)"
  "r_capture s = C_amount x \<Longrightarrow> capture_step b s =
     s\<lparr>r_capture := C_reset (scast (i_traffic (r_acct s)) + x + 40)\<rparr>"
  "r_capture s = C_reset n \<Longrightarrow> capture_step b s = s\<lparr>r_acct := (r_acct s)\<lparr>i_traffic := - 40\<rparr>, r_capture := C_fins n\<rparr>"
  "r_capture s = C_fins n \<Longrightarrow> capture_step b s = s\<lparr>r_capture := C_fins_cas n (i_fins (r_acct s))\<rparr>"
  "r_capture s = C_fins_cas n v \<Longrightarrow> capture_step b s = (if i_fins (r_acct s) = v
     then s\<lparr>r_acct := (r_acct s)\<lparr>i_fins := 0\<rparr>, r_capture := C_send n\<rparr> else s\<lparr>r_capture := C_fins n\<rparr>)"
  "r_capture s = C_send n \<Longrightarrow> capture_step b s = s\<lparr>r_capture := C_idle, r_sent := r_sent s @ [n], r_open := Suc (r_open s)\<rparr>"
  by (simp_all add: capture_step_def atomic_cas_def Let_def)

lemma replier_at:
  "r_replier s = R_idle \<Longrightarrow> replier_step s = s"
  "r_replier s = R_loop \<Longrightarrow> replier_step s = s\<lparr>r_replier := (if i_reporting (r_acct s) \<noteq> 0 then R_traffic else R_idle)\<rparr>"
  "r_replier s = R_traffic \<Longrightarrow> replier_step s = s\<lparr>r_replier := (if 256 < sint (i_traffic (r_acct s)) then R_test else R_done)\<rparr>"
  "r_replier s = R_test \<Longrightarrow> replier_step s = s\<lparr>r_replier := (if i_fins (r_acct s) AND 3 \<noteq> 0 then R_read else R_done)\<rparr>"
  "r_replier s = R_read \<Longrightarrow> replier_step s = s\<lparr>r_replier := R_cas (i_traffic (r_acct s))\<rparr>"
  "r_replier s = R_cas m \<Longrightarrow> replier_step s = (if i_traffic (r_acct s) = m
     then s\<lparr>r_acct := (r_acct s)\<lparr>i_traffic := - 40\<rparr>, r_replier := R_fins m\<rparr> else s\<lparr>r_replier := R_loop\<rparr>)"
  "r_replier s = R_fins m \<Longrightarrow> replier_step s = s\<lparr>r_replier := R_fins_cas m (i_fins (r_acct s))\<rparr>"
  "r_replier s = R_fins_cas m v \<Longrightarrow> replier_step s = (if i_fins (r_acct s) = v
     then s\<lparr>r_acct := (r_acct s)\<lparr>i_fins := 0\<rparr>, r_replier := R_send m\<rparr> else s\<lparr>r_replier := R_fins m\<rparr>)"
  "r_replier s = R_send m \<Longrightarrow> replier_step s =
     s\<lparr>r_replier := R_idle, r_sent := r_sent s @ [scast (m + 40)], r_open := Suc (r_open s)\<rparr>"
  "r_replier s = R_done \<Longrightarrow> replier_step s = (if i_reporting (r_acct s) = 1
     then s\<lparr>r_acct := (r_acct s)\<lparr>i_reporting := 0\<rparr>, r_replier := R_idle\<rparr> else s)"
  by (simp_all add: replier_step_def atomic_cas_def Let_def)

lemma capture_alone:
  assumes c: "r_capture s = C_load x ft"
  shows "steps 12 (capture_step b) s =
    s\<lparr>r_acct := fst (packet_entry (r_acct s) x ft), r_capture := C_idle,
      r_sent := r_sent s @ (case snd (packet_entry (r_acct s) x ft) of None \<Rightarrow> [] | Some n \<Rightarrow> [n]),
      r_open := r_open s + (case snd (packet_entry (r_acct s) x ft) of None \<Rightarrow> 0 | Some n \<Rightarrow> 1)\<rparr>"
proof -
  let ?a = "r_acct s"
  consider "\<not> 3 \<le> sint (i_fins ?a OR ft)"
    | "3 \<le> sint (i_fins ?a OR ft)" "i_reporting ?a \<noteq> 0"
    | "3 \<le> sint (i_fins ?a OR ft)" "i_reporting ?a = 0" "\<not> 256 < sint (i_traffic ?a)"
    | "3 \<le> sint (i_fins ?a OR ft)" "i_reporting ?a = 0" "256 < sint (i_traffic ?a)" "i_mobile ?a = 0"
    | "3 \<le> sint (i_fins ?a OR ft)" "i_reporting ?a = 0" "256 < sint (i_traffic ?a)" "i_mobile ?a \<noteq> 0"
    by blast
  then show ?thesis
  proof cases
    case 1
    with c show ?thesis by (cases b) (simp_all add: steps_numeral capture_at packet_entry_def drops_def ucast_add ucast_scast)
  next
    case 2
    with c show ?thesis by (cases b) (simp_all add: steps_numeral capture_at packet_entry_def drops_def ucast_add ucast_scast)
  next
    case 3
    with c show ?thesis by (cases b) (simp_all add: steps_numeral capture_at packet_entry_def drops_def ucast_add ucast_scast)
  next
    case 4
    with c show ?thesis by (simp_all add: steps_numeral capture_at packet_entry_def drops_def)
  next
    case 5
    with c show ?thesis by (simp_all add: steps_numeral capture_at packet_entry_def drops_def)
  qed
qed

lemma replier_alone:
  assumes c: "r_replier s = R_loop" "i_reporting (r_acct s) \<in> {0, 1}"
  shows "steps 8 replier_step s =
    s\<lparr>r_acct := fst (reply_entry (r_acct s)), r_replier := R_idle,
      r_sent := r_sent s @ (case snd (reply_entry (r_acct s)) of None \<Rightarrow> [] | Some n \<Rightarrow> [n]),
      r_open := r_open s + (case snd (reply_entry (r_acct s)) of None \<Rightarrow> 0 | Some n \<Rightarrow> 1)\<rparr>"
proof -
  let ?a = "r_acct s"
  consider "i_reporting ?a = 0" | "i_reporting ?a = 1" "\<not> 256 < sint (i_traffic ?a)"
    | "i_reporting ?a = 1" "256 < sint (i_traffic ?a)" "i_fins ?a AND 3 = 0"
    | "i_reporting ?a = 1" "256 < sint (i_traffic ?a)" "i_fins ?a AND 3 \<noteq> 0"
    using c by auto
  then show ?thesis
  proof cases
    case 1
    with c show ?thesis by (simp add: steps_numeral replier_at reply_entry_def)
  next
    case 2
    with c show ?thesis by (simp add: steps_numeral replier_at reply_entry_def)
  next
    case 3
    with c show ?thesis by (simp add: steps_numeral replier_at reply_entry_def)
  next
    case 4
    with c show ?thesis by (simp add: steps_numeral replier_at reply_entry_def)
  qed
qed

subsection \<open>The invariant\<close>

text \<open>A report belongs to one of three: the capture thread that makes it, the recorder that has to answer it, or the
  event loop that handles the answer.\<close>

definition capture_owns :: "capture \<Rightarrow> bool" where
  "capture_owns c = (case c of C_amount x \<Rightarrow> True | C_reset n \<Rightarrow> True | C_fins n \<Rightarrow> True | C_fins_cas n v \<Rightarrow> True
     | C_send n \<Rightarrow> True | _ \<Rightarrow> False)"

definition owners :: "race \<Rightarrow> nat" where
  "owners s = of_bool (capture_owns (r_capture s)) + of_bool (r_replier s \<noteq> R_idle) + r_open s"

text \<open>What the account holds, with an amount that is on its way into a report.\<close>

definition capture_holds :: "u32 \<Rightarrow> capture \<Rightarrow> u32" where
  "capture_holds t c = (case c of C_reset n \<Rightarrow> ucast n - 40 | C_fins n \<Rightarrow> t + ucast n | C_fins_cas n v \<Rightarrow> t + ucast n
     | C_send n \<Rightarrow> t + ucast n | _ \<Rightarrow> t)"

definition replier_holds :: "replier \<Rightarrow> u32" where
  "replier_holds r = (case r of R_fins m \<Rightarrow> m + 40 | R_fins_cas m v \<Rightarrow> m + 40 | R_send m \<Rightarrow> m + 40 | _ \<Rightarrow> 0)"

text \<open>The packet that the capture thread has taken and neither added to the account nor put into a report.\<close>

definition capture_pending :: "capture \<Rightarrow> u32" where
  "capture_pending c = (case c of C_idle \<Rightarrow> 0 | C_load x ft \<Rightarrow> ucast x | C_store x ft v \<Rightarrow> ucast x | C_test x \<Rightarrow> ucast x
     | C_loop x fin \<Rightarrow> ucast x | C_add x fin \<Rightarrow> ucast x | C_add_old x fin old \<Rightarrow> ucast x | C_add_new x fin new \<Rightarrow> ucast x
     | C_cas x fin old new \<Rightarrow> ucast x | C_traffic x \<Rightarrow> ucast x | C_mobile x \<Rightarrow> ucast x | C_claim x \<Rightarrow> ucast x
     | C_amount x \<Rightarrow> ucast x | _ \<Rightarrow> 0)"

text \<open>What the capture thread has read for an exchange: the new value belongs to the old one, or the account has been
  reported meanwhile and the exchange will fail.\<close>

definition read_ok :: "u32 \<Rightarrow> capture \<Rightarrow> bool" where
  "read_ok t c = (case c of
       C_add_old x fin old \<Rightarrow> t \<in> {old, - 40}
     | C_cas x fin old new \<Rightarrow> ucast new = old + ucast x \<or> t = - 40 \<and> old \<noteq> - 40
     | C_add_new x fin new \<Rightarrow> False
     | _ \<Rightarrow> True)"

definition sent_sum :: "u64 list \<Rightarrow> u32" where
  "sent_sum l = sum_list (map ucast l)"

definition race_inv :: "u32 \<Rightarrow> race \<Rightarrow> bool" where
  "race_inv t s \<longleftrightarrow> i_reporting (r_acct s) \<in> {0, 1} \<and> owners s = unat (i_reporting (r_acct s)) \<and> read_ok (i_traffic (r_acct s)) (r_capture s)
     \<and> sent_sum (r_sent s) + (capture_holds (i_traffic (r_acct s)) (r_capture s) + replier_holds (r_replier s))
       + (capture_pending (r_capture s) + r_dropped s) = t + r_arrived s"

lemma sent_sum_append [simp]: "sent_sum (l @ [n]) = sent_sum l + ucast n"
  by (simp add: sent_sum_def)

lemmas race_defs = race_inv_def owners_def capture_owns_def capture_holds_def replier_holds_def read_ok_def capture_pending_def
  capture_observed_def dropped_at_def

lemma ucast_amount: "(ucast (scast (v :: u32) + x + 40 :: u64) :: u32) = v + ucast x + 40"
  by (simp add: ucast_add ucast_scast)

lemma race_inv_capture_free:
  assumes "race_inv t s" "\<not> capture_owns (r_capture s)"
  shows "race_inv t (capture_observed True s)"
proof (cases "r_capture s")
  case (C_cas x fin old new)
  show ?thesis
  proof (cases "i_traffic (r_acct s) = old")
    case True
    with assms C_cas have "ucast new = i_traffic (r_acct s) + ucast x" by (auto simp: race_inv_def read_ok_def)
    with assms C_cas True show ?thesis
      by (simp add: race_defs capture_at add.assoc add.left_commute [of "ucast x"])
  next
    case False
    with assms C_cas show ?thesis by (simp add: race_defs capture_at)
  qed
next
  case (C_add_old x fin old)
  with assms show ?thesis by (auto simp: race_defs capture_at ucast_add ucast_scast)
next
  case (C_mobile x)
  with assms show ?thesis by (simp add: race_defs capture_at add.commute [of "r_dropped s"])
next
  case (C_claim x)
  with assms show ?thesis by (auto simp: race_defs capture_at)
qed (use assms in \<open>simp_all add: race_defs capture_at\<close>)

lemma race_inv_capture_owns:
  assumes "race_inv t s" "capture_owns (r_capture s)"
  shows "race_inv t (capture_observed b s)"
proof -
  have idle: "r_replier s = R_idle" "r_open s = 0" "i_reporting (r_acct s) = 1"
    using assms by (auto simp: race_inv_def owners_def)
  show ?thesis
  proof (cases "r_capture s")
    case (C_amount x)
    with assms idle show ?thesis
      by (simp add: race_defs capture_at ucast_amount) (simp add: add.assoc)
  next
    case (C_send n)
    with assms idle show ?thesis
      by (simp add: race_defs capture_at add.assoc add.commute [of "i_traffic (r_acct s)"])
  qed (use assms idle in \<open>simp_all add: race_defs capture_at add.assoc\<close>)
qed

lemma race_inv_replier:
  assumes "race_inv t s"
  shows "race_inv t (replier_step s)"
proof (cases "r_replier s")
  case (R_cas m)
  have own: "\<not> capture_owns (r_capture s)" using assms R_cas by (auto simp: race_inv_def owners_def)
  with assms R_cas show ?thesis
    by (cases "r_capture s") (auto simp: race_defs replier_at)
next
  case R_done
  have "r_open s = 0" "\<not> capture_owns (r_capture s)" "i_reporting (r_acct s) = 1"
    using assms R_done by (auto simp: race_inv_def owners_def)
  with assms R_done show ?thesis by (simp add: race_inv_def owners_def replier_holds_def replier_at)
next
  case (R_send m)
  with assms show ?thesis
    by (simp add: race_inv_def owners_def replier_holds_def replier_at ucast_scast add.assoc add.commute add.left_commute)
qed (use assms in \<open>auto simp: race_inv_def owners_def replier_holds_def replier_at\<close>)

lemma race_inv_step: "race_step True s s' \<Longrightarrow> race_inv t s \<Longrightarrow> race_inv t s'"
proof (induction rule: race_step.induct)
  case (packet s x ft)
  then show ?case by (simp add: race_defs) (simp add: ac_simps)
next
  case (capture s)
  then show ?case by (cases "capture_owns (r_capture s)") (auto intro: race_inv_capture_owns race_inv_capture_free)
next
  case (replier s)
  then show ?case by (rule race_inv_replier)
qed (simp_all add: race_defs)

lemma race_inv_reach: "race_reach True s s' \<Longrightarrow> race_inv t s \<Longrightarrow> race_inv t s'"
  by (induction rule: race_reach.induct) (auto intro: race_inv_step)

lemma race_start_inv: "i_reporting a = 0 \<Longrightarrow> race_inv (i_traffic a) (race_start a)"
  by (simp add: race_defs race_start_def sent_sum_def)

text \<open>C13: the two threads of the dpi lose and invent no traffic, however their steps on an account interleave, when the compiler
  reads the expected value of an exchange before it computes the new one and the recorder answers each report at
  most once: whenever both threads are between handlers, the reports, the account and the packets that were dropped
  for want of an identity of their client add up to what the account held at the start and the bytes of all packets
  that arrived, modulo \<open>2^32\<close>.\<close>

theorem race_conserved:
  assumes "race_reach True (race_start a) s" "i_reporting a = 0" "r_capture s = C_idle" "r_replier s = R_idle"
  shows "sent_sum (r_sent s) + i_traffic (r_acct s) + r_dropped s = i_traffic a + r_arrived s"
  using race_inv_reach [OF assms(1) race_start_inv [OF assms(2)]] assms(3,4)
  by (simp add: race_inv_def capture_holds_def replier_holds_def capture_pending_def)

lemma observed_mobile:
  assumes "i_mobile (r_acct s) \<noteq> 0"
  shows "capture_observed b s = capture_step b s" "i_mobile (r_acct (capture_step b s)) \<noteq> 0"
  using assms by (cases "r_capture s"; simp add: capture_observed_def dropped_at_def capture_at)+

lemma race_reach_capture:
  "race_reach b s t \<Longrightarrow> i_mobile (r_acct t) \<noteq> 0 \<Longrightarrow> race_reach b s (steps n (capture_step b) t)"
proof (induction n arbitrary: t)
  case (Suc n)
  then show ?case
    using race_reach.step [OF Suc.prems(1) race_step.capture] observed_mobile [OF Suc.prems(2)] by simp
qed simp

lemma race_reach_replier: "race_reach b s t \<Longrightarrow> race_reach b s (steps n replier_step t)"
  by (induction n arbitrary: t) (auto intro: race_reach.step race_step.replier)

lemma race_reach_packet:
  "race_reach b s t \<Longrightarrow> r_capture t = C_idle \<Longrightarrow> race_reach b s (t\<lparr>r_capture := C_load x ft, r_arrived := r_arrived t + ucast x\<rparr>)"
  by (auto intro: race_reach.step race_step.packet)

lemma race_reach_reply:
  "race_reach b s t \<Longrightarrow> r_replier t = R_idle \<Longrightarrow> r_open t = Suc n \<Longrightarrow> race_reach b s (t\<lparr>r_replier := R_loop, r_open := n\<rparr>)"
  by (auto intro: race_reach.step race_step.reply)

text \<open>An account of a client that has logged in, with 300 bytes.\<close>

definition race_demo :: IpUserTraffic where
  "race_demo = \<lparr>i_ip_be = 9, i_reporting = 0, i_fins = 0, i_traffic = 300, i_mobile = 5, i_app = 1\<rparr>"

lemma demo_packet: "packet_entry race_demo 100 3 = (race_demo\<lparr>i_reporting := 1, i_traffic := - 40\<rparr>, Some 440)" "\<not> drops race_demo 3"
  by (simp_all add: packet_entry_def race_demo_def drops_def Let_def)

text \<open>After a packet of 100 bytes that ends the connection.\<close>

definition demo1 :: race where
  "demo1 = \<lparr>r_acct = race_demo\<lparr>i_reporting := 1, i_traffic := - 40\<rparr>, r_capture = C_idle, r_replier = R_idle,
    r_sent = [440], r_open = 1, r_arrived = 100, r_dropped = 0\<rparr>"

lemma demo1_reach: "race_reach b (race_start race_demo) demo1"
proof -
  let ?s = "(race_start race_demo)\<lparr>r_capture := C_load 100 3, r_arrived := 100\<rparr>"
  have "race_reach b (race_start race_demo) ?s"
    using race_reach_packet [OF race_reach.refl, of "race_start race_demo" b 100 3] by (simp add: race_start_def)
  then have "race_reach b (race_start race_demo) (steps 12 (capture_step b) ?s)" by (rule race_reach_capture) (simp add: race_start_def race_demo_def)
  also have "steps 12 (capture_step b) ?s = demo1"
    using capture_alone [of ?s 100 3 b] by (simp add: race_start_def demo_packet demo1_def)
  finally show ?thesis .
qed

theorem race_conserved_witness:
  "race_reach True (race_start race_demo) demo1 \<and> r_sent demo1 = [440] \<and>
   sent_sum (r_sent demo1) + i_traffic (r_acct demo1) = 300 + 100"
  using race_conserved [OF demo1_reach] demo1_reach [of True] by (simp add: race_demo_def demo1_def)

text \<open>A packet of 400 bytes with a FIN follows, then one of 50 bytes; the thread stops after it computed the new value.\<close>

definition demo2 :: race where
  "demo2 = demo1\<lparr>r_acct := race_demo\<lparr>i_reporting := 1, i_fins := 1, i_traffic := 360\<rparr>, r_arrived := 500\<rparr>"

lemma demo2_reach: "race_reach b (race_start race_demo) demo2"
proof -
  let ?s = "demo1\<lparr>r_capture := C_load 400 1, r_arrived := 500\<rparr>"
  have "race_reach b (race_start race_demo) ?s"
    using race_reach_packet [OF demo1_reach, of b 400 1] by (simp add: demo1_def)
  then have "race_reach b (race_start race_demo) (steps 12 (capture_step b) ?s)" by (rule race_reach_capture) (simp add: demo1_def race_demo_def)
  also have "steps 12 (capture_step b) ?s = demo2"
    using capture_alone [of ?s 400 1 b] by (simp add: packet_entry_def drops_def Let_def demo2_def demo1_def race_demo_def)
  finally show ?thesis .
qed

definition demo3 :: race where
  "demo3 = demo2\<lparr>r_capture := C_add_new 50 False 410, r_arrived := 550\<rparr>"

lemma demo3_reach: "race_reach False (race_start race_demo) demo3"
proof -
  let ?s = "demo2\<lparr>r_capture := C_load 50 0, r_arrived := 550\<rparr>"
  have "race_reach False (race_start race_demo) ?s"
    using race_reach_packet [OF demo2_reach, of False 50 0] by (simp add: demo2_def demo1_def)
  then have "race_reach False (race_start race_demo) (steps 5 (capture_step False) ?s)" by (rule race_reach_capture) (simp add: demo2_def demo1_def race_demo_def)
  also have "steps 5 (capture_step False) ?s = demo3"
    by (simp add: steps_numeral capture_step_def demo3_def demo2_def demo1_def race_demo_def)
  finally show ?thesis .
qed

text \<open>The answer to the first report comes in and the account is reported; then the exchange succeeds, since the value it
  expects is read only now.\<close>

definition demo4 :: race where
  "demo4 = demo3\<lparr>r_acct := race_demo\<lparr>i_reporting := 1, i_traffic := - 40\<rparr>, r_sent := [440, 400]\<rparr>"

lemma demo4_reach: "race_reach False (race_start race_demo) demo4"
proof -
  let ?s = "demo3\<lparr>r_replier := R_loop, r_open := 0\<rparr>"
  have "race_reach False (race_start race_demo) ?s"
    by (rule race_reach_reply [OF demo3_reach]) (simp_all add: demo3_def demo2_def demo1_def)
  then have "race_reach False (race_start race_demo) (steps 8 replier_step ?s)" by (rule race_reach_replier)
  also have "steps 8 replier_step ?s = demo4"
    using replier_alone [of ?s] by (simp add: reply_entry_def demo4_def demo3_def demo2_def demo1_def race_demo_def)
  finally show ?thesis .
qed

text \<open>C22: with the other order of evaluation, which the language also permits, traffic is reported twice: a reply of the recorder
  that comes between the two reads lets the exchange put the amount just reported back into the account.\<close>

theorem race_reported_twice:
  "\<exists>s. race_reach False (race_start race_demo) s \<and> r_capture s = C_idle \<and> r_replier s = R_idle \<and>
     sent_sum (r_sent s) + i_traffic (r_acct s) + r_dropped s = i_traffic race_demo + r_arrived s + 400"
proof (rule exI, intro conjI)
  show "race_reach False (race_start race_demo) (steps 2 (capture_step False) demo4)"
    by (rule race_reach_capture [OF demo4_reach]) (simp add: demo4_def race_demo_def)
qed (simp_all add: steps_numeral capture_step_def atomic_cas_def demo4_def demo3_def demo2_def demo1_def race_demo_def sent_sum_def)

text \<open>C27: a packet handled by the capture thread without interference is the atomic update of the account that the
  sequential model has: the same account afterwards and the same report, in either order of evaluation.\<close>

theorem capture_refines_packet_entry:
  assumes "r_capture s = C_load x ft" "packet_entry (r_acct s) x ft = (a, r)"
  shows "\<exists>n. r_capture (steps n (capture_step b) s) = C_idle \<and> r_acct (steps n (capture_step b) s) = a \<and>
    r_sent (steps n (capture_step b) s) = r_sent s @ (case r of None \<Rightarrow> [] | Some m \<Rightarrow> [m])"
  using capture_alone [OF assms(1), of b] assms(2) by (intro exI [of _ 12]) simp

theorem capture_refines_packet_entry_witness:
  "\<exists>n. r_acct (steps n (capture_step False) (demo1\<lparr>r_acct := race_demo, r_capture := C_load 100 3\<rparr>)) =
     race_demo\<lparr>i_reporting := 1, i_traffic := - 40\<rparr>"
  using capture_refines_packet_entry [of "demo1\<lparr>r_acct := race_demo, r_capture := C_load 100 3\<rparr>" 100 3
      "race_demo\<lparr>i_reporting := 1, i_traffic := - 40\<rparr>" "Some 440" False]
  by (auto simp: demo_packet)

end
