(* ===== verification/RedisPool.thy ===== *)
theory RedisPool
  imports Wire Os
begin

text \<open>
  The redis client of the traffic recorder (\<^verbatim>\<open>redis_connect.cpp\<close>, \<^verbatim>\<open>redis_conn_pool.cpp\<close>): connections that
  are opened when needed and reopened when the server closed them, and the pool that the coroutines take them
  from. The library hiredis, with the server behind it, is a parameter of the operations.
\<close>

subsection \<open>hiredis\<close>

datatype reply_type = REPLY_STRING | REPLY_ARRAY | REPLY_INTEGER | REPLY_NIL | REPLY_STATUS | REPLY_ERROR

text \<open>\<^verbatim>\<open>struct redisReply\<close>; the text has its length and a NUL behind it, or is the null pointer.\<close>

record redisReply =
  rr_type :: reply_type
  rr_integer :: int
  rr_str :: "bytes option"

text \<open>The calls of hiredis: connecting (a context without an error), the command of a format string without arguments,
  the password, reconnecting, and the test for a connection that the server closed.\<close>

record 'r hiredis =
  hi_connect :: "bytes \<Rightarrow> u16 \<Rightarrow> int \<Rightarrow> 'r \<Rightarrow> bool \<times> 'r"
  hi_command :: "bytes \<Rightarrow> 'r \<Rightarrow> redisReply option \<times> 'r"
  hi_auth :: "bytes \<Rightarrow> 'r \<Rightarrow> redisReply option \<times> 'r"
  hi_reconnect :: "'r \<Rightarrow> bool \<times> 'r"
  hi_closed :: "'r \<Rightarrow> bool"

subsection \<open>Connections\<close>

record RedisConnect =
  rc_host_ip :: bytes
  rc_port :: u16
  rc_passwd :: bytes
  rc_timeout :: int
  rc_ctx :: bool
  rc_connect :: bool

text \<open>The pool: the stack with its top first, whether the channel has been created, and the number of its elements.\<close>

record 'r recorder = os +
  tr_net :: 'r
  tr_conns :: "ptr \<rightharpoonup> RedisConnect"
  tr_next :: ptr
  tr_stack :: "ptr list"
  tr_chan :: bool
  tr_ready :: nat

definition RedisConnect_init :: "bytes \<Rightarrow> u16 \<Rightarrow> bytes \<Rightarrow> int \<Rightarrow> RedisConnect" where
  "RedisConnect_init host_ip port passwd timeout =
     \<lparr>rc_host_ip = host_ip, rc_port = port, rc_passwd = passwd, rc_timeout = timeout, rc_ctx = False, rc_connect = False\<rparr>"

abbreviation rconn_at :: "ptr \<Rightarrow> ('r recorder, RedisConnect) prog" where "rconn_at \<equiv> heap_get tr_conns"

definition upd_rconn :: "ptr \<Rightarrow> (RedisConnect \<Rightarrow> RedisConnect) \<Rightarrow> ('r recorder, unit) prog" where
  "upd_rconn p f = andThen (rconn_at p) (\<lambda>c. modify (\<lambda>s. s\<lparr>tr_conns := (tr_conns s)(p \<mapsto> f c)\<rparr>))"

definition on_net :: "('r \<Rightarrow> 'a \<times> 'r) \<Rightarrow> ('r recorder, 'a) prog" where
  "on_net f = (\<lambda>s. case f (tr_net s) of (x, n) \<Rightarrow> Inr (x, s\<lparr>tr_net := n\<rparr>))"

text \<open>\<^verbatim>\<open>strcasecmp\<close> of a reply with a text of the program.\<close>

definition lower :: "u8 \<Rightarrow> u8" where
  "lower c = (if 65 \<le> c \<and> c \<le> 90 then c + 32 else c)"

definition strcaseeq :: "bytes \<Rightarrow> bytes \<Rightarrow> bool" where
  "strcaseeq a b \<longleftrightarrow> map lower (c_str a) = map lower (c_str b)"

definition the_str :: "redisReply \<Rightarrow> ('s, bytes) prog" where
  "the_str r = (case rr_str r of None \<Rightarrow> fail NullDeref | Some t \<Rightarrow> ret t)"

definition auth :: "'r hiredis \<Rightarrow> bytes \<Rightarrow> ('r recorder, bool) prog" where
  "auth hi passwd =
     andThen (on_net (hi_auth hi passwd)) (\<lambda>reply. case reply of
       None \<Rightarrow> ret False
     | Some r \<Rightarrow>
         andThen (the_str r) (\<lambda>t.
         ret (strcaseeq t (ascii ''OK'') \<or> strcaseeq t (ascii ''ERR Client sent AUTH, but no password is set''))))"

definition try_connect :: "'r hiredis \<Rightarrow> ptr \<Rightarrow> ('r recorder, bool) prog" where
  "try_connect hi p =
     andThen (rconn_at p) (\<lambda>c.
     if rc_host_ip c = [] then ret False
     else
       andThen (if rc_ctx c then upd_rconn p (\<lambda>c. c\<lparr>rc_ctx := False, rc_connect := False\<rparr>) else ret ()) (\<lambda>_.
       andThen (on_net (hi_connect hi (rc_host_ip c) (rc_port c) (rc_timeout c))) (\<lambda>ctx.
       andThen (upd_rconn p (\<lambda>c. c\<lparr>rc_ctx := ctx\<rparr>)) (\<lambda>_.
       if \<not> ctx then andThen (upd_rconn p (\<lambda>c. c\<lparr>rc_connect := False\<rparr>)) (\<lambda>_. ret False)
       else
         andThen (auth hi (rc_passwd c)) (\<lambda>ok.
         if \<not> ok then andThen (upd_rconn p (\<lambda>c. c\<lparr>rc_ctx := False, rc_connect := False\<rparr>)) (\<lambda>_. ret False)
         else andThen (upd_rconn p (\<lambda>c. c\<lparr>rc_connect := True\<rparr>)) (\<lambda>_. ret True))))))"

definition check_reply :: "ptr \<Rightarrow> redisReply option \<Rightarrow> ('r recorder, bool) prog" where
  "check_reply p reply = (case reply of
       None \<Rightarrow> andThen (upd_rconn p (\<lambda>c. c\<lparr>rc_ctx := False, rc_connect := False\<rparr>)) (\<lambda>_. ret False)
     | Some r \<Rightarrow> (case rr_type r of
           REPLY_STATUS \<Rightarrow> andThen (the_str r) (\<lambda>t. ret (strcaseeq t (ascii ''OK'')))
         | REPLY_ERROR \<Rightarrow> ret False
         | _ \<Rightarrow> ret True))"

definition exec_v_command :: "'r hiredis \<Rightarrow> ptr \<Rightarrow> bytes \<Rightarrow> ('r recorder, redisReply option) prog" where
  "exec_v_command hi p cmd =
     andThen (rconn_at p) (\<lambda>c.
     andThen (if \<not> rc_connect c \<or> \<not> rc_ctx c then try_connect hi p else ret True) (\<lambda>ok.
     if \<not> ok then ret None
     else
       andThen (on_net (hi_command hi cmd)) (\<lambda>reply.
       andThen (gets (\<lambda>s. hi_closed hi (tr_net s))) (\<lambda>closed.
       andThen (if reply = None \<or> closed then
                  andThen (on_net (hi_reconnect hi)) (\<lambda>reconn.
                  if reconn then andThen (upd_rconn p (\<lambda>c. c\<lparr>rc_connect := True\<rparr>)) (\<lambda>_. on_net (hi_command hi cmd))
                  else ret None)
                else ret reply) (\<lambda>reply.
       andThen (check_reply p reply) (\<lambda>_. ret reply))))))"

text \<open>The pipeline of a connection ignores its arguments.\<close>

definition rconn_pipeline :: "'r hiredis \<Rightarrow> ptr \<Rightarrow> ('r recorder, int) prog" where
  "rconn_pipeline hi p =
     andThen (rconn_at p) (\<lambda>c.
     andThen (require NullDeref (rc_ctx c)) (\<lambda>_.
     andThen (on_net (hi_command hi (ascii ''incr foo''))) (\<lambda>r1.
     andThen (on_net (hi_command hi (ascii ''incr foo''))) (\<lambda>r2.
     andThen (require Dangling (r1 \<noteq> None \<and> r2 \<noteq> None)) (\<lambda>_. ret 0)))))"

subsection \<open>The pool\<close>

definition co_ready :: "('r recorder, unit) prog" where
  "co_ready =
     andThen (gets tr_chan) (\<lambda>chan.
     andThen (require NullDeref chan) (\<lambda>_. modify (\<lambda>s. s\<lparr>tr_ready := Suc (tr_ready s)\<rparr>)))"

text \<open>Waiting for a connection that nobody gives back does not end, which is a fault here.\<close>

definition co_wait :: "('r recorder, unit) prog" where
  "co_wait =
     andThen (gets tr_chan) (\<lambda>chan.
     andThen (require NullDeref chan) (\<lambda>_.
     andThen (gets tr_ready) (\<lambda>n.
     andThen (require Aborted (0 < n)) (\<lambda>_. modify (\<lambda>s. s\<lparr>tr_ready := n - 1\<rparr>)))))"

definition get_connection :: "('r recorder, ptr) prog" where
  "get_connection =
     andThen co_wait (\<lambda>_.
     andThen (front_of tr_stack) (\<lambda>p.
     andThen (modify (\<lambda>s. s\<lparr>tr_stack := tl (tr_stack s)\<rparr>)) (\<lambda>_. ret p)))"

definition push_back_connection :: "ptr \<Rightarrow> ('r recorder, unit) prog" where
  "push_back_connection p = andThen co_ready (\<lambda>_. modify (\<lambda>s. s\<lparr>tr_stack := p # tr_stack s\<rparr>))"

definition exec_command :: "'r hiredis \<Rightarrow> bytes \<Rightarrow> ('r recorder, redisReply option) prog" where
  "exec_command hi cmd =
     andThen get_connection (\<lambda>p.
     if p = 0 then ret None
     else
       andThen (exec_v_command hi p cmd) (\<lambda>reply.
       andThen (push_back_connection p) (\<lambda>_. ret reply)))"

definition exec_command_pipeline :: "'r hiredis \<Rightarrow> nat \<Rightarrow> bytes \<Rightarrow> ('r recorder, int) prog" where
  "exec_command_pipeline hi cmd_count cmd =
     andThen get_connection (\<lambda>p.
     if p = 0 then ret (- 1)
     else
       andThen (rconn_pipeline hi p) (\<lambda>r.
       andThen (push_back_connection p) (\<lambda>_. ret r)))"

definition new_rconn :: "bytes \<Rightarrow> u16 \<Rightarrow> bytes \<Rightarrow> int \<Rightarrow> ('r recorder, unit) prog" where
  "new_rconn host_ip port passwd timeout =
     andThen (modify (\<lambda>s. s\<lparr>tr_conns := (tr_conns s)(tr_next s \<mapsto> RedisConnect_init host_ip port passwd timeout),
        tr_stack := tr_next s # tr_stack s, tr_next := Suc (tr_next s)\<rparr>)) (\<lambda>_. co_ready)"

definition init_redis_pool :: "bytes \<Rightarrow> u16 \<Rightarrow> bytes \<Rightarrow> int \<Rightarrow> int \<Rightarrow> ('r recorder, int) prog" where
  "init_redis_pool host_ip port passwd timeout pool_size =
     andThen (gets tr_chan) (\<lambda>chan.
     if chan then ret 0
     else if pool_size \<le> 0 then ret (- 1)
     else if host_ip = [] then ret (- 1)
     else
       andThen (modify (\<lambda>s. s\<lparr>tr_chan := True\<rparr>)) (\<lambda>_.
       andThen (foreach [0..<nat pool_size] (\<lambda>_. new_rconn host_ip (if port = 0 then 6379 else port) passwd timeout)) (\<lambda>_.
       ret 0)))"

subsection \<open>A connection that works\<close>

definition pool_ready :: "'r recorder \<Rightarrow> bool" where
  "pool_ready s \<longleftrightarrow> tr_chan s \<and> 0 < tr_ready s \<and> (\<exists>p ps c. tr_stack s = p # ps \<and> p \<noteq> 0 \<and> tr_conns s p = Some c \<and> rc_connect c \<and> rc_ctx c)"

lemma on_net_run: "f (tr_net s) = (x, n) \<Longrightarrow> on_net f s = Inr (x, s\<lparr>tr_net := n\<rparr>)"
  by (simp add: on_net_def)

lemma exec_command_run:
  assumes "pool_ready s" "hi_command hi cmd (tr_net s) = (Some r, n)" "\<not> hi_closed hi n"
    "rr_type r = REPLY_STATUS \<Longrightarrow> rr_str r \<noteq> None"
  shows "exec_command hi cmd s = Inr (Some r, s\<lparr>tr_net := n\<rparr>)"
proof -
  obtain p ps c where p: "tr_stack s = p # ps" "p \<noteq> 0" "tr_conns s p = Some c" "rc_connect c" "rc_ctx c" "0 < tr_ready s" "tr_chan s"
    using assms(1) by (auto simp: pool_ready_def)
  let ?s = "s\<lparr>tr_ready := tr_ready s - 1, tr_stack := ps\<rparr>"
  have get: "get_connection s = Inr (p, ?s)"
    using p by (simp add: get_connection_def co_wait_def andThen_apply)
  have chk: "check_reply p (Some r) t = Inr (case rr_type r of REPLY_STATUS \<Rightarrow> strcaseeq (the (rr_str r)) (ascii ''OK'')
      | REPLY_ERROR \<Rightarrow> False | _ \<Rightarrow> True, t)" for t :: "'a recorder"
    using assms(4) by (cases "rr_type r") (auto simp: check_reply_def the_str_def andThen_apply split: option.splits)
  have "exec_v_command hi p cmd ?s = Inr (Some r, ?s\<lparr>tr_net := n\<rparr>)"
    using p assms(2,3) by (simp add: exec_v_command_def andThen_apply on_net_run chk)
  with p get show ?thesis
    by (simp add: exec_command_def andThen_apply push_back_connection_def co_ready_def)
qed

end
