(* ===== verification/Recorder.thy ===== *)
theory Recorder
  imports RedisPool
begin

text \<open>
  The traffic recorder (\<^verbatim>\<open>TRNet.cpp\<close>): it answers the token requests of tms, deducts the reports of tms and dpi
  from the balances in redis, and reads its messages without waiting for whole ones. Each handler is a program of
  queries to redis; between two queries of a coroutine others run. What the theorems need of the server is the
  documented behaviour of four commands (\<open>redis_serves\<close>).
\<close>

subsection \<open>Numbers in commands\<close>

function digits :: "nat \<Rightarrow> bytes" where
  "digits n = (if n < 10 then [word_of_nat (48 + n)] else digits (n div 10) @ [word_of_nat (48 + n mod 10)])"
  by pat_completeness auto
termination
  by (relation "measure id") auto

declare digits.simps [simp del]

text \<open>\<^verbatim>\<open>%0.11lu\<close> and \<^verbatim>\<open>%0.8lu\<close> print at least that many digits; \<^verbatim>\<open>%ld\<close> is signed.\<close>

definition fmt_lu :: "nat \<Rightarrow> u64 \<Rightarrow> bytes" where
  "fmt_lu prec w = replicate (prec - length (digits (unat w))) 48 @ digits (unat w)"

definition fmt_int :: "nat \<Rightarrow> int \<Rightarrow> bytes" where
  "fmt_int prec i = (if i < 0 then [45] else [])
     @ replicate (prec - length (digits (nat \<bar>i\<bar>))) 48 @ digits (nat \<bar>i\<bar>)"

text \<open>\<^verbatim>\<open>atoll\<close>: white space, a sign, digits; the library cuts off at the ends of the range.\<close>

definition is_space :: "u8 \<Rightarrow> bool" where
  "is_space c \<longleftrightarrow> c = 32 \<or> 9 \<le> c \<and> c \<le> 13"

definition is_digit :: "u8 \<Rightarrow> bool" where
  "is_digit c \<longleftrightarrow> 48 \<le> c \<and> c \<le> 57"

fun digits_val :: "nat \<Rightarrow> bytes \<Rightarrow> nat" where
  "digits_val acc [] = acc"
| "digits_val acc (c # cs) = (if is_digit c then digits_val (10 * acc + (unat c - 48)) cs else acc)"

fun signed_val :: "bytes \<Rightarrow> int" where
  "signed_val [] = 0"
| "signed_val (c # cs) =
     (if c = 45 then - int (digits_val 0 cs) else if c = 43 then int (digits_val 0 cs) else int (digits_val 0 (c # cs)))"

definition atoll :: "bytes \<Rightarrow> u64" where
  "atoll t = word_of_int (max (- (2 ^ 63)) (min (2 ^ 63 - 1) (signed_val (dropWhile is_space t))))"

subsection \<open>Commands\<close>

definition user_key :: "string \<Rightarrow> u64 \<Rightarrow> u64 \<Rightarrow> bytes" where
  "user_key kind m a = ascii kind @ fmt_lu 11 m @ [58] @ fmt_lu 8 a"

abbreviation auth_key :: "u64 \<Rightarrow> u64 \<Rightarrow> bytes" where "auth_key \<equiv> user_key ''auth:''"
abbreviation bal_key :: "u64 \<Rightarrow> u64 \<Rightarrow> bytes" where "bal_key \<equiv> user_key ''bal:''"
abbreviation dtl_key :: "u64 \<Rightarrow> u64 \<Rightarrow> bytes" where "dtl_key \<equiv> user_key ''dtl:''"

definition get_cmd :: "bytes \<Rightarrow> bytes" where
  "get_cmd k = ascii ''get '' @ k"

definition set_cmd :: "bytes \<Rightarrow> u64 \<Rightarrow> bytes" where
  "set_cmd k v = ascii ''set '' @ k @ [32] @ fmt_int 0 (sint v)"

definition expire_cmd :: "u64 \<Rightarrow> u64 \<Rightarrow> bytes" where
  "expire_cmd m a = ascii ''expire '' @ auth_key m a @ ascii '' 360000000''"

text \<open>Seconds and milliseconds of a time are printed from their low 32 bits.\<close>

definition fmt_time :: "timeval \<Rightarrow> bytes" where
  "fmt_time t = digits (unat (ucast (fst t) :: u32))
     @ fmt_int 3 (sint (word_of_int (sgn (sint (snd t)) * (\<bar>sint (snd t)\<bar> div 1000)) :: u32))"

definition detail_text :: "TrafficReport \<Rightarrow> bytes \<Rightarrow> bytes" where
  "detail_text r host = host @ [44] @ digits (unat (tr_traffic r)) @ [44] @ fmt_time (tr_btime r) @ [44] @ fmt_time (tr_etime r)"

definition detail_cmd :: "TrafficReport \<Rightarrow> bytes \<Rightarrow> bytes" where
  "detail_cmd r host = ascii ''rpush '' @ dtl_key (tr_mobile r) (tr_app r) @ [32] @ detail_text r host"

subsection \<open>Messages\<close>

definition SendMsg2Tms :: "u64 \<Rightarrow> bytes \<Rightarrow> ('r recorder, int) prog" where
  "SendMsg2Tms fd msg =
     andThen (require OutOfBounds (sizeof_hdr + length msg \<le> 1024)) (\<lambda>_. sys_send fd (frame msg))"

text \<open>\<^verbatim>\<open>memcmp(a, b, n) == 0\<close>: reading behind an object before the first difference is a fault.\<close>

fun mem_equal :: "nat \<Rightarrow> bytes \<Rightarrow> bytes \<Rightarrow> fault + bool" where
  "mem_equal 0 a b = Inr True"
| "mem_equal (Suc n) (x # a) (y # b) = (if x = y then mem_equal n a b else Inr False)"
| "mem_equal (Suc n) a b = Inl OutOfBounds"

definition lift_sum :: "fault + 'a \<Rightarrow> ('s, 'a) prog" where
  "lift_sum r = (case r of Inl f \<Rightarrow> fail f | Inr x \<Rightarrow> ret x)"

definition send_token :: "u64 \<Rightarrow> ReadTokenRsp \<Rightarrow> ('r recorder, unit) prog" where
  "send_token fd rsp = andThen (SendMsg2Tms fd (enc_ReadTokenRsp rsp)) (\<lambda>_. ret ())"

text \<open>The second query of a token request, after the token matched.\<close>

definition token_balance :: "'r hiredis \<Rightarrow> u64 \<Rightarrow> ReadTokenReq \<Rightarrow> ReadTokenRsp \<Rightarrow> ('r recorder, unit) prog" where
  "token_balance hi fd req rsp =
     andThen (exec_command hi (get_cmd (bal_key (tq_mobile req) (tq_app req)))) (\<lambda>rt. case rt of
       None \<Rightarrow> fail NullDeref
     | Some rt \<Rightarrow>
         if rr_type rt = REPLY_NIL then send_token fd (rsp\<lparr>tp_rsp_code := NO_BALANCE\<rparr>)
         else
           andThen (the_str rt) (\<lambda>t.
           send_token fd (rsp\<lparr>tp_balance := atoll t,
             tp_rsp_code := (if sint (atoll t) < 4000 then NO_BALANCE else 0)\<rparr>)))"

text \<open>The log line prints the stored token with \<^verbatim>\<open>snprintf(print_buf, len + 1, str)\<close>, as a format. It has no
  arguments, so every conversion but \<^verbatim>\<open>%%\<close> reads one that was not passed.\<close>

fun fmt_plain :: "bytes \<Rightarrow> bool" where
  "fmt_plain [] = True"
| "fmt_plain (c # cs) =
     (if c = 37 then (case cs of [] \<Rightarrow> False | d # ds \<Rightarrow> d = 37 \<and> fmt_plain ds) else fmt_plain cs)"

text \<open>The first reply: the stored token is compared with the one of the request, which begins \<open>token\<close>.\<close>

definition token_compare :: "'r hiredis \<Rightarrow> u64 \<Rightarrow> ReadTokenReq \<Rightarrow> bytes \<Rightarrow> ReadTokenRsp \<Rightarrow> redisReply \<Rightarrow> ('r recorder, unit) prog" where
  "token_compare hi fd req token rsp r =
     (if rr_type r = REPLY_NIL then send_token fd (rsp\<lparr>tp_rsp_code := USER_NOT_EXIST\<rparr>)
      else
        andThen (require OutOfBounds (0 \<in> set token)) (\<lambda>_.
        andThen (the_str r) (\<lambda>t.
        let len = max (length t) (c_strlen token) in
        andThen (lift_sum (mem_equal len token (t @ [0]))) (\<lambda>same.
        if \<not> same then send_token fd (rsp\<lparr>tp_rsp_code := INCORRECT_TOKEN\<rparr>)
        else
          andThen (require OutOfBounds (36 + len < 1024)) (\<lambda>_.
          andThen (require OutOfBounds (fmt_plain (c_str (t @ [0])))) (\<lambda>_.
          token_balance hi fd req
            (rsp\<lparr>tp_token := take 32 (take len (t @ [0]) @ [0] @ drop (len + 1) (tp_token rsp))\<rparr>)))))))"

text \<open>The handler gets the 1024 bytes of \<^verbatim>\<open>rz_buf\<close>. The response is built in an array that is not initialised.\<close>

definition read_token :: "'r hiredis \<Rightarrow> u64 \<Rightarrow> bytes \<Rightarrow> ('r recorder, unit) prog" where
  "read_token hi fd buf =
     (let req = dec_ReadTokenReq buf in
      andThen tick (\<lambda>n.
      andThen (gets (\<lambda>s. dec_ReadTokenRsp (os_junk s n))) (\<lambda>junk.
      andThen (exec_command hi (get_cmd (auth_key (tq_mobile req) (tq_app req)))) (\<lambda>r. case r of
        None \<Rightarrow> fail NullDeref
      | Some r \<Rightarrow> token_compare hi fd req (drop 26 buf)
          (junk\<lparr>tp_cid := tq_cid req, tp_app := tq_app req, tp_mobile := tq_mobile req\<rparr>) r))))"

definition report_rsp :: "TrafficReport \<Rightarrow> TrafficReportRsp" where
  "report_rsp r = \<lparr>tx_app = tr_app r, tx_mobile = tr_mobile r, tx_traffic = tr_traffic r, tx_ip = tr_ip r, tx_rsp_code = 0\<rparr>"

text \<open>The queries of a traffic report, between which other coroutines run.\<close>

definition report_get :: "'r hiredis \<Rightarrow> TrafficReport \<Rightarrow> ('r recorder, u64 option) prog" where
  "report_get hi r =
     andThen (exec_command hi (get_cmd (bal_key (tr_mobile r) (tr_app r)))) (\<lambda>reply. case reply of
       None \<Rightarrow> ret None
     | Some x \<Rightarrow> if rr_type x \<noteq> REPLY_STRING then ret None
         else andThen (the_str x) (\<lambda>t. ret (Some (atoll t))))"

definition report_set :: "'r hiredis \<Rightarrow> TrafficReport \<Rightarrow> u64 \<Rightarrow> ('r recorder, bool) prog" where
  "report_set hi r balance =
     andThen (exec_command hi (set_cmd (bal_key (tr_mobile r) (tr_app r)) (balance - tr_traffic r))) (\<lambda>reply. case reply of
       None \<Rightarrow> ret False
     | Some x \<Rightarrow> if rr_type x \<noteq> REPLY_STATUS then ret False
         else andThen (the_str x) (\<lambda>t. ret (take 2 t = ascii ''OK'')))"

definition report_detail :: "'r hiredis \<Rightarrow> TrafficReport \<Rightarrow> bytes \<Rightarrow> ('r recorder, bool) prog" where
  "report_detail hi r host =
     andThen (require OutOfBounds (0 \<in> set host)) (\<lambda>_.
     andThen (require OutOfBounds (length (detail_cmd r (c_str host)) < 1024)) (\<lambda>_.
     andThen (exec_command hi (detail_cmd r (c_str host))) (\<lambda>reply.
     ret (case reply of None \<Rightarrow> False | Some x \<Rightarrow> rr_type x = REPLY_INTEGER \<and> 1 \<le> rr_integer x))))"

definition send_report_rsp :: "u64 \<Rightarrow> TrafficReport \<Rightarrow> u8 \<Rightarrow> ('r recorder, unit) prog" where
  "send_report_rsp fd r code = andThen (SendMsg2Tms fd (enc_TrafficReportRsp ((report_rsp r)\<lparr>tx_rsp_code := code\<rparr>))) (\<lambda>_. ret ())"

definition traffic_report :: "'r hiredis \<Rightarrow> u64 \<Rightarrow> bytes \<Rightarrow> ('r recorder, unit) prog" where
  "traffic_report hi fd buf =
     (let r = dec_TrafficReport buf in
      andThen (report_get hi r) (\<lambda>balance. case balance of
        None \<Rightarrow> send_report_rsp fd r 0xFF
      | Some balance \<Rightarrow>
          andThen (report_set hi r balance) (\<lambda>ok.
          if \<not> ok then send_report_rsp fd r 0xFF
          else
            andThen (report_detail hi r (drop 63 buf)) (\<lambda>ok.
            if \<not> ok then send_report_rsp fd r 0xFF
            else
              andThen (exec_command hi (expire_cmd (tr_mobile r) (tr_app r))) (\<lambda>_.
              send_report_rsp fd r 0)))))"

text \<open>The users of a keep-alive message: up to the first that is 0. The commands are written one behind the other.\<close>

definition alive_users :: "KeepAliveToken \<Rightarrow> (u64 \<times> u64) list" where
  "alive_users k = takeWhile (\<lambda>(m, a). 0 < m) (zip (ka_mobile k) (ka_app k))"

definition keep_alive :: "'r hiredis \<Rightarrow> bytes \<Rightarrow> ('r recorder, unit) prog" where
  "keep_alive hi buf =
     (let us = alive_users (dec_KeepAliveToken buf); cmd = concat (map (\<lambda>(m, a). expire_cmd m a) us) in
      andThen (require OutOfBounds (length cmd < 1024)) (\<lambda>_.
      if 0 < length us then andThen (exec_command_pipeline hi (length us) cmd) (\<lambda>_. ret ()) else ret ()))"

definition handle_msg :: "'r hiredis \<Rightarrow> u64 \<Rightarrow> bytes \<Rightarrow> ('r recorder, unit) prog" where
  "handle_msg hi fd buf =
     (if msg_id buf = READ_TOKEN_REQ then read_token hi fd buf
      else if msg_id buf = TRAFFIC_REPORT then traffic_report hi fd buf
      else if msg_id buf = KEEP_ALIVE_TOKEN then keep_alive hi buf
      else ret ())"

text \<open>\<^verbatim>\<open>NetRead\<close> reads a header and a body with one call each, whatever number of bytes it returns, and starts a coroutine
  for the message; here the coroutine runs to its end. A header that is cut keeps the values of the constructor.\<close>

definition cut_hdr :: "bytes \<Rightarrow> hdr_t" where
  "cut_hdr d = dec_hdr (blit (enc_hdr hdr_init) 0 d)"

function NetRead :: "'r hiredis \<Rightarrow> u64 \<Rightarrow> bytes list \<Rightarrow> ('r recorder, unit) prog" where
  "NetRead hi fd cs =
     (let d = fst (read_chunk sizeof_hdr cs); cs1 = snd (read_chunk sizeof_hdr cs);
          len = unat (htons (hlen (cut_hdr d)));
          b = fst (read_chunk len cs1); cs2 = snd (read_chunk len cs1) in
      if d = [] then sys_close fd
      else if b = [] then sys_close fd
      else
        andThen tick (\<lambda>n.
        andThen (require OutOfBounds (length b \<le> 1024)) (\<lambda>_.
        andThen (gets (\<lambda>s. blit (os_junk s n) 0 b)) (\<lambda>buf.
        andThen (handle_msg hi fd buf) (\<lambda>_. NetRead hi fd cs2)))))"
  by pat_completeness auto
termination
proof (relation "measure (\<lambda>(hi, fd, cs). unread cs)")
  fix hi :: "'r hiredis" and fd cs d cs1 len b cs2
  assume "d = fst (read_chunk sizeof_hdr cs)" "cs1 = snd (read_chunk sizeof_hdr cs)" "b = fst (read_chunk len cs1)"
    "cs2 = snd (read_chunk len cs1)" "d \<noteq> []" "b \<noteq> []"
  then show "((hi, fd, cs2), (hi, fd, cs)) \<in> measure (\<lambda>(hi, fd, cs). unread cs)"
    using read_chunk_decreases [of sizeof_hdr cs] read_chunk_decreases [of len cs1] by simp
qed simp

declare NetRead.simps [simp del]

subsection \<open>Numbers read back\<close>

lemma digit_char: "d < 10 \<Longrightarrow> is_digit (word_of_nat (48 + d)) \<and> unat (word_of_nat (48 + d) :: u8) = 48 + d"
proof -
  assume d: "d < 10"
  then have "unat (word_of_nat (48 + d) :: u8) = 48 + d" by (simp add: unat_of_nat del: of_nat_add)
  with d show ?thesis by (simp add: is_digit_def word_le_nat_alt del: of_nat_add)
qed

lemma digits_all: "c \<in> set (digits n) \<Longrightarrow> is_digit c"
proof (induction n rule: digits.induct)
  case (1 n)
  then show ?case
    using digit_char [of n] digit_char [of "n mod 10"] by (subst (asm) (2) digits.simps) (auto split: if_splits)
qed

lemma digits_ne: "digits n \<noteq> []"
  by (subst digits.simps) simp

lemma digits_val_append: "(\<And>c. c \<in> set xs \<Longrightarrow> is_digit c) \<Longrightarrow> digits_val acc (xs @ ys) = digits_val (digits_val acc xs) ys"
  by (induction xs arbitrary: acc) auto

lemma digits_val_digits: "digits_val 0 (digits n) = n"
proof (induction n rule: digits.induct)
  case (1 n)
  show ?case
  proof (cases "n < 10")
    case True
    then show ?thesis using digit_char [of n] by (subst digits.simps) (simp del: of_nat_add)
  next
    case False
    have "digits_val 0 (digits n) = digits_val (n div 10) [word_of_nat (48 + n mod 10)]"
      using False 1 digits_val_append [of "digits (n div 10)" 0] digits_all by (subst digits.simps) simp
    also have "\<dots> = n" using digit_char [of "n mod 10"] by (simp del: of_nat_add)
    finally show ?thesis .
  qed
qed

lemma digits_hd: "is_digit (hd (digits n))"
  using digits_all [of "hd (digits n)" n] digits_ne [of n] by simp

lemma digit_not_space: "is_digit c \<Longrightarrow> \<not> is_space c \<and> c \<noteq> 45 \<and> c \<noteq> 43 \<and> c \<noteq> 58 \<and> c \<noteq> 32 \<and> c \<noteq> 37 \<and> c \<noteq> 0 \<and> c \<noteq> 44"
  by (auto simp: is_digit_def is_space_def word_le_nat_alt)

lemma signed_val_fmt: "signed_val (dropWhile is_space (fmt_int 0 i)) = i"
proof -
  obtain c cs where d: "digits (nat \<bar>i\<bar>) = c # cs" using digits_ne by (metis list.exhaust)
  have c: "is_digit c" using digits_hd [of "nat \<bar>i\<bar>"] d by simp
  note n = digit_not_space [OF c] and v = digits_val_digits [of "nat \<bar>i\<bar>", unfolded d]
  have "\<not> is_space 45" by (simp add: is_space_def)
  with n v show ?thesis by (auto simp: fmt_int_def d)
qed

text \<open>What is stored as \<^verbatim>\<open>%ld\<close> is read back by \<^verbatim>\<open>atoll\<close>.\<close>

lemma atoll_fmt: "atoll (fmt_int 0 (sint w)) = w"
proof -
  have "- (2 ^ 63) \<le> sint w" "sint w \<le> 2 ^ 63 - 1"
    using sint_range_size [of w] by (simp_all add: word_size)
  then show ?thesis by (simp add: atoll_def signed_val_fmt)
qed

subsection \<open>Keys\<close>

lemma fmt_lu_digits: "c \<in> set (fmt_lu n w) \<Longrightarrow> is_digit c"
  by (auto simp: fmt_lu_def is_digit_def dest!: digits_all [unfolded is_digit_def])

lemma digits_val_zeros: "digits_val 0 (replicate n 48 @ xs) = digits_val 0 xs"
  by (induction n) (auto simp: is_digit_def)

lemma digits_val_fmt_lu: "digits_val 0 (fmt_lu n w) = unat w"
  by (simp add: fmt_lu_def digits_val_zeros digits_val_digits)

lemma fmt_lu_inj: "fmt_lu n w = fmt_lu n v \<longleftrightarrow> w = v"
  by (metis digits_val_fmt_lu word_unat_eq_iff)

lemma fmt_lu_stop: "takeWhile is_digit (fmt_lu n w @ 58 # r) = fmt_lu n w"
proof -
  have "\<not> is_digit 58" by (simp add: is_digit_def)
  then show ?thesis using fmt_lu_digits by (subst takeWhile_append2) auto
qed

lemma user_key_inj: "user_key k m a = user_key k m' a' \<longleftrightarrow> m = m' \<and> a = a'"
proof
  assume "user_key k m a = user_key k m' a'"
  then have e: "fmt_lu 11 m @ 58 # fmt_lu 8 a = fmt_lu 11 m' @ 58 # fmt_lu 8 a'" by (simp add: user_key_def)
  from arg_cong [OF e, of "takeWhile is_digit"] have "fmt_lu 11 m = fmt_lu 11 m'" by (simp only: fmt_lu_stop)
  with e show "m = m' \<and> a = a'" by (simp add: fmt_lu_inj)
qed simp

definition plain :: "bytes \<Rightarrow> bool" where
  "plain t \<longleftrightarrow> (\<forall>c \<in> set t. c \<noteq> 32 \<and> c \<noteq> 37)"

subsection \<open>The server\<close>

text \<open>What the redis documentation says of the four commands, for a connection that stays up: \<open>val\<close> are the keys that hold
  strings. A key or value is plain when it has no blank and no percent sign.\<close>

definition answers :: "'r hiredis \<Rightarrow> bytes \<Rightarrow> 'r \<Rightarrow> redisReply \<Rightarrow> ('r \<Rightarrow> bool) \<Rightarrow> bool" where
  "answers hi cmd n x P \<longleftrightarrow> (\<exists>n'. hi_command hi cmd n = (Some x, n') \<and> \<not> hi_closed hi n' \<and> P n')"

definition get_reply :: "bytes option \<Rightarrow> redisReply" where
  "get_reply v = (case v of None \<Rightarrow> \<lparr>rr_type = REPLY_NIL, rr_integer = 0, rr_str = None\<rparr>
     | Some t \<Rightarrow> \<lparr>rr_type = REPLY_STRING, rr_integer = 0, rr_str = Some t\<rparr>)"

definition redis_serves :: "'r hiredis \<Rightarrow> ('r \<Rightarrow> bytes \<rightharpoonup> bytes) \<Rightarrow> bool" where
  "redis_serves hi val \<longleftrightarrow>
     (\<forall>n m a. answers hi (get_cmd (auth_key m a)) n (get_reply (val n (auth_key m a))) (\<lambda>n'. val n' = val n)) \<and>
     (\<forall>n m a. answers hi (get_cmd (bal_key m a)) n (get_reply (val n (bal_key m a))) (\<lambda>n'. val n' = val n)) \<and>
     (\<forall>n m a v. answers hi (set_cmd (bal_key m a) v) n \<lparr>rr_type = REPLY_STATUS, rr_integer = 0, rr_str = Some (ascii ''OK'')\<rparr>
        (\<lambda>n'. val n' = (val n)(bal_key m a \<mapsto> fmt_int 0 (sint v)))) \<and>
     (\<forall>n r host. plain host \<longrightarrow> (\<exists>i\<ge>1. answers hi (detail_cmd r host) n \<lparr>rr_type = REPLY_INTEGER, rr_integer = i, rr_str = None\<rparr>
        (\<lambda>n'. val n' = val n))) \<and>
     (\<forall>n m a. \<exists>i. answers hi (expire_cmd m a) n \<lparr>rr_type = REPLY_INTEGER, rr_integer = i, rr_str = None\<rparr> (\<lambda>n'. val n' = val n))"

lemma exec_answers:
  assumes "pool_ready s" "answers hi cmd (tr_net s) x P" "rr_type x = REPLY_STATUS \<Longrightarrow> rr_str x \<noteq> None"
  obtains n where "exec_command hi cmd s = Inr (Some x, s\<lparr>tr_net := n\<rparr>)" "P n"
  using assms exec_command_run [of s hi cmd x] by (auto simp: answers_def)

lemma get_reply_status [simp]: "rr_type (get_reply v) \<noteq> REPLY_STATUS"
  by (cases v) (simp_all add: get_reply_def)

lemma pool_ready_frame [simp]:
  "pool_ready (s\<lparr>tr_net := n\<rparr>) = pool_ready s" "pool_ready (s\<lparr>os_tick := k\<rparr>) = pool_ready s" "pool_ready (s\<lparr>os_log := l\<rparr>) = pool_ready s"
  by (simp_all add: pool_ready_def)

lemma redis_get:
  assumes "redis_serves hi val" "pool_ready s" "k \<in> {''auth:'', ''bal:''}"
  obtains n where "exec_command hi (get_cmd (user_key k m a)) s = Inr (Some (get_reply (val (tr_net s) (user_key k m a))), s\<lparr>tr_net := n\<rparr>)"
    "val n = val (tr_net s)"
proof -
  have "answers hi (get_cmd (user_key k m a)) (tr_net s) (get_reply (val (tr_net s) (user_key k m a))) (\<lambda>n'. val n' = val (tr_net s))"
    using assms(1,3) unfolding redis_serves_def by blast
  then show thesis by (rule exec_answers [OF assms(2)]) (use that in auto)
qed

subsection \<open>Balances\<close>

lemma report_get_run:
  assumes "redis_serves hi val" "pool_ready s" "val (tr_net s) (bal_key (tr_mobile r) (tr_app r)) = Some t"
  obtains n where "report_get hi r s = Inr (Some (atoll t), s\<lparr>tr_net := n\<rparr>)" "val n = val (tr_net s)"
proof -
  obtain n where n: "exec_command hi (get_cmd (bal_key (tr_mobile r) (tr_app r))) s = Inr (Some (get_reply (Some t)), s\<lparr>tr_net := n\<rparr>)"
    "val n = val (tr_net s)"
    by (rule redis_get [OF assms(1,2), of "''bal:''" "tr_mobile r" "tr_app r"]) (use assms(3) that in auto)
  show thesis by (rule that [OF _ n(2)]) (simp add: report_get_def andThen_apply n(1) get_reply_def the_str_def)
qed

lemma report_set_run:
  assumes "redis_serves hi val" "pool_ready s"
  obtains n where "report_set hi r b s = Inr (True, s\<lparr>tr_net := n\<rparr>)"
    "val n = (val (tr_net s))(bal_key (tr_mobile r) (tr_app r) \<mapsto> fmt_int 0 (sint (b - tr_traffic r)))"
proof -
  let ?x = "\<lparr>rr_type = REPLY_STATUS, rr_integer = 0, rr_str = Some (ascii ''OK'')\<rparr>"
  let ?k = "bal_key (tr_mobile r) (tr_app r)"
  have a: "answers hi (set_cmd ?k (b - tr_traffic r)) (tr_net s) ?x
    (\<lambda>n'. val n' = (val (tr_net s))(?k \<mapsto> fmt_int 0 (sint (b - tr_traffic r))))"
    using assms(1) unfolding redis_serves_def by blast
  obtain n where n: "exec_command hi (set_cmd ?k (b - tr_traffic r)) s = Inr (Some ?x, s\<lparr>tr_net := n\<rparr>)"
    "val n = (val (tr_net s))(?k \<mapsto> fmt_int 0 (sint (b - tr_traffic r)))"
    by (rule exec_answers [OF assms(2) a]) (use that in auto)
  show thesis by (rule that [OF _ n(2)]) (simp add: report_set_def andThen_apply n(1) the_str_def ascii_def)
qed

text \<open>A report that the recorder can store: the host name ends in the message, is plain, and leaves room for the rest of
  the command.\<close>

definition storable :: "bytes \<Rightarrow> bool" where
  "storable buf \<longleftrightarrow> 0 \<in> set (drop 63 buf) \<and> plain (c_str (drop 63 buf)) \<and>
     length (detail_cmd (dec_TrafficReport buf) (c_str (drop 63 buf))) < 1024"

lemma report_detail_run:
  assumes "redis_serves hi val" "pool_ready s" "storable buf"
  obtains n where "report_detail hi (dec_TrafficReport buf) (drop 63 buf) s = Inr (True, s\<lparr>tr_net := n\<rparr>)" "val n = val (tr_net s)"
proof -
  let ?r = "dec_TrafficReport buf" and ?h = "c_str (drop 63 buf)"
  have "plain ?h" using assms(3) by (simp add: storable_def)
  then obtain i where i: "1 \<le> i" "answers hi (detail_cmd ?r ?h) (tr_net s) \<lparr>rr_type = REPLY_INTEGER, rr_integer = i, rr_str = None\<rparr>
      (\<lambda>n'. val n' = val (tr_net s))"
    using assms(1) unfolding redis_serves_def by blast
  obtain n where n: "exec_command hi (detail_cmd ?r ?h) s = Inr (Some \<lparr>rr_type = REPLY_INTEGER, rr_integer = i, rr_str = None\<rparr>, s\<lparr>tr_net := n\<rparr>)"
    "val n = val (tr_net s)"
    by (rule exec_answers [OF assms(2) i(2)]) (use that in auto)
  show thesis by (rule that [OF _ n(2)]) (use assms(3) i(1) in \<open>simp add: report_detail_def storable_def andThen_apply n(1)\<close>)
qed

lemma expire_run:
  assumes "redis_serves hi val" "pool_ready s"
  obtains x n where "exec_command hi (expire_cmd m a) s = Inr (Some x, s\<lparr>tr_net := n\<rparr>)" "val n = val (tr_net s)"
proof -
  obtain i where i: "answers hi (expire_cmd m a) (tr_net s) \<lparr>rr_type = REPLY_INTEGER, rr_integer = i, rr_str = None\<rparr> (\<lambda>n'. val n' = val (tr_net s))"
    using assms(1) unfolding redis_serves_def by blast
  show thesis by (rule exec_answers [OF assms(2) i]) (use that in auto)
qed

lemma SendMsg2Tms_run:
  "6 + length m \<le> 1024 \<Longrightarrow> \<exists>k r. SendMsg2Tms fd m s = Inr (r, s\<lparr>os_tick := k, os_log := os_log s @ [Send fd (frame m) r]\<rparr>)"
  by (rule exI [of _ "Suc (os_tick s)"]) (simp add: SendMsg2Tms_def andThen_apply)

lemma traffic_report_run:
  assumes "redis_serves hi val" "pool_ready s" "storable buf" and r: "r = dec_TrafficReport buf"
    and "val (tr_net s) (bal_key (tr_mobile r) (tr_app r)) = Some t"
  obtains s' x where "traffic_report hi fd buf s = Inr ((), s')" "pool_ready s'"
    "val (tr_net s') = (val (tr_net s))(bal_key (tr_mobile r) (tr_app r) \<mapsto> fmt_int 0 (sint (atoll t - tr_traffic r)))"
    "os_log s' = os_log s @ [Send fd (frame (enc_TrafficReportRsp (report_rsp r))) x]"
proof -
  note a = assms(1,2)
  obtain n1 where 1: "report_get hi r s = Inr (Some (atoll t), s\<lparr>tr_net := n1\<rparr>)" "val n1 = val (tr_net s)"
    by (rule report_get_run [OF a assms(5)])
  obtain n2 where 2: "report_set hi r (atoll t) (s\<lparr>tr_net := n1\<rparr>) = Inr (True, s\<lparr>tr_net := n2\<rparr>)"
    "val n2 = (val (tr_net s))(bal_key (tr_mobile r) (tr_app r) \<mapsto> fmt_int 0 (sint (atoll t - tr_traffic r)))"
    by (rule report_set_run [OF a(1), of "s\<lparr>tr_net := n1\<rparr>" r "atoll t"]) (use a(2) 1(2) that in auto)
  obtain n3 where 3: "report_detail hi r (drop 63 buf) (s\<lparr>tr_net := n2\<rparr>) = Inr (True, s\<lparr>tr_net := n3\<rparr>)" "val n3 = val n2"
    by (rule report_detail_run [OF a(1), of "s\<lparr>tr_net := n2\<rparr>" buf]) (use a(2) assms(3) that r in auto)
  obtain y n4 where 4: "exec_command hi (expire_cmd (tr_mobile r) (tr_app r)) (s\<lparr>tr_net := n3\<rparr>) = Inr (Some y, s\<lparr>tr_net := n4\<rparr>)" "val n4 = val n3"
    by (rule expire_run [OF a(1), of "s\<lparr>tr_net := n3\<rparr>"]) (use a(2) that in auto)
  have e: "(report_rsp r)\<lparr>tx_rsp_code := 0\<rparr> = report_rsp r" by (simp add: report_rsp_def)
  obtain k x where 5: "SendMsg2Tms fd (enc_TrafficReportRsp (report_rsp r)) (s\<lparr>tr_net := n4\<rparr>) =
      Inr (x, s\<lparr>tr_net := n4\<rparr>\<lparr>os_tick := k, os_log := os_log s @ [Send fd (frame (enc_TrafficReportRsp (report_rsp r))) x]\<rparr>)"
    using SendMsg2Tms_run [of "enc_TrafficReportRsp (report_rsp r)" fd "s\<lparr>tr_net := n4\<rparr>"] by (auto simp: enc_TrafficReportRsp_def)
  show thesis
    by (rule that [of "s\<lparr>tr_net := n4\<rparr>\<lparr>os_tick := k, os_log := os_log s @ [Send fd (frame (enc_TrafficReportRsp (report_rsp r))) x]\<rparr>" x])
      (use a(2) 2(2) 3(2) 4(2) in \<open>simp_all add: traffic_report_def Let_def r [symmetric] andThen_apply 1(1) 2(1) 3(1) 4(1) send_report_rsp_def e 5\<close>)
qed

definition charged :: "u64 \<Rightarrow> u64 \<Rightarrow> bytes list \<Rightarrow> u64" where
  "charged m a bufs = sum_list (map (\<lambda>b. let r = dec_TrafficReport b in
     if tr_mobile r = m \<and> tr_app r = a then tr_traffic r else 0) bufs)"

definition has_balance :: "(bytes \<rightharpoonup> bytes) \<Rightarrow> bytes \<Rightarrow> bool" where
  "has_balance v buf \<longleftrightarrow> (let r = dec_TrafficReport buf in v (bal_key (tr_mobile r) (tr_app r)) \<noteq> None)"

lemma charged_Cons: "charged m a (b # bs) = charged m a [b] + charged m a bs"
  by (simp add: charged_def)

text \<open>C10: the recorder deducts reports exactly. When it handles reports of any users one after the other, every user's stored
  balance falls by the sum of that user's reports, and nobody else's changes.\<close>

theorem reports_deducted:
  assumes "redis_serves hi val" "pool_ready s" "\<forall>b \<in> set bufs. storable b \<and> has_balance (val (tr_net s)) b"
    and "val (tr_net s) (bal_key m a) = Some t"
  shows "\<exists>s' t'. foreach bufs (traffic_report hi fd) s = Inr ((), s') \<and> val (tr_net s') (bal_key m a) = Some t' \<and>
    atoll t' = atoll t - charged m a bufs"
  using assms(2-)
proof (induction bufs arbitrary: s t)
  case Nil
  then show ?case by (simp add: charged_def)
next
  case (Cons b bufs)
  let ?r = "dec_TrafficReport b"
  let ?k = "bal_key (tr_mobile ?r) (tr_app ?r)"
  obtain u where u: "val (tr_net s) ?k = Some u" using Cons.prems(2) by (auto simp: has_balance_def Let_def)
  have st: "storable b" using Cons.prems(2) by simp
  obtain s1 x where s1: "traffic_report hi fd b s = Inr ((), s1)" "pool_ready s1"
    "val (tr_net s1) = (val (tr_net s))(?k \<mapsto> fmt_int 0 (sint (atoll u - tr_traffic ?r)))"
    by (rule traffic_report_run [OF assms(1) Cons.prems(1) st refl u]) (rule that)
  have keep: "\<forall>b \<in> set bufs. storable b \<and> has_balance (val (tr_net s1)) b"
    using Cons.prems(2) s1(3) by (auto simp: has_balance_def Let_def)
  obtain t1 where t1: "val (tr_net s1) (bal_key m a) = Some t1" "atoll t1 = atoll t - charged m a [b]"
    using Cons.prems(3) s1(3) u that
    by (cases "m = tr_mobile ?r \<and> a = tr_app ?r") (auto simp: charged_def Let_def user_key_inj atoll_fmt)
  from Cons.IH [OF s1(2) keep t1(1)] t1(2) s1(1) show ?case
    by (auto simp: andThen_apply charged_Cons [of m a b bufs] diff_diff_eq)
qed

text \<open>C23: two reports of one user whose queries interleave, as the coroutines let them, lose a deduction: both read the same
  balance, and the second write undoes the first.\<close>

theorem interleaved_report_lost:
  assumes "redis_serves hi val" "pool_ready s" and k: "k = bal_key (tr_mobile r1) (tr_app r1)"
    and same: "tr_mobile r2 = tr_mobile r1" "tr_app r2 = tr_app r1" and "val (tr_net s) k = Some t"
  shows "\<exists>s'. andThen (report_get hi r1) (\<lambda>b1. andThen (report_get hi r2) (\<lambda>b2.
      andThen (report_set hi r1 (the b1)) (\<lambda>_. report_set hi r2 (the b2)))) s = Inr (True, s') \<and>
    map_option atoll (val (tr_net s') k) = Some (atoll t - tr_traffic r2)"
proof -
  note a = assms(1,2)
  have t1: "val (tr_net s) (bal_key (tr_mobile r1) (tr_app r1)) = Some t" using assms(6) k by simp
  obtain n1 where 1: "report_get hi r1 s = Inr (Some (atoll t), s\<lparr>tr_net := n1\<rparr>)" "val n1 = val (tr_net s)"
    by (rule report_get_run [OF a t1])
  obtain n2 where 2: "report_get hi r2 (s\<lparr>tr_net := n1\<rparr>) = Inr (Some (atoll t), s\<lparr>tr_net := n2\<rparr>)" "val n2 = val (tr_net s)"
    by (rule report_get_run [OF a(1), of "s\<lparr>tr_net := n1\<rparr>" r2 t]) (use a(2) 1(2) t1 same that in auto)
  obtain n3 where 3: "report_set hi r1 (atoll t) (s\<lparr>tr_net := n2\<rparr>) = Inr (True, s\<lparr>tr_net := n3\<rparr>)"
    by (rule report_set_run [OF a(1), of "s\<lparr>tr_net := n2\<rparr>" r1 "atoll t"]) (use a(2) that in auto)
  obtain n4 where 4: "report_set hi r2 (atoll t) (s\<lparr>tr_net := n3\<rparr>) = Inr (True, s\<lparr>tr_net := n4\<rparr>)"
    "val n4 = (val n3)(k \<mapsto> fmt_int 0 (sint (atoll t - tr_traffic r2)))"
    by (rule report_set_run [OF a(1), of "s\<lparr>tr_net := n3\<rparr>" r2 "atoll t"]) (use a(2) same k that in auto)
  show ?thesis using 1(1) 2(1) 3 4 by (simp add: andThen_apply atoll_fmt)
qed

subsection \<open>Tokens\<close>

lemma mem_equal_str:
  "0 \<notin> set u \<Longrightarrow> 0 \<notin> set t \<Longrightarrow> mem_equal (max (length t) (length u)) (u @ 0 # r) (t @ [0]) = Inr (u = t)"
proof (induction u arbitrary: t)
  case Nil
  then show ?case by (cases t) auto
next
  case (Cons x u)
  then show ?case by (cases t) auto
qed

lemma c_str_split:
  assumes "0 \<in> set b"
  obtains r where "b = c_str b @ 0 # r" "0 \<notin> set (c_str b)"
proof -
  obtain x y where e: "b = x @ 0 # y" "0 \<notin> set x" using split_list_first [OF assms] by blast
  then have "c_str b = x" unfolding c_str_def by (subst e(1), subst takeWhile_append2) auto
  with e that show thesis by simp
qed

definition token_verdict :: "(bytes \<rightharpoonup> bytes) \<Rightarrow> ReadTokenReq \<Rightarrow> bytes \<Rightarrow> u16" where
  "token_verdict v req token =
     (case v (auth_key (tq_mobile req) (tq_app req)) of
        None \<Rightarrow> USER_NOT_EXIST
      | Some t \<Rightarrow> if token \<noteq> t then INCORRECT_TOKEN
          else (case v (bal_key (tq_mobile req) (tq_app req)) of
                  None \<Rightarrow> NO_BALANCE
                | Some b \<Rightarrow> if sint (atoll b) < 4000 then NO_BALANCE else RC_SUCC))"

definition token_answered :: "('r \<Rightarrow> bytes \<rightharpoonup> bytes) \<Rightarrow> u64 \<Rightarrow> ReadTokenReq \<Rightarrow> u16 \<Rightarrow> 'r recorder \<Rightarrow> 'r recorder \<Rightarrow> bool" where
  "token_answered val fd req code s s' \<longleftrightarrow> val (tr_net s') = val (tr_net s) \<and>
     (\<exists>rsp x. os_log s' = os_log s @ [Send fd (frame (enc_ReadTokenRsp rsp)) x] \<and> tp_rsp_code rsp = code \<and>
        tp_cid rsp = tq_cid req \<and> tp_mobile rsp = tq_mobile req \<and> tp_app rsp = tq_app req)"

lemma send_token_run:
  assumes "length (tp_token rsp) \<le> 32"
  shows "\<exists>k x. send_token fd rsp s = Inr ((), s\<lparr>os_tick := k, os_log := os_log s @ [Send fd (frame (enc_ReadTokenRsp rsp)) x]\<rparr>)"
proof -
  have "6 + length (enc_ReadTokenRsp rsp) \<le> 1024" using assms by (simp add: enc_ReadTokenRsp_def)
  then obtain k x where "SendMsg2Tms fd (enc_ReadTokenRsp rsp) s =
      Inr (x, s\<lparr>os_tick := k, os_log := os_log s @ [Send fd (frame (enc_ReadTokenRsp rsp)) x]\<rparr>)"
    using SendMsg2Tms_run by blast
  then show ?thesis by (intro exI [of _ k] exI [of _ x]) (simp add: send_token_def andThen_apply)
qed

lemma send_token_answers:
  assumes "length (tp_token rsp) \<le> 32" "tp_cid rsp = tq_cid req" "tp_mobile rsp = tq_mobile req" "tp_app rsp = tq_app req"
    "val (tr_net s) = val (tr_net s0)" "os_log s = os_log s0"
  shows "\<exists>s'. send_token fd rsp s = Inr ((), s') \<and> token_answered val fd req (tp_rsp_code rsp) s0 s'"
proof -
  obtain k x where "send_token fd rsp s = Inr ((), s\<lparr>os_tick := k, os_log := os_log s @ [Send fd (frame (enc_ReadTokenRsp rsp)) x]\<rparr>)"
    using send_token_run [OF assms(1)] by blast
  then show ?thesis using assms(2-) by (auto simp: token_answered_def)
qed

lemma token_balance_run:
  assumes "redis_serves hi val" "pool_ready s" "length (tp_token rsp) \<le> 32" "tp_cid rsp = tq_cid req" "tp_mobile rsp = tq_mobile req"
    "tp_app rsp = tq_app req" "val (tr_net s) = val (tr_net s0)" "os_log s = os_log s0"
  shows "\<exists>s'. token_balance hi fd req rsp s = Inr ((), s') \<and>
    token_answered val fd req (case val (tr_net s0) (bal_key (tq_mobile req) (tq_app req)) of
      None \<Rightarrow> NO_BALANCE | Some b \<Rightarrow> if sint (atoll b) < 4000 then NO_BALANCE else RC_SUCC) s0 s'"
proof -
  let ?v = "val (tr_net s0) (bal_key (tq_mobile req) (tq_app req))"
  obtain n where n: "exec_command hi (get_cmd (bal_key (tq_mobile req) (tq_app req))) s = Inr (Some (get_reply ?v), s\<lparr>tr_net := n\<rparr>)"
    "val n = val (tr_net s0)"
    by (rule redis_get [OF assms(1,2), of "''bal:''" "tq_mobile req" "tq_app req"]) (use assms(7) that in auto)
  note answers = send_token_answers [where s = "s\<lparr>tr_net := n\<rparr>" and val = val and ?s0.0 = s0 and req = req and fd = fd]
  show ?thesis
  proof (cases ?v)
    case None
    then show ?thesis using answers [of "rsp\<lparr>tp_rsp_code := NO_BALANCE\<rparr>"] assms(3-) n(2)
      by (simp add: token_balance_def andThen_apply n(1) get_reply_def)
  next
    case (Some b)
    then show ?thesis
      using answers [of "rsp\<lparr>tp_balance := atoll b, tp_rsp_code := (if sint (atoll b) < 4000 then NO_BALANCE else 0)\<rparr>"] assms(3-) n(2)
      by (simp add: token_balance_def andThen_apply n(1) get_reply_def the_str_def del: if_split)
  qed
qed

lemma c_str_snoc: "0 \<notin> set t \<Longrightarrow> c_str (t @ [0]) = t"
  unfolding c_str_def by (subst takeWhile_append2) auto

lemma token_compare_run:
  assumes "redis_serves hi val" "pool_ready s" "0 \<in> set token" and v: "v = val (tr_net s) (auth_key (tq_mobile req) (tq_app req))"
    and stored: "\<forall>t. v = Some t \<longrightarrow> 0 \<notin> set t \<and> length t < 900 \<and> fmt_plain t"
    and rsp: "length (tp_token rsp) \<le> 32" "tp_cid rsp = tq_cid req" "tp_mobile rsp = tq_mobile req" "tp_app rsp = tq_app req"
    and s: "val (tr_net s) = val (tr_net s0)" "os_log s = os_log s0"
  shows "\<exists>s'. token_compare hi fd req token rsp (get_reply v) s = Inr ((), s') \<and>
    token_answered val fd req (token_verdict (val (tr_net s0)) req (c_str token)) s0 s'"
proof (cases v)
  case None
  then show ?thesis using send_token_answers [of "rsp\<lparr>tp_rsp_code := USER_NOT_EXIST\<rparr>" req val s s0 fd] rsp s v
    by (simp add: token_compare_def get_reply_def token_verdict_def)
next
  case (Some t)
  with stored have t: "0 \<notin> set t" "length t < 900" "fmt_plain t" by auto
  have str: "c_str (t @ [0]) = t" using t(1) by (simp add: c_str_snoc)
  obtain r where r: "token = c_str token @ 0 # r" "0 \<notin> set (c_str token)" using c_str_split [OF assms(3)] by blast
  have cmp: "mem_equal (max (length t) (c_strlen token)) token (t @ [0]) = Inr (c_str token = t)"
    using mem_equal_str [OF r(2) t(1), of r] r(1) by (simp add: c_strlen_def c_str_def)
  note run = token_compare_def Let_def andThen_apply get_reply_def the_str_def token_verdict_def lift_sum_def cmp
  show ?thesis
  proof (cases "c_str token = t")
    case False
    then show ?thesis using Some send_token_answers [of "rsp\<lparr>tp_rsp_code := INCORRECT_TOKEN\<rparr>" req val s s0 fd] rsp s v assms(3)
      by (simp add: run)
  next
    case True
    then have len: "c_strlen token = length t" by (auto simp: c_strlen_def c_str_def)
    show ?thesis
      using token_balance_run [OF assms(1,2), of "rsp\<lparr>tp_token := take 32 (t @ [0] @ drop (length t + 1) (tp_token rsp))\<rparr>" req s0 fd]
        True Some t(2,3) assms(3) rsp s v cmp
      by (simp add: run len str)
  qed
qed

text \<open>C8: the recorder answers a token request with the verdict it should: success exactly when the stored token of the user is
  the one of the request and the balance is at least 4000, and otherwise the code of the first thing that is wrong;
  the answer names the connection and the user of the request, and nothing stored changes. The token of the request ends
  with a zero byte within the buffer; the stored token has no zero byte, fits the response buffer and, since the recorder prints it
  as a format, has no conversion.\<close>

theorem token_request_verdict:
  assumes "redis_serves hi val" "pool_ready s" "0 \<in> set (drop 26 buf)" and req: "req = dec_ReadTokenReq buf"
    and stored: "\<forall>t. val (tr_net s) (auth_key (tq_mobile req) (tq_app req)) = Some t \<longrightarrow>
      0 \<notin> set t \<and> length t < 900 \<and> fmt_plain t"
  shows "\<exists>s'. read_token hi fd buf s = Inr ((), s') \<and>
    token_answered val fd req (token_verdict (val (tr_net s)) req (c_str (drop 26 buf))) s s'"
proof -
  let ?u = "c_str (drop 26 buf)" and ?k = "Suc (os_tick s)"
  let ?s = "s\<lparr>os_tick := ?k\<rparr>" and ?v = "val (tr_net s) (auth_key (tq_mobile req) (tq_app req))"
  define rsp where "rsp = (dec_ReadTokenRsp (os_junk s (os_tick s)))\<lparr>tp_cid := tq_cid req, tp_app := tq_app req, tp_mobile := tq_mobile req\<rparr>"
  have rsp: "length (tp_token rsp) \<le> 32" "tp_cid rsp = tq_cid req" "tp_mobile rsp = tq_mobile req" "tp_app rsp = tq_app req"
    by (simp_all add: rsp_def dec_ReadTokenRsp_def ldn_def)
  obtain n where n: "exec_command hi (get_cmd (auth_key (tq_mobile req) (tq_app req))) ?s = Inr (Some (get_reply ?v), ?s\<lparr>tr_net := n\<rparr>)"
    "val n = val (tr_net s)"
    by (rule redis_get [OF assms(1), of ?s "''auth:''" "tq_mobile req" "tq_app req"]) (use assms(2) that in auto)
  have "\<exists>s'. token_compare hi fd req (drop 26 buf) rsp (get_reply ?v) (?s\<lparr>tr_net := n\<rparr>) = Inr ((), s') \<and>
    token_answered val fd req (token_verdict (val (tr_net s)) req ?u) s s'"
    by (rule token_compare_run [OF assms(1) _ assms(3)]) (use assms(2) stored rsp n(2) in simp_all)
  then show ?thesis by (simp add: read_token_def Let_def andThen_apply tick_def req [symmetric] rsp_def [symmetric] n(1))
qed

text \<open>C37: a stored token with a conversion is undefined behaviour for the client that knows it: the request with the right
  token makes the recorder read arguments that were not passed, before the balance is looked up.\<close>

theorem token_conversion_fault:
  assumes "redis_serves hi val" "pool_ready s" "0 \<in> set (drop 26 buf)" and req: "req = dec_ReadTokenReq buf"
    and stored: "val (tr_net s) (auth_key (tq_mobile req) (tq_app req)) = Some (c_str (drop 26 buf))" "\<not> fmt_plain (c_str (drop 26 buf))"
  shows "read_token hi fd buf s = Inl OutOfBounds"
proof -
  let ?t = "c_str (drop 26 buf)" and ?k = "Suc (os_tick s)"
  let ?s = "s\<lparr>os_tick := ?k\<rparr>"
  obtain n where n: "exec_command hi (get_cmd (auth_key (tq_mobile req) (tq_app req))) ?s = Inr (Some (get_reply (Some ?t)), ?s\<lparr>tr_net := n\<rparr>)"
    by (rule redis_get [OF assms(1), of ?s "''auth:''" "tq_mobile req" "tq_app req"]) (use assms(2) stored(1) that in auto)
  obtain r where r: "drop 26 buf = ?t @ 0 # r" "0 \<notin> set ?t" using c_str_split [OF assms(3)] by blast
  have cmp: "mem_equal (max (length ?t) (c_strlen (drop 26 buf))) (drop 26 buf) (?t @ [0]) = Inr True"
    using mem_equal_str [OF r(2) r(2), of r] r(1) by (simp add: c_strlen_def c_str_def)
  show ?thesis using stored(2) assms(3)
    by (simp add: read_token_def Let_def andThen_apply tick_def req [symmetric] n token_compare_def get_reply_def the_str_def
        lift_sum_def cmp c_str_snoc [OF r(2)] require_def)
qed

subsection \<open>Keep-alives and cut headers\<close>

text \<open>C34: a keep-alive message of tms keeps nothing alive: whatever users it names, the commands that reach the server are two
  increments of \<^verbatim>\<open>foo\<close>, and no expiry is set.\<close>

theorem keep_alive_increments_foo:
  assumes "keep_alive hi buf s = Inr ((), s')" "alive_users (dec_KeepAliveToken buf) \<noteq> []" "pool_ready s"
  shows "tr_net s' = snd (hi_command hi (ascii ''incr foo'') (snd (hi_command hi (ascii ''incr foo'') (tr_net s))))"
proof -
  obtain p ps c where p: "tr_stack s = p # ps" "p \<noteq> 0" "tr_conns s p = Some c" "rc_ctx c" "0 < tr_ready s" "tr_chan s"
    using assms(3) by (auto simp: pool_ready_def)
  have get: "get_connection s = Inr (p, s\<lparr>tr_ready := tr_ready s - 1, tr_stack := ps\<rparr>)"
    using p by (simp add: get_connection_def co_wait_def andThen_apply)
  show ?thesis using assms(1,2) p
    by (auto simp: keep_alive_def exec_command_pipeline_def rconn_pipeline_def push_back_connection_def co_ready_def Let_def
        andThen_eq_Inr_iff get on_net_def require_def split: prod.splits if_splits)
qed

lemma frame_short:
  assumes "length m < 256"
  shows "\<exists>b. frame m = [0x86, 0x68, 0, b, 0, 0] @ m"
proof -
  let ?w = "word_of_nat (length m) :: u16"
  have w: "unat ?w = length m" using assms by (simp add: unat_of_nat)
  have "st16 (htons ?w) = rev (st16 ?w)" by (simp add: st16_def htons_def to_le_unat_from_le)
  also have "\<dots> = [0, word_of_nat (length m)]" using assms w by (simp add: st16_def to_le_eval)
  finally have h: "st16 (htons ?w) = [0, word_of_nat (length m)]" .
  have "st16 0 = [0, 0]" by (simp add: st16_def to_le_eval)
  with h show ?thesis by (simp add: frame_def enc_hdr_def hdr_init_def)
qed

text \<open>C35: a message whose header is cut after one, two or three bytes ends the connection, unless the cut is after the
  third and the body has 256 bytes or more: the recorder takes the part it got for the whole header, whose other bytes are the
  initial ones with the length 0, reads nothing and closes, although the rest is there. After the fourth or fifth byte the length is
  known and the message goes on with the rest of the header as its first bytes.\<close>

theorem header_cut_closes:
  assumes "0 < k" "k < 4" "k = 3 \<longrightarrow> length m < 256"
  shows "NetRead hi fd (take k (frame m) # drop k (frame m) # cs) s = sys_close fd s"
proof -
  let ?d = "take k (frame m)"
  have r: "read_chunk sizeof_hdr (?d # drop k (frame m) # cs) = (?d, drop k (frame m) # cs)"
    using assms by (auto simp: read_chunk_def frame_length)
  have i: "enc_hdr hdr_init = [0x86, 0x68, 0, 0, 0, 0]" by (simp add: enc_hdr_def hdr_init_def st16_def to_le_eval)
  have f: "take (Suc 0) (frame m) = [0x86]" "take 2 (frame m) = [0x86, 0x68]" by (simp_all add: frame_def enc_hdr_def hdr_init_def)
  have f3: "take 3 (frame m) = [0x86, 0x68, 0]" if "length m < 256" using frame_short [OF that] by auto
  consider "k = 1" | "k = 2" | "k = 3" "length m < 256" using assms by linarith
  then have "hlen (cut_hdr ?d) = 0 \<and> ?d \<noteq> []"
    by cases (simp_all add: cut_hdr_def dec_hdr_def f f3 i blit_def ld16_def)
  moreover have "htons 0 = 0" by (simp add: htons_def to_le_eval)
  ultimately show ?thesis
    by (subst NetRead.simps) (simp only: Let_def r fst_conv snd_conv, simp add: read_chunk_def)
qed

subsection \<open>A server\<close>

text \<open>A server that keeps strings and answers as documented.\<close>

definition store_command :: "bytes \<Rightarrow> (bytes \<rightharpoonup> bytes) \<Rightarrow> redisReply option \<times> (bytes \<rightharpoonup> bytes)" where
  "store_command cmd db =
     (if take 4 cmd = ascii ''get '' then (Some (get_reply (db (drop 4 cmd))), db)
      else if take 4 cmd = ascii ''set '' then
        (Some \<lparr>rr_type = REPLY_STATUS, rr_integer = 0, rr_str = Some (ascii ''OK'')\<rparr>,
         db(takeWhile (\<lambda>c. c \<noteq> 32) (drop 4 cmd) \<mapsto> tl (dropWhile (\<lambda>c. c \<noteq> 32) (drop 4 cmd))))
      else (Some \<lparr>rr_type = REPLY_INTEGER, rr_integer = 1, rr_str = None\<rparr>, db))"

definition store :: "(bytes \<rightharpoonup> bytes) hiredis" where
  "store = \<lparr>hi_connect = \<lambda>_ _ _ db. (True, db), hi_command = store_command, hi_auth = \<lambda>_ db. (None, db),
     hi_reconnect = \<lambda>db. (False, db), hi_closed = \<lambda>_. False\<rparr>"

lemma key_stop:
  assumes "k \<in> {''auth:'', ''bal:'', ''dtl:''}"
  shows "takeWhile (\<lambda>c. c \<noteq> 32) (user_key k m a @ 32 # r) = user_key k m a" "dropWhile (\<lambda>c. c \<noteq> 32) (user_key k m a @ 32 # r) = 32 # r"
proof -
  have "c \<noteq> 32" if "c \<in> set (user_key k m a)" for c
    using that assms by (auto simp: user_key_def ascii_def dest!: fmt_lu_digits digit_not_space)
  then show "takeWhile (\<lambda>c. c \<noteq> 32) (user_key k m a @ 32 # r) = user_key k m a" "dropWhile (\<lambda>c. c \<noteq> 32) (user_key k m a @ 32 # r) = 32 # r"
    by (simp_all add: takeWhile_append2 dropWhile_append2)
qed

lemma store_serves: "redis_serves store (\<lambda>db. db)"
  unfolding redis_serves_def answers_def
proof (intro conjI allI impI)
  fix n :: "bytes \<rightharpoonup> bytes" and m a v
  show "\<exists>n'. hi_command store (set_cmd (bal_key m a) v) n = (Some \<lparr>rr_type = REPLY_STATUS, rr_integer = 0, rr_str = Some (ascii ''OK'')\<rparr>, n') \<and>
      \<not> hi_closed store n' \<and> n' = n(bal_key m a \<mapsto> fmt_int 0 (sint v))"
    by (simp add: store_def store_command_def set_cmd_def key_stop) (simp add: ascii_def)
next
  fix n :: "bytes \<rightharpoonup> bytes" and r host
  show "\<exists>i\<ge>1. \<exists>n'. hi_command store (detail_cmd r host) n = (Some \<lparr>rr_type = REPLY_INTEGER, rr_integer = i, rr_str = None\<rparr>, n') \<and>
      \<not> hi_closed store n' \<and> n' = n"
    by (rule exI [of _ 1]) (simp add: store_def store_command_def detail_cmd_def ascii_def)
qed (simp_all add: store_def store_command_def get_cmd_def expire_cmd_def ascii_def)

definition demo_recorder :: "(bytes \<rightharpoonup> bytes) recorder" where
  "demo_recorder = os.extend \<lparr>os_ret = \<lambda>_. 0, os_errno = \<lambda>_. 0, os_clock = \<lambda>_. (0, 0), os_peer = \<lambda>_. None,
       os_junk = \<lambda>_. replicate 1024 0, os_inet_addr = \<lambda>_. 0, os_tick = 0, os_log = []\<rparr>
     \<lparr>tr_net = [auth_key 7 1 \<mapsto> ascii ''secret'', bal_key 7 1 \<mapsto> ascii ''5000''],
      tr_conns = [1 \<mapsto> \<lparr>rc_host_ip = [49], rc_port = 6379, rc_passwd = [], rc_timeout = 1, rc_ctx = True, rc_connect = True\<rparr>],
      tr_next = 2, tr_stack = [1], tr_chan = True, tr_ready = 1\<rparr>"

lemma demo_recorder_ready: "pool_ready demo_recorder"
  by (simp add: pool_ready_def demo_recorder_def os.defs)

lemma demo_recorder_vals:
  "tr_net demo_recorder (bal_key 7 1) = Some (ascii ''5000'')" "tr_net demo_recorder (auth_key 7 1) = Some (ascii ''secret'')"
  by (simp_all add: demo_recorder_def os.defs user_key_def ascii_def)

lemma atoll_5000: "atoll (ascii ''5000'') = 5000"
  by (simp add: atoll_def ascii_def is_space_def is_digit_def)

definition demo_report :: TrafficReport where
  "demo_report = TrafficReport_init\<lparr>tr_mobile := 7, tr_app := 1, tr_traffic := 300, tr_hlen := 1, tr_host := 45 # replicate 255 0\<rparr>"

lemma demo_report_dec: "dec_TrafficReport (enc_TrafficReport demo_report) = demo_report"
  using dec_enc_TrafficReport [of demo_report "[]"] by (simp add: demo_report_def)

lemma demo_report_host: "drop 63 (enc_TrafficReport demo_report) = 45 # replicate 255 0"
  by (simp add: enc_TrafficReport_def st_timeval_def demo_report_def)

lemma demo_report_storable: "storable (enc_TrafficReport demo_report)"
proof -
  have h: "c_str (45 # replicate 255 0) = [45]" by (simp add: c_str_def)
  show ?thesis unfolding storable_def demo_report_dec demo_report_host h
    by (simp add: plain_def detail_cmd_def detail_text_def user_key_def fmt_lu_def fmt_time_def fmt_int_def demo_report_def
        TrafficReport_init_def digits.simps)
qed

theorem reports_deducted_witness:
  "\<exists>s' t'. foreach [enc_TrafficReport demo_report, enc_TrafficReport demo_report] (traffic_report store 4) demo_recorder = Inr ((), s') \<and>
     tr_net s' (bal_key 7 1) = Some t' \<and> atoll t' = 4400"
proof -
  let ?bufs = "[enc_TrafficReport demo_report, enc_TrafficReport demo_report]"
  have "\<forall>b \<in> set ?bufs. storable b \<and> has_balance (tr_net demo_recorder) b"
    using demo_report_storable demo_recorder_vals(1) by (simp add: has_balance_def demo_report_dec) (simp add: demo_report_def)
  moreover have "charged 7 1 ?bufs = 600" by (simp add: charged_def demo_report_dec) (simp add: demo_report_def)
  ultimately show ?thesis
    using reports_deducted [OF store_serves demo_recorder_ready, of ?bufs 7 1 "ascii ''5000''" 4] demo_recorder_vals(1) atoll_5000
    by auto
qed

theorem interleaved_report_lost_witness:
  "\<exists>s'. andThen (report_get store demo_report) (\<lambda>b1. andThen (report_get store demo_report) (\<lambda>b2.
      andThen (report_set store demo_report (the b1)) (\<lambda>_. report_set store demo_report (the b2)))) demo_recorder = Inr (True, s') \<and>
    map_option atoll (tr_net s' (bal_key 7 1)) = Some 4700"
  using interleaved_report_lost [OF store_serves demo_recorder_ready, of "bal_key 7 1" demo_report demo_report "ascii ''5000''"]
    demo_recorder_vals(1) atoll_5000
  by (simp add: demo_report_def)

definition demo_request :: ReadTokenReq where
  "demo_request = \<lparr>tq_cid = 9, tq_app = 1, tq_mobile = 7, tq_token = ascii ''secret'' @ replicate 26 0\<rparr>"

lemma demo_request_dec: "dec_ReadTokenReq (enc_ReadTokenReq demo_request) = demo_request"
  using dec_enc_ReadTokenReq [of demo_request "[]"] by (simp add: demo_request_def)

lemma demo_request_token: "drop 26 (enc_ReadTokenReq demo_request) = ascii ''secret'' @ replicate 26 0"
  by (simp add: enc_ReadTokenReq_def demo_request_def)

theorem token_request_verdict_witness:
  "\<exists>s'. read_token store 4 (enc_ReadTokenReq demo_request) demo_recorder = Inr ((), s') \<and>
    token_answered (\<lambda>db. db) 4 demo_request RC_SUCC demo_recorder s'"
proof -
  have c: "c_str (ascii ''secret'' @ replicate 26 0) = ascii ''secret''" by (simp add: c_str_def ascii_def)
  have f: "tq_mobile demo_request = 7" "tq_app demo_request = 1" by (simp_all add: demo_request_def)
  have "token_verdict (tr_net demo_recorder) demo_request (ascii ''secret'') = RC_SUCC"
    by (simp add: token_verdict_def f demo_recorder_vals atoll_5000)
  moreover have "0 \<notin> set (ascii ''secret'')" "fmt_plain (ascii ''secret'')" by (simp_all add: ascii_def)
  ultimately show ?thesis
    using token_request_verdict [OF store_serves demo_recorder_ready, of "enc_ReadTokenReq demo_request" demo_request 4]
    by (simp add: demo_request_dec demo_request_token c f demo_recorder_vals)
qed

definition odd_request :: ReadTokenReq where
  "odd_request = \<lparr>tq_cid = 9, tq_app = 1, tq_mobile = 7, tq_token = ascii ''a%n'' @ replicate 29 0\<rparr>"

theorem token_conversion_fault_witness:
  "read_token store 4 (enc_ReadTokenReq odd_request) (demo_recorder\<lparr>tr_net := [auth_key 7 1 \<mapsto> ascii ''a%n'']\<rparr>) = Inl OutOfBounds"
proof -
  have d: "dec_ReadTokenReq (enc_ReadTokenReq odd_request) = odd_request"
    using dec_enc_ReadTokenReq [of odd_request "[]"] by (simp add: odd_request_def)
  have t: "drop 26 (enc_ReadTokenReq odd_request) = ascii ''a%n'' @ replicate 29 0"
    by (simp add: enc_ReadTokenReq_def odd_request_def)
  have c: "c_str (ascii ''a%n'' @ replicate 29 0) = ascii ''a%n''" "\<not> fmt_plain (ascii ''a%n'')"
    by (simp_all add: c_str_def ascii_def)
  show ?thesis
    using token_conversion_fault [OF store_serves, of "demo_recorder\<lparr>tr_net := [auth_key 7 1 \<mapsto> ascii ''a%n'']\<rparr>"
        "enc_ReadTokenReq odd_request" odd_request 4] demo_recorder_ready
    by (simp add: d t c pool_ready_def) (simp add: odd_request_def)
qed

definition demo_alive :: KeepAliveToken where
  "demo_alive = \<lparr>ka_app = 1 # replicate 15 0, ka_mobile = 7 # replicate 15 0\<rparr>"

theorem keep_alive_increments_foo_witness:
  "\<exists>s'. keep_alive store (enc_KeepAliveToken demo_alive) demo_recorder = Inr ((), s') \<and>
     tr_net s' = snd (hi_command store (ascii ''incr foo'') (snd (hi_command store (ascii ''incr foo'') (tr_net demo_recorder))))"
proof -
  have d: "dec_KeepAliveToken (enc_KeepAliveToken demo_alive) = demo_alive"
    using dec_enc_KeepAliveToken [of demo_alive "[]"] by (simp add: demo_alive_def)
  have u: "alive_users demo_alive = [(7, 1)]" by (simp add: alive_users_def demo_alive_def)
  have dg: "digits 7 = [55]" "digits (Suc 0) = [49]" by (subst digits.simps, simp)+
  have len: "length (expire_cmd 7 1) < 1024"
    by (simp add: expire_cmd_def user_key_def fmt_lu_def dg)
  have foo: "hi_command store (ascii ''incr foo'') db = (Some \<lparr>rr_type = REPLY_INTEGER, rr_integer = 1, rr_str = None\<rparr>, db)" for db
    by (simp add: store_def store_command_def ascii_def)
  have c: "tr_stack demo_recorder = [1]" "tr_ready demo_recorder = 1" "tr_chan demo_recorder" "\<exists>c. tr_conns demo_recorder 1 = Some c \<and> rc_ctx c"
    by (simp_all add: demo_recorder_def os.defs)
  have "\<exists>s'. keep_alive store (enc_KeepAliveToken demo_alive) demo_recorder = Inr ((), s')"
    using c len by (auto simp: keep_alive_def d u exec_command_pipeline_def rconn_pipeline_def get_connection_def co_wait_def
        push_back_connection_def co_ready_def andThen_apply on_net_def foo)
  then obtain s' where s': "keep_alive store (enc_KeepAliveToken demo_alive) demo_recorder = Inr ((), s')" ..
  show ?thesis using keep_alive_increments_foo [OF s'] s' d u demo_recorder_ready by auto
qed

theorem header_cut_closes_witness:
  "NetRead store 4 (take 3 (frame [7, 0]) # drop 3 (frame [7, 0]) # []) demo_recorder = sys_close 4 demo_recorder"
  by (rule header_cut_closes) simp_all

end
