(* ===== verification/Spec2Isabelle.thy ===== *)
theory Spec2Isabelle
  imports TmsRun TmsForward Md5 LdbShards DpiConn DpiRace Recorder
begin

text \<open>
  Verification of the https tunnel proxy.

  \<^bold>\<open>The program.\<close> Four processes. The SDK (\<^verbatim>\<open>sdk/sdk\<close>) runs in an app, takes its http requests on a local port and
  tunnels them. The proxy server tms (\<^verbatim>\<open>tms/tms\<close>) accepts tunnels, has a user's token and balance checked by the
  traffic recorder, resolves host names, connects to the web server, forwards in both directions and accounts
  the traffic. The dpi (\<^verbatim>\<open>ic-dpi/ic-dpi\<close>) captures the packets of the tms host and accounts them to client
  addresses in an LRU cache taken from leveldb (\<^verbatim>\<open>ic-dpi/ic-leveldb\<close>); tms tells it which address belongs to which
  user. The traffic recorder (\<^verbatim>\<open>trafficRecorder\<close>) keeps tokens and balances in redis. The processes talk in
  framed binary messages over TCP.

  \<^bold>\<open>How it is modelled.\<close> C++ functions are programs \<open>('s, 'a) prog\<close>: from a state to a fault (null or dangling
  pointer, access out of bounds, front of an empty container, abort) or a result and a new state. Objects live in heaps,
  maps from addresses to records; \<^verbatim>\<open>std::map\<close> is a key-sorted association list; integers have their machine width.
  The operating system is a parameter: a record of answer streams that the process states extend (\<open>os\<close>), with a
  log of the effects. What a peer sends is a list of chunks, the units in which reads return it.

  \<^bold>\<open>Shared theories.\<close>
  \<^item> \<open>Prelude\<close>: machine types, the program type and its calculi (\<open>total\<close>, \<open>faultless\<close>, \<open>yields\<close>, \<open>keeps\<close>, and the locale
    \<open>safe_steps\<close> of steps that keep an invariant), heap access, integers in memory.
  \<^item> \<open>Containers\<close>: the ordered containers of the standard library. \<open>Os\<close>: system calls.
  \<^item> \<open>Traffic\<close>: \<^verbatim>\<open>tms/tms/TMSDataTypes.h\<close>; the order of user ids and the traffic estimates.
  \<^item> \<open>Wire\<close>: the messages of \<^verbatim>\<open>tms/tms/TMSMessage.h\<close>, which the other processes repeat, as the images of the
    packed structs that the programs send, and the fields at their offsets.
  \<^item> \<open>Framing\<close>, \<open>RxConn\<close>: the packet reader that tms, dpi and SDK each have a copy of. The locales \<open>stream_receiver\<close> and
    \<open>frame_receiver\<close> say what a receive loop over such a reader delivers; \<open>rx_part\<close> carries that to any connection
    object with a reader in it, and is interpreted for tms and dpi.

  \<^bold>\<open>tms.\<close>
  \<^item> \<open>TmsState\<close> has the objects of \<^verbatim>\<open>ConnectMgr.h\<close>, \<^verbatim>\<open>SCB.h\<close>, \<^verbatim>\<open>UserMgr.h\<close>, \<^verbatim>\<open>DnsCache.h\<close>, \<open>TmsInv\<close> the invariant \<open>tms_wf\<close>
    of tables, lists and the pointers to streams and users (an interpretation of \<open>safe_steps\<close>). The pointers from a stream to
    its connections and the connection pools are not in it, since they are not always live.
  \<^item> \<open>Scb\<close> (\<^verbatim>\<open>SCB.h\<close>), \<open>Billing\<close> (accounting of \<^verbatim>\<open>UserMgr.cpp\<close>), \<open>TmsConn\<close> (\<^verbatim>\<open>ConnectMgr.cpp\<close> below the handlers, and the
    streams of \<^verbatim>\<open>UserMgr.cpp\<close>), \<open>Dns\<close> and \<open>TmsDns\<close> (\<^verbatim>\<open>DnsCache.cpp\<close>), \<open>TmsMsg\<close> (\<^verbatim>\<open>HandleRecvMsg\<close>), \<open>TmsRecv\<close> (reading,
    writing and the handling of one event in \<^verbatim>\<open>main.cpp\<close>): one definition for each function or case.
  \<^item> Results: every state the event loop reaches is well-formed, but a lost dpi connection stays in its pool and is used after
    it has been freed (\<open>TmsRun\<close>); the balance is one quota for all streams of a user, traffic is conserved from charge to
    report, and ids are unique (\<open>Billing\<close>, \<open>Scb\<close>); messages arrive whole (\<open>TmsRecv\<close>); a client is authenticated only by a
    token reply with its token, but also by one it sends itself (\<open>TmsAuth\<close>); uploads and downloads are forwarded
    unchanged as far as the socket takes them, with the cases in which bytes are lost or repeated or the client is not authenticated
    (\<open>TmsForward\<close>); a query asks a name server for the host's address and the reply gives it, and a reply without an address is read out
    of bounds (\<open>Dns\<close>).

  \<^bold>\<open>dpi.\<close>
  \<^item> \<open>LdbTable\<close>, \<open>LdbCache\<close>, \<open>LdbShards\<close>: \<^verbatim>\<open>util/hash.cc\<close> and \<^verbatim>\<open>util/cache.cc\<close> of leveldb. The table satisfies the locale
    \<open>handle_table\<close>, on which one shard rests, and the sharded cache satisfies \<open>handle_cache\<close>, on which the
    accounts rest. No operation of a client that releases what it holds faults; eviction, lookup and held handles
    behave as the interface promises.
  \<^item> \<open>DpiTraffic\<close> (\<^verbatim>\<open>LvldbMgr.cpp\<close>, \<^verbatim>\<open>PcapModule.cpp\<close>) and \<open>DpiAccount\<close>: the handlers of packets, logins and replies as
    atomic updates of an account; what is reported and what is held is what was counted.
  \<^item> \<open>DpiConn\<close> (\<^verbatim>\<open>ConnectMgr.cpp\<close>, \<^verbatim>\<open>main.cpp\<close>): connections and event loop, the invariant of every reachable state.
  \<^item> \<open>DpiRace\<close>: the interleavings of the two threads on one account; the stepwise handler refines the atomic one,
    and every byte that arrives is reported, held or dropped for want of an identity if the compiler evaluates the arguments of an exchange in one order, and not in the other.

  \<^bold>\<open>Traffic recorder.\<close>
  \<^item> \<open>RedisPool\<close> (\<^verbatim>\<open>redis_connect.cpp\<close>, \<^verbatim>\<open>redis_conn_pool.cpp\<close>): connections and their pool. hiredis, with the server, is a
    parameter (\<open>hiredis\<close>).
  \<^item> \<open>Recorder\<close> (\<^verbatim>\<open>TRNet.cpp\<close>): the handlers of token requests, traffic reports and keep-alives, and the reading of
    messages. Given the documented behaviour of four redis commands (\<open>redis_serves\<close>, which the server \<open>store\<close>
    satisfies), token requests get the right verdict unless the token has a format conversion, and reports are
    deducted exactly; interleaved reports lose a deduction, keep-alives do nothing and a header cut early ends a connection.

  \<^bold>\<open>SDK.\<close> \<open>Md5\<close>: \<^verbatim>\<open>md5.cpp\<close>; hashing in pieces of at most \<open>2^32 - 64\<close> bytes is hashing the whole, against the definition of
  RFC 1321; a longer piece can be read past its end.

  \<^bold>\<open>Bounds and fuel.\<close> Receive loops recurse on the unread input, which each read shortens. The \<^verbatim>\<open>do .. while\<close> loops
  around \<^verbatim>\<open>HandleRecvEvent\<close> have fuel, and one round is shown to be enough (\<open>recv_loop_once\<close>, \<open>dpi_recv_loop_once\<close>). The loop over
  the LRU list has the length of the list as fuel, since each round takes one entry. The retry loops around exchanges
  are steps of a relation in \<open>DpiRace\<close>, without fuel; in \<open>DpiTraffic\<close> nothing interferes and each exchange succeeds.

  \<^bold>\<open>Not modelled.\<close> The SDK but for MD5: its protocol messages are those of \<open>Wire\<close> and its packet reader that of \<open>RxConn\<close>,
  but its connection manager, main loop, app interface, page cache, recycler and TLS detection have no definitions
  here, and its http client is calls of curl and cJSON, which are not in the sources. The rest of leveldb, which the
  dpi does not call; \<^verbatim>\<open>libgo\<close>, a copy of a third-party scheduler, of which the recorder's model keeps only that
  other coroutines may run at a redis query; the typed wrappers of the redis client, which nothing calls; opening
  sockets, the capture device and threads; printing; the test programs; generated headers.
\<close>

end
